(* ===== verification/Go_Prelude.thy ===== *)
theory Go_Prelude
  imports Complex_Main "HOL-Library.AList" "HOL-Library.List_Lexorder" "HOL-Library.Char_ord"
    "HOL-Library.Multiset" "HOL-Library.Product_Lexorder" "HOL-Library.Word"
begin

text \<open>
  What every component of the development shares: the Go values and library calls the server is
  written with.

  \<^item> A Go \<^verbatim>\<open>map[K]V\<close> is an association list with at most one entry per key.  Reading is
    \<open>map_of\<close>, writing is \<open>AList.update\<close>, \<^verbatim>\<open>delete\<close> is \<open>AList.delete\<close>, \<^verbatim>\<open>len\<close> is
    \<open>length\<close> and a \<^verbatim>\<open>range\<close> visits the list front to back.  Go leaves the order of a
    \<^verbatim>\<open>range\<close> open, so every result built from one has a lemma saying it does not depend on the
    order of the list.  The interface is the locale \<open>go_map\<close>, and association lists are its
    interpretation \<open>gm\<close>.
  \<^item> \<^verbatim>\<open>sort.Slice\<close> with a comparison of keys is \<open>sort_key\<close>.  It is not stable in Go, so the
    lemmas about it ask that the keys of the elements differ.
  \<^item> A Go \<^verbatim>\<open>string\<close> is its list of bytes, one \<open>char\<close> each, compared bytewise.
  \<^item> A Go result \<^verbatim>\<open>(T, error)\<close> is \<open>error + T\<close>; a lone \<^verbatim>\<open>error\<close> is an \<open>option\<close>, with
    \<open>None\<close> for nil.
\<close>

named_theorems go_simps \<open>rewrite rules for maps, strings and results of the modelled code\<close>

named_theorems inv_defs \<open>definitions of the components' invariants\<close>

subsection \<open>Maps\<close>

type_synonym ('k, 'v) gomap = "('k \<times> 'v) list"

abbreviation gm_ok :: "('k, 'v) gomap \<Rightarrow> bool" where
  "gm_ok m \<equiv> distinct (map fst m)"

abbreviation gm_has :: "('k, 'v) gomap \<Rightarrow> 'k \<Rightarrow> bool" where
  "gm_has m k \<equiv> map_of m k \<noteq> None"

text \<open>Reads stay reads: a lookup is not turned into membership of a pair in the list.\<close>

declare map_of_eq_Some_iff [simp del] Some_eq_map_of_iff [simp del]

lemma map_of_update [go_simps, simp]: "map_of (AList.update k v m) = (map_of m)(k \<mapsto> v)"
  by (rule update_conv')

lemma map_of_delete [go_simps, simp]: "map_of (AList.delete k m) = (map_of m)(k := None)"
  by (rule delete_conv')

lemma gm_ok_update [simp, intro]: "gm_ok m \<Longrightarrow> gm_ok (AList.update k v m)"
  by (rule distinct_update)

lemma gm_ok_delete [simp, intro]: "gm_ok m \<Longrightarrow> gm_ok (AList.delete k m)"
  by (rule distinct_delete)

lemma gm_dom: "dom (map_of m) = set (map fst m)"
  by (simp add: dom_map_of_conv_image_fst)

lemma gm_dom_subset: "dom (map_of m) \<subseteq> A \<longleftrightarrow> (\<forall>k v. map_of m k = Some v \<longrightarrow> k \<in> A)"
  by auto

lemma gm_mem: "gm_ok m \<Longrightarrow> (k, v) \<in> set m \<longleftrightarrow> map_of m k = Some v"
  by (simp add: map_of_eq_Some_iff)

lemma update_fresh: "map_of m k = None \<Longrightarrow> AList.update k v m = m @ [(k, v)]"
  by (induction m) (auto split: if_splits)

lemma delete_absent: "map_of m k = None \<Longrightarrow> AList.delete k m = m"
  by (simp add: map_of_eq_None_iff delete_idem)

lemma gm_ext_mset: "gm_ok m \<Longrightarrow> gm_ok m' \<Longrightarrow> map_of m = map_of m' \<Longrightarrow> mset m = mset m'"
  by (metis distinct_map map_of_inject_set set_eq_iff_mset_eq_distinct)

lemma map_of_map_snd: "map_of (map (\<lambda>(k, v). (k, f k v)) m) k = map_option (f k) (map_of m k)"
  by (induction m) auto

lemma map_fst_map_snd [simp]: "map fst (map (\<lambda>(k, v). (k, f k v)) m) = map fst m"
  by (induction m) auto

text \<open>Reading a \<^verbatim>\<open>map[K]bool\<close>: an absent key reads as false.\<close>

definition flagged :: "('k, bool) gomap \<Rightarrow> 'k \<Rightarrow> bool" where
  "flagged m k \<longleftrightarrow> map_of m k = Some True"

lemma flagged_Nil [simp]: "flagged [] k = False"
  by (simp add: flagged_def)

lemma flagged_update [simp]: "flagged (AList.update k b m) j \<longleftrightarrow> (if j = k then b else flagged m j)"
  by (simp add: flagged_def)

lemma flagged_delete [simp]: "flagged (AList.delete k m) j \<longleftrightarrow> j \<noteq> k \<and> flagged m j"
  by (simp add: flagged_def)

text \<open>Deleting every key a range finds unwanted.\<close>

lemma map_of_filter_keys [simp]: "map_of (filter (\<lambda>(k, v). P k) m) k = (if P k then map_of m k else None)"
  by (induction m) auto

lemma gm_ok_filter [simp]: "gm_ok m \<Longrightarrow> gm_ok (filter P m)"
  by (rule distinct_map_filter)

lemma flagged_filter [simp]: "flagged (filter (\<lambda>(k, v). P k) m) k \<longleftrightarrow> P k \<and> flagged m k"
  by (simp add: flagged_def)

text \<open>
  The map interface, as the code uses it: reads, writes and deletes, and the keys a \<^verbatim>\<open>range\<close>
  visits.  What the clients need from it is proved once, inside the locale.
\<close>

locale go_map =
  fixes get :: "'m \<Rightarrow> 'k \<Rightarrow> 'v option"
    and put :: "'k \<Rightarrow> 'v \<Rightarrow> 'm \<Rightarrow> 'm"
    and del :: "'k \<Rightarrow> 'm \<Rightarrow> 'm"
    and keys :: "'m \<Rightarrow> 'k list"
    and ok :: "'m \<Rightarrow> bool"
  assumes get_put: "get (put k v m) = (get m)(k \<mapsto> v)"
    and get_del: "get (del k m) = (get m)(k := None)"
    and ok_put: "ok m \<Longrightarrow> ok (put k v m)"
    and ok_del: "ok m \<Longrightarrow> ok (del k m)"
    and keys_dom: "ok m \<Longrightarrow> set (keys m) = dom (get m)"
    and keys_distinct: "ok m \<Longrightarrow> distinct (keys m)"
begin

lemma finite_dom: "ok m \<Longrightarrow> finite (dom (get m))"
  by (metis keys_dom List.finite_set)

lemma length_card: "ok m \<Longrightarrow> length (keys m) = card (dom (get m))"
  by (metis keys_dom keys_distinct distinct_card)

lemma keys_perm: "ok m \<Longrightarrow> ok m' \<Longrightarrow> get m = get m' \<Longrightarrow> mset (keys m) = mset (keys m')"
  by (metis keys_dom keys_distinct set_eq_iff_mset_eq_distinct)

lemma range_order_irrelevant:
  assumes "ok m" and "ok m'" and "get m = get m'" and "inj_on f {k \<in> dom (get m). P k}"
  shows "sort_key f (filter P (keys m)) = sort_key f (filter P (keys m'))"
proof -
  have "mset (filter P (keys m)) = mset (filter P (keys m'))"
    using keys_perm [OF assms(1-3)] by (simp add: mset_filter)
  moreover have "set (filter P (keys m)) = {k \<in> dom (get m). P k}"
    using keys_dom [OF assms(1)] by auto
  ultimately show ?thesis
    using assms(4) by (intro sort_key_inj_key_eq) (simp_all add: mset_sort sorted_sort_key)
qed

lemma length_put_le: "ok m \<Longrightarrow> length (keys (put k v m)) \<le> Suc (length (keys m))"
  by (simp add: length_card ok_put get_put card_insert_if finite_dom)

lemma put_same: "ok m \<Longrightarrow> get m k = Some v \<Longrightarrow> get (put k v m) = get m"
  by (auto simp: get_put)

end

interpretation gm: go_map map_of AList.update AList.delete "map fst" gm_ok
  by unfold_locales (auto simp: gm_dom)

subsection \<open>Sorting by a key\<close>

lemma sort_key_unique:
  "mset xs = mset ys \<Longrightarrow> inj_on f (set xs) \<Longrightarrow> sort_key f xs = sort_key f ys"
  by (rule sort_key_inj_key_eq) simp_all

lemma sort_key_any_sorted:
  "mset ys = mset xs \<Longrightarrow> inj_on f (set xs) \<Longrightarrow> sorted (map f ys) \<Longrightarrow> ys = sort_key f xs"
  by (metis sort_key_inj_key_eq)

lemma sort_key_cong_strict:
  fixes f :: "'a \<Rightarrow> 'b :: linorder" and g :: "'a \<Rightarrow> 'c :: linorder"
  assumes "\<And>x y. x \<in> set xs \<Longrightarrow> y \<in> set xs \<Longrightarrow> f x \<le> f y \<longleftrightarrow> g x \<le> g y"
    and "inj_on f (set xs)"
  shows "sort_key f xs = sort_key g xs"
proof -
  have "sorted (map f (sort_key g xs))"
  proof -
    have "sorted_wrt (\<lambda>x y. g x \<le> g y) (sort_key g xs)"
      using sorted_sort_key [of g xs] by (simp add: sorted_map)
    then have "sorted_wrt (\<lambda>x y. f x \<le> f y) (sort_key g xs)"
      by (rule sorted_wrt_mono_rel [rotated]) (use assms(1) in auto)
    then show ?thesis by (simp add: sorted_map)
  qed
  then show ?thesis
    using assms(2) by (intro sort_key_inj_key_eq) simp_all
qed

lemma sort_distinct_is_sorted_list_of_set:
  "distinct xs \<Longrightarrow> sort xs = sorted_list_of_set (set xs)"
  by (simp add: sorted_list_of_set_sort_remdups distinct_remdups_id)

subsection \<open>Strings\<close>

definition str_cut :: "char \<Rightarrow> string \<Rightarrow> (string \<times> string) option" where
  "str_cut c s =
     (case dropWhile (\<lambda>x. x \<noteq> c) s of
        [] \<Rightarrow> None
      | _ # rest \<Rightarrow> Some (takeWhile (\<lambda>x. x \<noteq> c) s, rest))"

lemma str_cut_None [go_simps]: "str_cut c s = None \<longleftrightarrow> c \<notin> set s"
proof -
  have "dropWhile (\<lambda>x. x \<noteq> c) s = [] \<longleftrightarrow> c \<notin> set s"
    by (induction s) auto
  moreover have "str_cut c s = None \<longleftrightarrow> dropWhile (\<lambda>x. x \<noteq> c) s = []"
    unfolding str_cut_def by (rule list.exhaust [of "dropWhile (\<lambda>x. x \<noteq> c) s"]) (simp_all only: list.case
      option.distinct list.distinct simp_thms)
  ultimately show ?thesis by (simp only:)
qed

lemma str_cut_append [go_simps]: "c \<notin> set a \<Longrightarrow> str_cut c (a @ c # b) = Some (a, b)"
proof (induction a)
  case Nil
  then show ?case by (simp add: str_cut_def)
next
  case (Cons x a)
  then show ?case by (auto simp: str_cut_def split: list.splits)
qed

lemma str_cut_SomeD: "str_cut c s = Some (a, b) \<Longrightarrow> s = a @ c # b \<and> c \<notin> set a"
proof -
  assume cut: "str_cut c s = Some (a, b)"
  then obtain d where d: "dropWhile (\<lambda>x. x \<noteq> c) s = d # b" "a = takeWhile (\<lambda>x. x \<noteq> c) s"
    by (auto simp: str_cut_def split: list.splits)
  have "d = c"
    using d(1) hd_dropWhile [of "\<lambda>x. x \<noteq> c" s] by force
  with d have "s = a @ c # b"
    by (metis takeWhile_dropWhile_id)
  moreover have "c \<notin> set a"
    using d(2) set_takeWhileD by fastforce
  ultimately show ?thesis by simp
qed

subsection \<open>Decimal numbers: strconv.Itoa and the \<open>%d\<close> verb\<close>

definition dec_digit :: "nat \<Rightarrow> char" where
  "dec_digit d = char_of (48 + d)"

fun dec_nat :: "nat \<Rightarrow> string" where
  "dec_nat n = (if n < 10 then [dec_digit n] else dec_nat (n div 10) @ [dec_digit (n mod 10)])"

declare dec_nat.simps [simp del]

definition itoa :: "int \<Rightarrow> string" where
  "itoa i = (if i < 0 then CHR ''-'' # dec_nat (nat (- i)) else dec_nat (nat i))"

definition undec :: "string \<Rightarrow> nat" where
  "undec s = foldl (\<lambda>acc c. 10 * acc + (of_char c - 48)) 0 s"

lemma of_char_dec_digit [simp]: "d < 10 \<Longrightarrow> (of_char (dec_digit d) :: nat) = 48 + d"
  by (simp add: dec_digit_def)

lemma dec_digit_inj: "d < 10 \<Longrightarrow> e < 10 \<Longrightarrow> dec_digit d = dec_digit e \<Longrightarrow> d = e"
  by (metis add_left_imp_eq of_char_dec_digit)

lemma undec_snoc [simp]: "undec (s @ [c]) = 10 * undec s + (of_char c - 48)"
  by (simp add: undec_def)

lemma undec_dec_nat [simp]: "undec (dec_nat n) = n"
proof (induction n rule: dec_nat.induct)
  case (1 n)
  show ?case
  proof (cases "n < 10")
    case True
    then show ?thesis by (subst dec_nat.simps) (simp add: undec_def)
  next
    case False
    with "1" show ?thesis by (subst dec_nat.simps) simp
  qed
qed

lemma dec_nat_inject [simp]: "dec_nat m = dec_nat n \<longleftrightarrow> m = n"
  by (metis undec_dec_nat)

lemma dec_nat_digits: "c \<in> set (dec_nat n) \<Longrightarrow> \<exists>d < 10. c = dec_digit d"
proof (induction n rule: dec_nat.induct)
  case (1 n)
  show ?case
  proof (cases "n < 10")
    case True
    with "1.prems" show ?thesis by (subst (asm) dec_nat.simps) auto
  next
    case False
    with "1.prems" have "c \<in> set (dec_nat (n div 10)) \<or> c = dec_digit (n mod 10)"
      by (subst (asm) dec_nat.simps) auto
    then show ?thesis
    proof
      assume "c \<in> set (dec_nat (n div 10))"
      with False show ?thesis by (rule "1.IH")
    next
      assume "c = dec_digit (n mod 10)"
      then show ?thesis by (intro exI [of _ "n mod 10"]) simp
    qed
  qed
qed

lemma dec_nat_no_dash: "CHR ''-'' \<notin> set (dec_nat n)"
proof
  assume "CHR ''-'' \<in> set (dec_nat n)"
  then obtain d where d: "d < 10" "CHR ''-'' = dec_digit d"
    using dec_nat_digits by blast
  have "(of_char (CHR ''-'') :: nat) = 45" by simp
  with d of_char_dec_digit [of d] show False by simp
qed

lemma dec_nat_nonempty [simp]: "dec_nat n \<noteq> []"
  by (subst dec_nat.simps) simp

lemma itoa_inject [simp]: "itoa i = itoa j \<longleftrightarrow> i = j"
proof -
  have "dec_nat m \<noteq> CHR ''-'' # s" for m s
    using dec_nat_no_dash [of m] by (metis list.set_intros(1))
  then show ?thesis
    by (auto simp: itoa_def split: if_splits) metis+
qed

text \<open>
  A name built by appending \<open>-n\<close> to a prefix determines both: the last dash is the separator,
  since a number's digits hold none.
\<close>

lemma append_no_sep_eq:
  fixes c :: char
  assumes "a @ c # b = a' @ c # b'" and "c \<notin> set b" and "c \<notin> set b'"
  shows "a = a' \<and> b = b'"
proof -
  have eq: "rev b @ c # rev a = rev b' @ c # rev a'"
    using arg_cong [OF assms(1), of rev] by simp
  have "Some (rev b, rev a) = str_cut c (rev b @ c # rev a)"
    using assms(2) by (intro str_cut_append [symmetric]) simp
  also have "\<dots> = str_cut c (rev b' @ c # rev a')"
    by (simp only: eq)
  also have "\<dots> = Some (rev b', rev a')"
    using assms(3) by (intro str_cut_append) simp
  finally show ?thesis by simp
qed

subsection \<open>Results\<close>

fun is_ok :: "'e + 'a \<Rightarrow> bool" where
  "is_ok (Inl _) = False"
| "is_ok (Inr _) = True"

lemma is_ok_iff: "is_ok r \<longleftrightarrow> (\<exists>x. r = Inr x)"
  by (cases r) auto

subsection \<open>Writing in a row\<close>

text \<open>Writing one thing after the other until a write fails: the first error, and the state as that write left it.\<close>

fun write_until :: "('l \<Rightarrow> 'w \<Rightarrow> 'e option \<times> 'w) \<Rightarrow> 'l list \<Rightarrow> 'w \<Rightarrow> 'e option \<times> 'w" where
  "write_until write [] w = (None, w)"
| "write_until write (l # ls) w =
     (case write l w of (Some err, w') \<Rightarrow> (Some err, w') | (None, w') \<Rightarrow> write_until write ls w')"

end
