(* ===== verification/Go_Text.thy ===== *)
theory Go_Text
  imports Go_Prelude
begin

text \<open>
  What a Go \<^verbatim>\<open>for _, r := range s\<close> sees of a string: the code points the UTF-8 decoder of the
  language reads off the bytes, with U+FFFD and a width of one for a byte that starts no well
  formed sequence.  The one fact the identifier grammar needs is at the end: a test that only
  ever holds of ASCII characters finds the same strings whether it looks at the decoded runes or
  at the bytes.
\<close>

definition rune_error :: nat where
  "rune_error = 65533"

abbreviation byte_val :: "char \<Rightarrow> nat" where
  "byte_val c \<equiv> of_char c"

definition byte_in :: "nat \<Rightarrow> nat \<Rightarrow> char \<Rightarrow> bool" where
  "byte_in lo hi c \<longleftrightarrow> lo \<le> byte_val c \<and> byte_val c \<le> hi"

fun decode_rune :: "string \<Rightarrow> nat \<times> nat" where
  "decode_rune [] = (rune_error, 0)"
| "decode_rune (c # cs) =
     (let b = byte_val c in
      if b < 128 then (b, 1)
      else if 194 \<le> b \<and> b \<le> 223 then
        (case cs of
           c1 # _ \<Rightarrow>
             if byte_in 128 191 c1 then ((b - 192) * 64 + (byte_val c1 - 128), 2)
             else (rune_error, 1)
         | _ \<Rightarrow> (rune_error, 1))
      else if 224 \<le> b \<and> b \<le> 239 then
        (case cs of
           c1 # c2 # _ \<Rightarrow>
             if byte_in (if b = 224 then 160 else 128) (if b = 237 then 159 else 191) c1
                \<and> byte_in 128 191 c2
             then ((b - 224) * 4096 + (byte_val c1 - 128) * 64 + (byte_val c2 - 128), 3)
             else (rune_error, 1)
         | _ \<Rightarrow> (rune_error, 1))
      else if 240 \<le> b \<and> b \<le> 244 then
        (case cs of
           c1 # c2 # c3 # _ \<Rightarrow>
             if byte_in (if b = 240 then 144 else 128) (if b = 244 then 143 else 191) c1
                \<and> byte_in 128 191 c2 \<and> byte_in 128 191 c3
             then ((b - 240) * 262144 + (byte_val c1 - 128) * 4096
                   + (byte_val c2 - 128) * 64 + (byte_val c3 - 128), 4)
             else (rune_error, 1)
         | _ \<Rightarrow> (rune_error, 1))
      else (rune_error, 1))"

lemma decode_rune_ascii: "byte_val c < 128 \<Longrightarrow> decode_rune (c # cs) = (byte_val c, 1)"
  by simp

text \<open>A sequence that starts outside ASCII decodes outside ASCII and consumes only such bytes.\<close>

lemma decode_rune_non_ascii:
  assumes "128 \<le> byte_val c" and "decode_rune (c # cs) = (r, w)"
  shows "128 \<le> r \<and> 1 \<le> w \<and> (\<forall>x \<in> set (take w (c # cs)). 128 \<le> byte_val x)"
proof -
  consider "194 \<le> byte_val c \<and> byte_val c \<le> 223" | "224 \<le> byte_val c \<and> byte_val c \<le> 239"
    | "240 \<le> byte_val c \<and> byte_val c \<le> 244"
    | "byte_val c < 194 \<or> 244 < byte_val c"
    by linarith
  then show ?thesis
  proof cases
    case 1
    with assms show ?thesis
      by (auto simp: Let_def rune_error_def byte_in_def split: list.splits if_splits)
  next
    case 2
    with assms show ?thesis
      by (auto simp: Let_def rune_error_def byte_in_def split: list.splits if_splits)
  next
    case 3
    with assms show ?thesis
      by (auto simp: Let_def rune_error_def byte_in_def split: list.splits if_splits)
  next
    case 4
    with assms show ?thesis
      by (auto simp: Let_def rune_error_def split: if_splits)
  qed
qed

lemma decode_rune_width: "snd (decode_rune (c # cs)) \<ge> 1"
proof (cases "byte_val c < 128")
  case False
  then show ?thesis
    using decode_rune_non_ascii [of c cs] by (metis linorder_not_less prod.collapse)
qed (simp add: decode_rune_ascii)

function go_runes :: "string \<Rightarrow> nat list" where
  "go_runes s =
     (case s of
        [] \<Rightarrow> []
      | c # cs \<Rightarrow> fst (decode_rune s) # go_runes (drop (snd (decode_rune s)) s))"
  by pat_completeness auto
termination
proof (relation "measure length")
  fix s :: string and c cs
  assume "s = c # cs"
  then show "(drop (snd (decode_rune s)) s, s) \<in> measure length"
    using decode_rune_width [of c cs] by (simp del: decode_rune.simps)
qed simp

declare go_runes.simps [simp del]

lemma go_runes_Nil [simp]: "go_runes [] = []"
  by (simp add: go_runes.simps)

lemma go_runes_Cons:
  "go_runes (c # cs) =
     fst (decode_rune (c # cs)) # go_runes (drop (snd (decode_rune (c # cs))) (c # cs))"
  by (subst go_runes.simps) (simp del: decode_rune.simps)

theorem runes_ascii_scan:
  assumes "\<And>r. P r \<Longrightarrow> r < 128"
  shows "(\<exists>r \<in> set (go_runes s). P r) \<longleftrightarrow> (\<exists>c \<in> set s. P (byte_val c))"
proof (induction s rule: go_runes.induct)
  case (1 s)
  show ?case
  proof (cases s)
    case (Cons c cs)
    obtain r w where rw: "decode_rune (c # cs) = (r, w)" by fastforce
    have IH: "(\<exists>x \<in> set (go_runes (drop w (c # cs))). P x) \<longleftrightarrow>
        (\<exists>x \<in> set (drop w (c # cs)). P (byte_val x))"
      using "1.IH" [OF Cons] Cons rw by simp
    have split: "set (c # cs) = set (take w (c # cs)) \<union> set (drop w (c # cs))"
      by (metis append_take_drop_id set_append)
    show ?thesis
    proof (cases "byte_val c < 128")
      case True
      with rw have "r = byte_val c" "w = 1"
        by (simp_all only: decode_rune_ascii prod.inject)
      then show ?thesis
        using IH by (simp add: Cons go_runes_Cons rw del: decode_rune.simps)
    next
      case False
      then have "128 \<le> r" and "\<forall>x \<in> set (take w (c # cs)). 128 \<le> byte_val x"
        using decode_rune_non_ascii [OF _ rw] by simp_all
      then have "\<not> P r" and "\<not> (\<exists>x \<in> set (take w (c # cs)). P (byte_val x))"
        using assms linorder_not_less by blast+
      then show ?thesis
        using IH split by (auto simp: Cons go_runes_Cons rw simp del: decode_rune.simps)
    qed
  qed simp
qed

end
