(* ===== verification/Identifiers.thy ===== *)
theory Identifiers
  imports Go_Text
begin

text \<open>
  The identifiers of \<^verbatim>\<open>internal/orchestration/id.go\<close>: a local part and a host, written
  \<open>local@host\<close>.  The lemmas show that printing and parsing are inverse to each other on the
  identifiers the constructors build, which is what lets the stores key on the printed form, and
  that the order the code sorts identifiers by (the order of the printed form) is the order of
  the type class instance below.
\<close>

subsection \<open>The type and its operations\<close>

datatype ID = ID (id_local: string) (id_host: string)

datatype id_fault =
    EmptyPart string
  | SeparatorInPart string string
  | ControlInPart string string
  | NoSeparator string

datatype id_error = ErrInvalidID id_fault

definition zero_ID :: ID where
  "zero_ID = ID [] []"

definition IsZero :: "ID \<Rightarrow> bool" where
  "IsZero i \<longleftrightarrow> id_local i = [] \<and> id_host i = []"

definition ID_String :: "ID \<Rightarrow> string" where
  "ID_String i = (if IsZero i then [] else id_local i @ ''@'' @ id_host i)"

definition control_or_space :: "nat \<Rightarrow> bool" where
  "control_or_space r \<longleftrightarrow> r \<le> 32 \<or> r = 127"

definition checkIDPart :: "string \<Rightarrow> string \<Rightarrow> id_error option" where
  "checkIDPart what s =
     (if s = [] then Some (ErrInvalidID (EmptyPart what))
      else if CHR ''@'' \<in> set s then Some (ErrInvalidID (SeparatorInPart what s))
      else if list_ex control_or_space (go_runes s)
           then Some (ErrInvalidID (ControlInPart what s))
      else None)"

definition NewID :: "string \<Rightarrow> string \<Rightarrow> id_error + ID" where
  "NewID lcl host =
     (case checkIDPart ''local part'' lcl of
        Some err \<Rightarrow> Inl err
      | None \<Rightarrow>
          (case checkIDPart ''host'' host of
             Some err \<Rightarrow> Inl err
           | None \<Rightarrow> Inr (ID lcl host)))"

definition ParseID :: "string \<Rightarrow> id_error + ID" where
  "ParseID s =
     (case str_cut (CHR ''@'') s of
        None \<Rightarrow> Inl (ErrInvalidID (NoSeparator s))
      | Some (lcl, host) \<Rightarrow> NewID lcl host)"

subsection \<open>Valid identifiers\<close>

text \<open>
  The fields are unexported, so a value outside the package is the zero value or one
  \<open>NewID\<close> returned.
\<close>

definition valid_ID :: "ID \<Rightarrow> bool" where
  "valid_ID i \<longleftrightarrow> NewID (id_local i) (id_host i) = Inr i"

definition go_ID :: "ID \<Rightarrow> bool" where
  "go_ID i \<longleftrightarrow> valid_ID i \<or> IsZero i"

definition part_ok :: "string \<Rightarrow> bool" where
  "part_ok s \<longleftrightarrow> s \<noteq> [] \<and> CHR ''@'' \<notin> set s \<and> (\<forall>c \<in> set s. 32 < byte_val c \<and> byte_val c \<noteq> 127)"

lemma checkIDPart_None [go_simps]: "checkIDPart what s = None \<longleftrightarrow> part_ok s"
proof -
  have "list_ex control_or_space (go_runes s) \<longleftrightarrow> (\<exists>c \<in> set s. control_or_space (byte_val c))"
    unfolding list_ex_iff by (rule runes_ascii_scan) (auto simp: control_or_space_def)
  then show ?thesis
    by (simp add: checkIDPart_def part_ok_def control_or_space_def not_le [symmetric])
qed

lemma NewID_iff [go_simps]: "NewID l h = Inr i \<longleftrightarrow> part_ok l \<and> part_ok h \<and> i = ID l h"
  using checkIDPart_None [of "''local part''" l] checkIDPart_None [of "''host''" h]
  by (auto simp: NewID_def split: option.splits)

lemma valid_ID_iff: "valid_ID i \<longleftrightarrow> part_ok (id_local i) \<and> part_ok (id_host i)"
  by (cases i) (simp add: valid_ID_def NewID_iff)

lemma valid_ID_not_zero: "valid_ID i \<Longrightarrow> \<not> IsZero i"
  by (simp add: valid_ID_iff IsZero_def part_ok_def)

lemma NewID_valid: "NewID l h = Inr i \<Longrightarrow> valid_ID i"
  by (simp add: NewID_iff valid_ID_iff)

lemma IsZero_zero_ID [simp]: "IsZero zero_ID"
  by (simp add: IsZero_def zero_ID_def)

lemma IsZero_iff: "IsZero i \<longleftrightarrow> i = zero_ID"
  by (cases i) (auto simp: IsZero_def zero_ID_def)

lemma ID_String_zero [simp]: "ID_String zero_ID = []"
  by (simp add: ID_String_def)

lemma ID_String_Nil [go_simps]: "ID_String i = [] \<longleftrightarrow> IsZero i"
  by (simp add: ID_String_def)

lemma go_ID_valid: "go_ID i \<Longrightarrow> \<not> IsZero i \<Longrightarrow> valid_ID i"
  by (simp add: go_ID_def)

subsection \<open>Printing and parsing\<close>

lemma ParseID_ID_String: "valid_ID i \<Longrightarrow> ParseID (ID_String i) = Inr i"
  using valid_ID_not_zero [of i]
  by (cases i) (simp add: ParseID_def ID_String_def valid_ID_iff part_ok_def str_cut_append
      NewID_iff)

lemma ParseID_SomeD:
  assumes "ParseID s = Inr i"
  shows "valid_ID i \<and> ID_String i = s"
proof -
  obtain l h where cut: "str_cut (CHR ''@'') s = Some (l, h)" and new: "NewID l h = Inr i"
    using assms by (auto simp: ParseID_def split: option.splits)
  from new have i: "i = ID l h" and v: "valid_ID i"
    by (auto simp: NewID_iff intro: NewID_valid)
  from cut have "s = l @ CHR ''@'' # h"
    by (simp add: str_cut_SomeD)
  with i v show ?thesis
    using valid_ID_not_zero [of i] by (simp add: ID_String_def)
qed

lemma ID_String_inj_on: "inj_on ID_String {i. valid_ID i \<or> IsZero i}"
proof (rule inj_onI)
  fix i j
  assume ij: "i \<in> {i. valid_ID i \<or> IsZero i}" "j \<in> {i. valid_ID i \<or> IsZero i}"
    and eq: "ID_String i = ID_String j"
  show "i = j"
  proof (cases "IsZero i")
    case True
    with eq have "IsZero j" by (metis ID_String_Nil)
    with True show ?thesis by (simp add: IsZero_iff)
  next
    case False
    with eq have "\<not> IsZero j" by (metis ID_String_Nil)
    with False ij eq have "Inr i = (Inr j :: id_error + ID)"
      by (metis ParseID_ID_String mem_Collect_eq)
    then show ?thesis by simp
  qed
qed

lemma ID_String_eq_iff:
  "valid_ID i \<Longrightarrow> valid_ID j \<Longrightarrow> ID_String i = ID_String j \<longleftrightarrow> i = j"
  using ID_String_inj_on by (auto dest: inj_onD)

subsection \<open>The order of identifiers\<close>

text \<open>
  \<^verbatim>\<open>sort.Slice\<close> compares the printed forms.  The instance orders by the printed form and by
  the local part where two forms agree, which only happens for values no constructor builds, so
  that the library's sorted lists and sets apply.
\<close>

instantiation ID :: linorder
begin

definition less_eq_ID :: "ID \<Rightarrow> ID \<Rightarrow> bool" where
  "less_eq_ID i j \<longleftrightarrow> ID_String i < ID_String j \<or> (ID_String i = ID_String j \<and> id_local i \<le> id_local j)"

definition less_ID :: "ID \<Rightarrow> ID \<Rightarrow> bool" where
  "less_ID i j \<longleftrightarrow> ID_String i < ID_String j \<or> (ID_String i = ID_String j \<and> id_local i < id_local j)"

instance
proof
  fix i j k :: ID
  show "i < j \<longleftrightarrow> i \<le> j \<and> \<not> j \<le> i"
    by (auto simp: less_eq_ID_def less_ID_def)
  show "i \<le> i" by (simp add: less_eq_ID_def)
  show "i \<le> k" if "i \<le> j" "j \<le> k"
    using that by (auto simp: less_eq_ID_def)
  show "i \<le> j \<or> j \<le> i"
    by (auto simp: less_eq_ID_def)
  show "i = j" if "i \<le> j" "j \<le> i"
  proof -
    have s: "ID_String i = ID_String j" and l: "id_local i = id_local j"
      using that by (auto simp: less_eq_ID_def)
    have "id_host i = id_host j"
    proof (cases "IsZero i")
      case True
      with s have "IsZero j" by (metis ID_String_Nil)
      with True show ?thesis by (simp add: IsZero_iff)
    next
      case False
      with s have "\<not> IsZero j" by (metis ID_String_Nil)
      with False s l show ?thesis by (simp add: ID_String_def)
    qed
    with l show ?thesis by (simp add: ID.expand)
  qed
qed

end

lemma sort_ID_String:
  assumes "\<And>i. i \<in> set xs \<Longrightarrow> valid_ID i"
  shows "sort_key ID_String xs = sort xs"
proof (rule sort_key_cong_strict [where g = "\<lambda>i. i"])
  show "inj_on ID_String (set xs)"
    using assms by (auto intro: inj_on_subset [OF ID_String_inj_on])
  show "ID_String x \<le> ID_String y \<longleftrightarrow> x \<le> y" if "x \<in> set xs" "y \<in> set xs" for x y
    using that assms ID_String_eq_iff [of x y] by (auto simp: less_eq_ID_def)
qed

subsection \<open>Concrete identifiers\<close>

text \<open>Used wherever a witness needs identifiers.\<close>

abbreviation alice :: ID where "alice \<equiv> ID ''alice'' ''host''"

abbreviation bob :: ID where "bob \<equiv> ID ''bob'' ''host''"

abbreviation lobby :: ID where "lobby \<equiv> ID ''lobby'' ''host''"

abbreviation attic :: ID where "attic \<equiv> ID ''attic'' ''host''"

abbreviation home :: ID where "home \<equiv> ID ''home'' ''host''"

lemma example_IDs_valid [simp]:
  "valid_ID alice" "valid_ID bob" "valid_ID lobby" "valid_ID attic" "valid_ID home"
  by (simp_all add: valid_ID_iff part_ok_def)

lemma example_IDs_not_zero [simp]:
  "\<not> IsZero alice" "\<not> IsZero bob" "\<not> IsZero lobby" "\<not> IsZero attic" "\<not> IsZero home"
  by (simp_all add: IsZero_def)

end
