(* ===== verification/Permissions.thy ===== *)
theory Permissions
  imports Identifiers
begin

text \<open>
  The permission model of \<^verbatim>\<open>internal/orchestration/permission.go\<close>: the permission constants,
  principals, subjects, grant sets and \<open>Allow\<close>, the one function that answers a permission
  question.  A \<^verbatim>\<open>Permission\<close> is a Go \<^verbatim>\<open>int\<close>, so values that are no declared constant exist and
  the model keeps them.  A \<^verbatim>\<open>Grantor\<close> is a function; the interface value may be nil, so
  \<open>Allow\<close> takes an option.

  The locale \<open>grant_table\<close> is the interface a store of grants offers (\<^verbatim>\<open>Grant\<close> and
  \<^verbatim>\<open>Granted\<close>); what a grant does to the answers of \<open>Allow\<close> is proved inside it once, for
  every store.
\<close>

subsection \<open>Permissions\<close>

type_synonym permission = int

definition SeeChannel :: permission where "SeeChannel = 1"

definition JoinChannel :: permission where "JoinChannel = 2"

definition SpeakInChannel :: permission where "SpeakInChannel = 3"

definition MuteMember :: permission where "MuteMember = 4"

definition MoveMember :: permission where "MoveMember = 5"

definition ManageChannel :: permission where "ManageChannel = 6"

definition ManageSpace :: permission where "ManageSpace = 7"

lemmas permission_defs [simp] =
  SeeChannel_def JoinChannel_def SpeakInChannel_def MuteMember_def MoveMember_def
  ManageChannel_def ManageSpace_def

definition all_Permissions :: "permission list" where
  "all_Permissions =
     [SeeChannel, JoinChannel, SpeakInChannel, MuteMember, MoveMember, ManageChannel, ManageSpace]"

definition Permission_String :: "permission \<Rightarrow> string" where
  "Permission_String p =
     (if p = SeeChannel then ''see-channel''
      else if p = JoinChannel then ''join-channel''
      else if p = SpeakInChannel then ''speak-in-channel''
      else if p = MuteMember then ''mute-member''
      else if p = MoveMember then ''move-member''
      else if p = ManageChannel then ''manage-channel''
      else if p = ManageSpace then ''manage-space''
      else ''undeclared-permission('' @ itoa p @ '')'')"

fun declared_in :: "permission list \<Rightarrow> permission \<Rightarrow> bool" where
  "declared_in [] p = False"
| "declared_in (known # rest) p = (if p = known then True else declared_in rest p)"

definition declared :: "permission \<Rightarrow> bool" where
  "declared p = declared_in all_Permissions p"

lemma declared_iff [go_simps]: "declared p \<longleftrightarrow> p \<in> set all_Permissions"
  by (auto simp: declared_def all_Permissions_def)

lemma declared_range: "declared p \<longleftrightarrow> 1 \<le> p \<and> p \<le> 7"
  by (auto simp: declared_iff all_Permissions_def)

lemma Permission_String_inj_declared:
  "declared p \<Longrightarrow> Permission_String p = Permission_String q \<Longrightarrow> p = q"
  by (auto simp: declared_iff all_Permissions_def Permission_String_def split: if_splits)

subsection \<open>Principals and subjects\<close>

definition kindPerson :: int where "kindPerson = 1"

definition kindBot :: int where "kindBot = 2"

record Principal =
  principal_id :: ID
  principal_kind :: int

definition Person :: "ID \<Rightarrow> Principal" where
  "Person i = \<lparr>principal_id = i, principal_kind = kindPerson\<rparr>"

definition Bot :: "ID \<Rightarrow> Principal" where
  "Bot i = \<lparr>principal_id = i, principal_kind = kindBot\<rparr>"

record Subject =
  subject_space :: ID
  subject_channel :: ID

definition SpaceSubject :: "ID \<Rightarrow> Subject" where
  "SpaceSubject space = \<lparr>subject_space = space, subject_channel = zero_ID\<rparr>"

definition ChannelSubject :: "ID \<Rightarrow> ID \<Rightarrow> Subject" where
  "ChannelSubject space channel = \<lparr>subject_space = space, subject_channel = channel\<rparr>"

definition Subject_Channel :: "Subject \<Rightarrow> ID \<times> bool" where
  "Subject_Channel s = (subject_channel s, \<not> IsZero (subject_channel s))"

lemma principal_id_simps [simp]:
  "principal_id (Person i) = i" "principal_id (Bot i) = i"
  by (simp_all add: Person_def Bot_def)

lemma subject_simps [simp]:
  "subject_space (SpaceSubject sp) = sp" "subject_channel (SpaceSubject sp) = zero_ID"
  "subject_space (ChannelSubject sp ch) = sp" "subject_channel (ChannelSubject sp ch) = ch"
  by (simp_all add: SpaceSubject_def ChannelSubject_def)

subsection \<open>Grant sets\<close>

text \<open>The Go map in a \<^verbatim>\<open>PermissionSet\<close> may be nil, which is \<open>None\<close>.\<close>

record PermissionSet =
  held :: "(permission, unit) gomap option"

definition NewPermissionSet :: "permission list \<Rightarrow> PermissionSet" where
  "NewPermissionSet granted =
     \<lparr>held = Some (fold (\<lambda>p m. if \<not> declared p then m else AList.update p () m) granted [])\<rparr>"

definition has :: "PermissionSet \<Rightarrow> permission \<Rightarrow> bool" where
  "has s p = (case held s of None \<Rightarrow> False | Some m \<Rightarrow> gm_has m p)"

lemma has_NewPermissionSet [go_simps]:
  "has (NewPermissionSet ps) p \<longleftrightarrow> declared p \<and> p \<in> set ps"
proof -
  have "gm_has (fold (\<lambda>p m. if \<not> declared p then m else AList.update p () m) ps m) p \<longleftrightarrow>
      gm_has m p \<or> (declared p \<and> p \<in> set ps)" for m
    by (induction ps arbitrary: m) auto
  then show ?thesis by (simp add: has_def NewPermissionSet_def)
qed

subsection \<open>Allow\<close>

type_synonym grantor = "Principal \<Rightarrow> Subject \<Rightarrow> PermissionSet"

definition Allow :: "grantor option \<Rightarrow> Principal \<Rightarrow> permission \<Rightarrow> Subject \<Rightarrow> bool" where
  "Allow g p perm s =
     (case g of
        None \<Rightarrow> False
      | Some granted \<Rightarrow>
          if IsZero (principal_id p) \<or> IsZero (subject_space s) then False
          else
            let aboutChannel = snd (Subject_Channel s) in
            if perm = ManageSpace then
              (if aboutChannel then False else has (granted p s) ManageSpace)
            else if perm = SeeChannel then
              (if \<not> aboutChannel then False else has (granted p s) SeeChannel)
            else if perm = JoinChannel \<or> perm = SpeakInChannel \<or> perm = MuteMember
                    \<or> perm = MoveMember \<or> perm = ManageChannel then
              (if \<not> aboutChannel then False
               else let heldset = granted p s in
                 if \<not> has heldset SeeChannel then False else has heldset perm)
            else False)"

text \<open>The rule the code implements, said without its case order.\<close>

definition may :: "grantor \<Rightarrow> Principal \<Rightarrow> permission \<Rightarrow> Subject \<Rightarrow> bool" where
  "may granted p perm s \<longleftrightarrow>
     declared perm \<and> \<not> IsZero (principal_id p) \<and> \<not> IsZero (subject_space s) \<and>
     (perm = ManageSpace \<longleftrightarrow> IsZero (subject_channel s)) \<and>
     has (granted p s) perm \<and>
     (perm \<noteq> ManageSpace \<longrightarrow> has (granted p s) SeeChannel)"

lemma Allow_None [simp]: "Allow None p perm s = False"
  by (simp add: Allow_def)

lemma Allow_iff_may: "Allow (Some g) p perm s \<longleftrightarrow> may g p perm s"
  by (auto simp: Allow_def may_def Let_def Subject_Channel_def declared_iff all_Permissions_def)

lemma Allow_SeeChannel_iff:
  "Allow (Some g) p SeeChannel (ChannelSubject sp ch) \<longleftrightarrow>
     \<not> IsZero (principal_id p) \<and> \<not> IsZero sp \<and> \<not> IsZero ch \<and>
     has (g p (ChannelSubject sp ch)) SeeChannel"
  by (auto simp: Allow_iff_may may_def declared_range)

subsection \<open>Stores of grants\<close>

locale grant_table =
  fixes grant :: "ID \<Rightarrow> Subject \<Rightarrow> permission list \<Rightarrow> 's \<Rightarrow> 's"
    and granted_by :: "'s \<Rightarrow> grantor"
    and same_row :: "ID \<Rightarrow> Subject \<Rightarrow> Principal \<Rightarrow> Subject \<Rightarrow> bool"
    and grantable :: "ID \<Rightarrow> Subject \<Rightarrow> permission list \<Rightarrow> bool"
  assumes granted_grant:
    "grantable i sub ps \<Longrightarrow>
       has (granted_by (grant i sub ps st) p s) q \<longleftrightarrow>
         has (granted_by st p s) q \<or> (same_row i sub p s \<and> q \<in> set ps)"
    and same_row_self: "same_row (principal_id p) s p s"
begin

lemma grant_mono: "grantable i sub ps \<Longrightarrow> Allow (Some (granted_by st)) p perm s \<Longrightarrow>
    Allow (Some (granted_by (grant i sub ps st))) p perm s"
  by (auto simp: Allow_iff_may may_def granted_grant)

lemma allow_after_grant:
  assumes "grantable (principal_id p) s ps"
    and "\<not> IsZero (principal_id p)" "\<not> IsZero (subject_space s)" "declared perm"
    and "perm \<in> set ps" "perm = ManageSpace \<longleftrightarrow> IsZero (subject_channel s)"
    and "perm \<noteq> ManageSpace \<Longrightarrow> SeeChannel \<in> set ps"
  shows "Allow (Some (granted_by (grant (principal_id p) s ps st))) p perm s"
  using assms by (auto simp: Allow_iff_may may_def granted_grant same_row_self)

lemma grant_only_there:
  "grantable i sub ps \<Longrightarrow> \<not> same_row i sub p s \<Longrightarrow>
     Allow (Some (granted_by (grant i sub ps st))) p perm s =
     Allow (Some (granted_by st)) p perm s"
  by (auto simp: Allow_iff_may may_def granted_grant)

end

end
