(* ===== verification/Clocks.thy ===== *)
theory Clocks
  imports Go_Prelude
begin

text \<open>
  \<^verbatim>\<open>internal/orchestration/clock.go\<close> and \<^verbatim>\<open>grace.go\<close>: the injected clock and identifier
  source, and the grace period every deadline of the server is an instance of.

  An instant is an \<open>int\<close> counting nanoseconds from the Unix epoch and a \<^verbatim>\<open>time.Duration\<close> is an
  \<open>int\<close> in the range of a signed 64-bit integer.  \<^verbatim>\<open>Time.Add\<close> is exact on instants;
  \<^verbatim>\<open>Time.Sub\<close> returns a duration and saturates at the ends of its range, which \<open>time_sub\<close>
  writes out.  \<^verbatim>\<open>Time.Before\<close> is \<open><\<close>, and \<^verbatim>\<open>Time.Unix\<close> rounds down to whole seconds.
  The code reads its clock through an interface; the definitions take the instant read as an
  argument, so one call of the code is one argument here.
\<close>

type_synonym instant = int

type_synonym duration = int

definition max_duration :: duration where
  "max_duration = 9223372036854775807"

definition min_duration :: duration where
  "min_duration = - 9223372036854775808"

definition time_sub :: "instant \<Rightarrow> instant \<Rightarrow> duration" where
  "time_sub t u = max min_duration (min max_duration (t - u))"

definition time_unix :: "instant \<Rightarrow> int" where
  "time_unix t = t div 1000000000"

definition Second :: duration where
  "Second = 1000000000"

definition Millisecond :: duration where
  "Millisecond = 1000000"

subsection \<open>The clocks and the identifier source of clock.go\<close>

record FakeClock =
  fc_now :: instant

definition NewFakeClock :: "instant \<Rightarrow> FakeClock" where
  "NewFakeClock start = \<lparr>fc_now = start\<rparr>"

definition Now :: "FakeClock \<Rightarrow> instant" where
  "Now c = fc_now c"

text \<open>\<open>None\<close> is the panic on a negative duration.\<close>

definition Advance :: "duration \<Rightarrow> FakeClock \<Rightarrow> FakeClock option" where
  "Advance d c = (if d < 0 then None else Some (c\<lparr>fc_now := fc_now c + d\<rparr>))"

record FixedIDs =
  fx_prefix :: string
  fx_n :: int

definition NewFixedIDs :: "string \<Rightarrow> FixedIDs" where
  "NewFixedIDs p = \<lparr>fx_prefix = p, fx_n = 0\<rparr>"

definition Next :: "FixedIDs \<Rightarrow> string \<times> FixedIDs" where
  "Next g = (let g' = g\<lparr>fx_n := fx_n g + 1\<rparr>
             in (fx_prefix g' @ ''-'' @ itoa (fx_n g'), g'))"

fun next_many :: "nat \<Rightarrow> FixedIDs \<Rightarrow> string list" where
  "next_many 0 g = []"
| "next_many (Suc k) g = (let (s, g') = Next g in s # next_many k g')"

lemma next_many_eq:
  "next_many k g =
     map (\<lambda>i. fx_prefix g @ ''-'' @ itoa (fx_n g + int i)) [1..<Suc k]"
proof (induction k arbitrary: g)
  case (Suc k)
  have "map (\<lambda>i. f (int i + 1)) [1..<Suc k] = map (\<lambda>i. f (int i)) [2..<Suc (Suc k)]"
    for f :: "int \<Rightarrow> string"
  proof -
    have "[2..<Suc (Suc k)] = map Suc [1..<Suc k]"
      by (metis Suc_1 One_nat_def map_Suc_upt)
    then show ?thesis by (simp add: comp_def add.commute)
  qed
  from this [of "\<lambda>i. fx_prefix g @ ''-'' @ itoa (fx_n g + i)"] show ?case
    by (simp add: Suc.IH Next_def Let_def upt_conv_Cons add.assoc numeral_2_eq_2
        del: upt_Suc) (simp add: add.commute)
qed simp

subsection \<open>Grace periods\<close>

record Grace =
  deadline :: instant

definition NewGrace :: "instant \<Rightarrow> duration \<Rightarrow> Grace" where
  "NewGrace now d = \<lparr>deadline = now + d\<rparr>"

definition Expired :: "instant \<Rightarrow> Grace \<Rightarrow> bool" where
  "Expired now g \<longleftrightarrow> \<not> now < deadline g"

definition Remaining :: "instant \<Rightarrow> Grace \<Rightarrow> duration" where
  "Remaining now g = (let left = time_sub (deadline g) now in if left > 0 then left else 0)"

definition Extend :: "instant \<Rightarrow> duration \<Rightarrow> Grace \<Rightarrow> Grace" where
  "Extend now d g = g\<lparr>deadline := now + d\<rparr>"

lemma Expired_NewGrace [simp]: "Expired t (NewGrace now d) \<longleftrightarrow> now + d \<le> t"
  by (auto simp: Expired_def NewGrace_def)

lemma Expired_mono: "Expired t g \<Longrightarrow> t \<le> u \<Longrightarrow> Expired u g"
  by (simp add: Expired_def)

lemma Remaining_nonneg: "0 \<le> Remaining t g"
  by (simp add: Remaining_def Let_def)

lemma Remaining_zero_iff: "Remaining t g = 0 \<longleftrightarrow> Expired t g"
  by (auto simp: Remaining_def Expired_def time_sub_def Let_def min_duration_def max_duration_def
      max_def min_def)

lemma Remaining_NewGrace: "0 \<le> d \<Longrightarrow> d \<le> max_duration \<Longrightarrow> Remaining now (NewGrace now d) = d"
  by (auto simp: Remaining_def NewGrace_def time_sub_def Let_def min_duration_def max_def)

text \<open>
  What the server relies on a clock for is that it never runs backwards.  A step of the clock is
  anything that may happen to it between two reads.
\<close>

locale monotone_clock =
  fixes read :: "'c \<Rightarrow> instant"
    and tick :: "'c \<Rightarrow> 'c \<Rightarrow> bool"
  assumes tick_mono: "tick c c' \<Longrightarrow> read c \<le> read c'"
begin

lemma ticks_mono: "tick\<^sup>*\<^sup>* c c' \<Longrightarrow> read c \<le> read c'"
  by (induction rule: rtranclp_induct) (auto dest: tick_mono)

lemma expired_stays: "Expired (read c) g \<Longrightarrow> tick\<^sup>*\<^sup>* c c' \<Longrightarrow> Expired (read c') g"
  using Expired_mono ticks_mono by blast

lemma remaining_shrinks: "tick\<^sup>*\<^sup>* c c' \<Longrightarrow> Remaining (read c') g \<le> Remaining (read c) g"
  using ticks_mono [of c c']
  by (auto simp: Remaining_def Let_def time_sub_def min_duration_def max_duration_def max_def
      min_def)

end

definition advanced :: "FakeClock \<Rightarrow> FakeClock \<Rightarrow> bool" where
  "advanced c c' \<longleftrightarrow> (\<exists>d. Advance d c = Some c')"

interpretation fake_clock: monotone_clock Now advanced
  by unfold_locales (auto simp: advanced_def Advance_def Now_def split: if_splits)

end
