(* ===== verification/Domain_Model.thy ===== *)
theory Domain_Model
  imports Permissions Clocks
begin

text \<open>
  Channels, rooms, occupancies and the space of \<^verbatim>\<open>internal/orchestration/domain.go\<close>.

  The code passes channels and rooms around as pointers, and a channel is shared between the
  space holding it, a store holding it and whoever changes its always-on flag.  The model keeps
  that sharing: a pointer is an index into the list of cells allocated so far, and a
  \<open>heap\<close> holds the cells.  Operations of the space on pointers read the heap they are given.
  An error return carries no new state, because the code returns before it writes.
\<close>

subsection \<open>The errors of the package\<close>

datatype invariant_fault =
    ChannelNeedsIdentifier
  | ChannelNamesNoSpace
  | ChannelHasNoName ID
  | RoomNamesNoChannel
  | SpaceNeedsIdentifier
  | NoChannel
  | ChannelOfAnotherSpace ID ID ID
  | ChannelTaken ID
  | NothingToBack ID
  | OccupancyNeedsMember
  | NoChannelHeld ID
  | AlreadyOccupies ID ID
  | NoChannelToSet
  | HubNeedsSpace
  | HubNeedsGrantor
  | HubChannelNeedsIdentifier
  | HubHoldsChannel ID
  | ClientNeedsIdentifier
  | ClientAlreadyAttached string
  | ClientNeedsPrincipal
  | RegisterNeedsClock
  | WindowNotPositive duration
  | BreadthNotPositive int
  | SuspensionNamesNoSession
  | SuspensionNeedsMember
  | AlreadySuspended string

datatype orch_error =
    ErrInvariant invariant_fault
  | ErrNotPermitted ID ID
  | ErrNoSuchChannel
  | ErrNoSuchClient string
  | ErrNoSuspension string
  | ErrResumeWindowPassed ID duration
  | ErrResumeNotYours ID ID
  | ErrResumeAhead "64 word" "64 word"

subsection \<open>Channels, rooms and the heap\<close>

record Channel =
  channel_id :: ID
  channel_space :: ID
  channel_name :: string
  channel_alwaysOn :: bool

record Room =
  room_channel :: ID

record heap =
  channel_cells :: "Channel list"
  room_cells :: "Room list"

type_synonym ptr = nat

definition channel_at :: "heap \<Rightarrow> ptr \<Rightarrow> Channel" where
  "channel_at h p = channel_cells h ! p"

definition room_at :: "heap \<Rightarrow> ptr \<Rightarrow> Room" where
  "room_at h p = room_cells h ! p"

definition NewChannel :: "ID \<Rightarrow> ID \<Rightarrow> string \<Rightarrow> bool \<Rightarrow> heap \<Rightarrow> orch_error + (ptr \<times> heap)" where
  "NewChannel i space name alwaysOn h =
     (if IsZero i then Inl (ErrInvariant ChannelNeedsIdentifier)
      else if IsZero space then Inl (ErrInvariant ChannelNamesNoSpace)
      else if name = [] then Inl (ErrInvariant (ChannelHasNoName i))
      else
        let c = \<lparr>channel_id = i, channel_space = space, channel_name = name,
                 channel_alwaysOn = alwaysOn\<rparr>
        in Inr (length (channel_cells h), h\<lparr>channel_cells := channel_cells h @ [c]\<rparr>))"

definition NewRoom :: "ID \<Rightarrow> heap \<Rightarrow> orch_error + (ptr \<times> heap)" where
  "NewRoom channel h =
     (if IsZero channel then Inl (ErrInvariant RoomNamesNoChannel)
      else Inr (length (room_cells h),
                h\<lparr>room_cells := room_cells h @ [\<lparr>room_channel = channel\<rparr>]\<rparr>))"

record Occupancy =
  occ_member :: ID
  occ_channel :: ID

record Space =
  space_id :: ID
  space_channels :: "(ID, ptr) gomap"
  space_rooms :: "(ID, ptr) gomap"
  space_occupancies :: "(ID, Occupancy) gomap"

definition NewSpace :: "ID \<Rightarrow> orch_error + Space" where
  "NewSpace i =
     (if IsZero i then Inl (ErrInvariant SpaceNeedsIdentifier)
      else Inr \<lparr>space_id = i, space_channels = [], space_rooms = [], space_occupancies = []\<rparr>)"

subsection \<open>Operations of a space\<close>

definition AddChannel :: "heap \<Rightarrow> ptr option \<Rightarrow> Space \<Rightarrow> orch_error + Space" where
  "AddChannel h cp s =
     (case cp of
        None \<Rightarrow> Inl (ErrInvariant NoChannel)
      | Some p \<Rightarrow>
          let c = channel_at h p in
          if channel_space c \<noteq> space_id s then
            Inl (ErrInvariant (ChannelOfAnotherSpace (channel_id c) (channel_space c) (space_id s)))
          else if gm_has (space_channels s) (channel_id c) then
            Inl (ErrInvariant (ChannelTaken (channel_id c)))
          else Inr (s\<lparr>space_channels := AList.update (channel_id c) p (space_channels s)\<rparr>))"

definition Space_Channel :: "ID \<Rightarrow> Space \<Rightarrow> ptr option" where
  "Space_Channel i s = map_of (space_channels s) i"

definition Space_Channels :: "Space \<Rightarrow> nat" where
  "Space_Channels s = length (space_channels s)"

definition OpenRoom :: "ID \<Rightarrow> heap \<Rightarrow> Space \<Rightarrow> orch_error + (ptr \<times> heap \<times> Space)" where
  "OpenRoom channel h s =
     (if \<not> gm_has (space_channels s) channel then Inl (ErrInvariant (NothingToBack channel))
      else
        (case map_of (space_rooms s) channel of
           Some r \<Rightarrow> Inr (r, h, s)
         | None \<Rightarrow>
             (case NewRoom channel h of
                Inl err \<Rightarrow> Inl err
              | Inr (r, h') \<Rightarrow>
                  Inr (r, h', s\<lparr>space_rooms := AList.update channel r (space_rooms s)\<rparr>))))"

definition CloseRoom :: "ID \<Rightarrow> Space \<Rightarrow> Space" where
  "CloseRoom channel s = s\<lparr>space_rooms := AList.delete channel (space_rooms s)\<rparr>"

definition Space_Room :: "ID \<Rightarrow> Space \<Rightarrow> ptr option" where
  "Space_Room channel s = map_of (space_rooms s) channel"

definition Enter :: "ID \<Rightarrow> ID \<Rightarrow> Space \<Rightarrow> orch_error + (Occupancy \<times> Space)" where
  "Enter member channel s =
     (if IsZero member then Inl (ErrInvariant OccupancyNeedsMember)
      else if \<not> gm_has (space_channels s) channel then Inl (ErrInvariant (NoChannelHeld channel))
      else
        (case map_of (space_occupancies s) member of
           Some h \<Rightarrow> Inl (ErrInvariant (AlreadyOccupies member (occ_channel h)))
         | None \<Rightarrow>
             let occ = \<lparr>occ_member = member, occ_channel = channel\<rparr>
             in Inr (occ, s\<lparr>space_occupancies := AList.update member occ (space_occupancies s)\<rparr>)))"

definition Leave :: "ID \<Rightarrow> Space \<Rightarrow> Space" where
  "Leave member s = s\<lparr>space_occupancies := AList.delete member (space_occupancies s)\<rparr>"

definition Switch :: "ID \<Rightarrow> ID \<Rightarrow> Space \<Rightarrow> orch_error + (Occupancy \<times> Space)" where
  "Switch member channel s =
     (if IsZero member then Inl (ErrInvariant OccupancyNeedsMember)
      else if \<not> gm_has (space_channels s) channel then Inl (ErrInvariant (NoChannelHeld channel))
      else
        let occ = \<lparr>occ_member = member, occ_channel = channel\<rparr>
        in Inr (occ, s\<lparr>space_occupancies := AList.update member occ (space_occupancies s)\<rparr>))"

definition Space_Occupancy :: "ID \<Rightarrow> Space \<Rightarrow> Occupancy option" where
  "Space_Occupancy member s = map_of (space_occupancies s) member"

definition Occupants :: "ID \<Rightarrow> Space \<Rightarrow> ID list" where
  "Occupants channel s =
     sort_key ID_String
       (map fst (filter (\<lambda>(member, occ). occ_channel occ = channel) (space_occupancies s)))"

subsection \<open>The always-on flag: always\_on.go\<close>

definition SetAlwaysOn ::
    "grantor option \<Rightarrow> Principal \<Rightarrow> ptr option \<Rightarrow> bool \<Rightarrow> heap \<Rightarrow> orch_error + heap" where
  "SetAlwaysOn g actor cp on h =
     (case cp of
        None \<Rightarrow> Inl (ErrInvariant NoChannelToSet)
      | Some p \<Rightarrow>
          let c = channel_at h p in
          if \<not> Allow g actor ManageChannel (ChannelSubject (channel_space c) (channel_id c)) then
            Inl (ErrNotPermitted (principal_id actor) (channel_id c))
          else Inr (h\<lparr>channel_cells := (channel_cells h)[p := c\<lparr>channel_alwaysOn := on\<rparr>]\<rparr>))"

end
