(* ===== verification/Space_Machine.thy ===== *)
theory Space_Machine
  imports Domain_Model
begin

text \<open>
  The space as a state machine over its heap: one rule per operation that changes state, the
  invariant every reachable state satisfies, and what it gives each operation.  Every identifier
  in a call is one the constructors of \<^verbatim>\<open>id.go\<close> built or the zero value, and every pointer is one
  the heap allocated, because the fields of those types are unexported.
\<close>

inductive space_step :: "heap \<times> Space \<Rightarrow> heap \<times> Space \<Rightarrow> bool" where
  new_channel: "go_ID i \<Longrightarrow> go_ID sp \<Longrightarrow> NewChannel i sp name on h = Inr (p, h') \<Longrightarrow>
    space_step (h, s) (h', s)"
| add_channel: "p < length (channel_cells h) \<Longrightarrow> AddChannel h (Some p) s = Inr s' \<Longrightarrow>
    space_step (h, s) (h, s')"
| open_room: "OpenRoom c h s = Inr (r, h', s') \<Longrightarrow> space_step (h, s) (h', s')"
| close_room: "space_step (h, s) (h, CloseRoom c s)"
| enter: "go_ID m \<Longrightarrow> Enter m c s = Inr (occ, s') \<Longrightarrow> space_step (h, s) (h, s')"
| leave: "space_step (h, s) (h, Leave m s)"
| switch: "go_ID m \<Longrightarrow> Switch m c s = Inr (occ, s') \<Longrightarrow> space_step (h, s) (h, s')"
| set_always_on: "p < length (channel_cells h) \<Longrightarrow>
    SetAlwaysOn g actor (Some p) on h = Inr h' \<Longrightarrow> space_step (h, s) (h', s)"

inductive space_reachable :: "heap \<times> Space \<Rightarrow> bool" where
  start: "go_ID i \<Longrightarrow> NewSpace i = Inr s \<Longrightarrow>
    space_reachable (\<lparr>channel_cells = [], room_cells = []\<rparr>, s)"
| step: "space_reachable x \<Longrightarrow> space_step x y \<Longrightarrow> space_reachable y"

inductive_cases space_stepE: "space_step (h, s) (h', s')"

subsection \<open>The invariant\<close>

definition channel_ok :: "Channel \<Rightarrow> bool" where
  "channel_ok c \<longleftrightarrow> valid_ID (channel_id c) \<and> valid_ID (channel_space c) \<and> channel_name c \<noteq> []"

definition heap_inv :: "heap \<Rightarrow> bool" where
  [inv_defs]: "heap_inv h \<longleftrightarrow> (\<forall>p < length (channel_cells h). channel_ok (channel_at h p))"

definition channels_inv :: "heap \<Rightarrow> Space \<Rightarrow> bool" where
  [inv_defs]: "channels_inv h s \<longleftrightarrow> gm_ok (space_channels s) \<and>
     (\<forall>c p. map_of (space_channels s) c = Some p \<longrightarrow>
        p < length (channel_cells h) \<and> channel_id (channel_at h p) = c \<and>
        channel_space (channel_at h p) = space_id s)"

definition rooms_inv :: "heap \<Rightarrow> Space \<Rightarrow> bool" where
  [inv_defs]: "rooms_inv h s \<longleftrightarrow> gm_ok (space_rooms s) \<and>
     (\<forall>c r. map_of (space_rooms s) c = Some r \<longrightarrow>
        r < length (room_cells h) \<and> room_channel (room_at h r) = c \<and>
        gm_has (space_channels s) c)"

definition occupancies_inv :: "Space \<Rightarrow> bool" where
  [inv_defs]: "occupancies_inv s \<longleftrightarrow> gm_ok (space_occupancies s) \<and>
     (\<forall>m occ. map_of (space_occupancies s) m = Some occ \<longrightarrow>
        valid_ID m \<and> occ_member occ = m \<and> gm_has (space_channels s) (occ_channel occ))"

fun space_inv :: "heap \<times> Space \<Rightarrow> bool" where
  "space_inv (h, s) \<longleftrightarrow>
     valid_ID (space_id s) \<and> heap_inv h \<and> channels_inv h s \<and> rooms_inv h s \<and> occupancies_inv s"

lemma NewSpace_inv:
  "go_ID i \<Longrightarrow> NewSpace i = Inr s \<Longrightarrow> space_inv (\<lparr>channel_cells = [], room_cells = []\<rparr>, s)"
  by (auto simp: NewSpace_def inv_defs go_ID_def split: if_splits)

lemma NewChannel_inv:
  assumes "space_inv (h, s)" and "go_ID i" "go_ID sp" and "NewChannel i sp n on h = Inr (p, h')"
  shows "space_inv (h', s)"
proof -
  from assms(4) have h': "h' = h\<lparr>channel_cells := channel_cells h @
      [\<lparr>channel_id = i, channel_space = sp, channel_name = n, channel_alwaysOn = on\<rparr>]\<rparr>"
    and nz: "\<not> IsZero i" "\<not> IsZero sp" "n \<noteq> []"
    by (auto simp: NewChannel_def Let_def split: if_splits)
  have old: "channel_at h' q = channel_at h q" if "q < length (channel_cells h)" for q
    using that by (simp add: h' channel_at_def nth_append)
  have new: "channel_ok (channel_at h' (length (channel_cells h)))"
    using nz assms(2,3) by (simp add: h' channel_at_def channel_ok_def go_ID_valid)
  from assms(1) old new show ?thesis
    by (auto simp: inv_defs h' less_Suc_eq room_at_def less_SucI)
qed

lemma AddChannel_inv:
  assumes "space_inv (h, s)" and "p < length (channel_cells h)" and "AddChannel h (Some p) s = Inr s'"
  shows "space_inv (h, s')"
  using assms by (auto simp: AddChannel_def Let_def inv_defs split: if_splits)

lemma OpenRoom_cases:
  assumes "OpenRoom c h s = Inr (r, h', s')"
  obtains (running) "map_of (space_rooms s) c = Some r" "h' = h" "s' = s"
        "gm_has (space_channels s) c"
  | (opened) "map_of (space_rooms s) c = None" "gm_has (space_channels s) c"
        "r = length (room_cells h)"
        "h' = h\<lparr>room_cells := room_cells h @ [\<lparr>room_channel = c\<rparr>]\<rparr>"
        "s' = s\<lparr>space_rooms := AList.update c r (space_rooms s)\<rparr>"
  using assms that by (auto simp: OpenRoom_def NewRoom_def split: if_splits option.splits)

lemma OpenRoom_inv:
  assumes "space_inv (h, s)" and "OpenRoom c h s = Inr (r, h', s')"
  shows "space_inv (h', s')"
  using assms(2)
proof (cases rule: OpenRoom_cases)
  case opened
  have "channel_at h' = channel_at h" and "channel_cells h' = channel_cells h"
    by (auto simp: opened channel_at_def)
  moreover have "room_at h' q = room_at h q" if "q < length (room_cells h)" for q
    using that by (simp add: opened room_at_def nth_append)
  moreover have "room_channel (room_at h' (length (room_cells h))) = c"
    by (simp add: opened room_at_def)
  ultimately show ?thesis
    using assms(1) opened(2) by (auto simp: inv_defs opened(3,4,5) less_SucI)
qed (use assms(1) in simp)

lemma CloseRoom_inv: "space_inv (h, s) \<Longrightarrow> space_inv (h, CloseRoom c s)"
  by (auto simp: CloseRoom_def inv_defs)

lemma Enter_inv: "space_inv (h, s) \<Longrightarrow> go_ID m \<Longrightarrow> Enter m c s = Inr (occ, s') \<Longrightarrow> space_inv (h, s')"
  by (auto simp: Enter_def Let_def inv_defs go_ID_valid split: if_splits option.splits)

lemma Switch_inv: "space_inv (h, s) \<Longrightarrow> go_ID m \<Longrightarrow> Switch m c s = Inr (occ, s') \<Longrightarrow> space_inv (h, s')"
  by (auto simp: Switch_def Let_def inv_defs go_ID_valid split: if_splits)

lemma Leave_inv: "space_inv (h, s) \<Longrightarrow> space_inv (h, Leave m s)"
  by (auto simp: Leave_def inv_defs)

lemma SetAlwaysOn_heap:
  assumes "SetAlwaysOn g actor (Some p) on h = Inr h'" and "p < length (channel_cells h)"
  shows "room_cells h' = room_cells h" "length (channel_cells h') = length (channel_cells h)"
    and "channel_at h' q = (if q = p then (channel_at h p)\<lparr>channel_alwaysOn := on\<rparr> else channel_at h q)"
  using assms by (auto simp: SetAlwaysOn_def Let_def channel_at_def split: if_splits)

lemma SetAlwaysOn_inv:
  assumes "space_inv (h, s)" and "p < length (channel_cells h)"
    and "SetAlwaysOn g actor (Some p) on h = Inr h'"
  shows "space_inv (h', s)"
  using assms(1) SetAlwaysOn_heap [OF assms(3,2)]
  by (auto simp: inv_defs channel_ok_def room_at_def)

lemmas space_op_invs =
  NewChannel_inv AddChannel_inv OpenRoom_inv CloseRoom_inv Enter_inv Leave_inv Switch_inv
  SetAlwaysOn_inv

lemma space_step_inv: "space_step x y \<Longrightarrow> space_inv x \<Longrightarrow> space_inv y"
proof (induction rule: space_step.induct)
  case (new_channel i sp name on h p h' s)
  then show ?case by (blast intro: NewChannel_inv)
qed (blast intro: space_op_invs)+

lemma space_reachable_space_inv: "space_reachable x \<Longrightarrow> space_inv x"
  by (induction rule: space_reachable.induct) (auto intro: NewSpace_inv space_step_inv simp del: space_inv.simps)

subsection \<open>What the operations do\<close>

lemma set_Occupants:
  assumes "gm_ok (space_occupancies s)"
  shows "set (Occupants c s) = {m. \<exists>occ. Space_Occupancy m s = Some occ \<and> occ_channel occ = c}"
  using assms by (force simp: Occupants_def Space_Occupancy_def gm_mem [symmetric])

lemma distinct_Occupants: "gm_ok (space_occupancies s) \<Longrightarrow> distinct (Occupants c s)"
  unfolding Occupants_def by (simp add: distinct_map_filter)

lemma Occupants_sorted_list_of_set:
  assumes "occupancies_inv s"
  shows "Occupants c s =
    sorted_list_of_set {m. \<exists>occ. Space_Occupancy m s = Some occ \<and> occ_channel occ = c}"
proof -
  have ok: "gm_ok (space_occupancies s)"
    and valid: "\<And>m occ. Space_Occupancy m s = Some occ \<Longrightarrow> valid_ID m"
    using assms by (auto simp: inv_defs Space_Occupancy_def)
  define ms where
    "ms = map fst (filter (\<lambda>(m, occ). occ_channel occ = c) (space_occupancies s))"
  have set_ms: "set ms = {m. \<exists>occ. Space_Occupancy m s = Some occ \<and> occ_channel occ = c}"
    using set_Occupants [OF ok, of c] by (simp add: Occupants_def ms_def)
  have "Occupants c s = sort ms"
    unfolding Occupants_def ms_def [symmetric]
    by (rule sort_ID_String) (use set_ms valid in auto)
  also have "distinct ms"
    using ok by (simp add: ms_def distinct_map_filter)
  then have "sort ms = sorted_list_of_set (set ms)"
    by (rule sort_distinct_is_sorted_list_of_set)
  finally show ?thesis by (simp add: set_ms)
qed

lemma rooms_inv_inj:
  "rooms_inv h s \<Longrightarrow> Space_Room c s = Some r \<Longrightarrow> Space_Room d s = Some r \<Longrightarrow> d = c"
  by (auto simp: inv_defs Space_Room_def)

text \<open>No step changes a channel that is already there, but for its flag.\<close>

lemma space_step_length:
  assumes "space_step (h, s) (h', s')"
  shows "length (channel_cells h) \<le> length (channel_cells h')"
  using assms
proof (rule space_stepE)
  fix c r assume "OpenRoom c h s = Inr (r, h', s')"
  then show ?thesis by (cases rule: OpenRoom_cases) simp_all
qed (auto simp: NewChannel_def SetAlwaysOn_def Let_def split: if_splits)

lemma space_step_channels:
  assumes "space_step (h, s) (h', s')" and "p < length (channel_cells h)"
  shows "channel_at h' p = channel_at h p \<or>
    (\<exists>g actor on. Allow g actor ManageChannel
        (ChannelSubject (channel_space (channel_at h p)) (channel_id (channel_at h p))) \<and>
      channel_at h' p = (channel_at h p)\<lparr>channel_alwaysOn := on\<rparr>)"
  using assms(1)
proof (rule space_stepE)
  fix i sp name on q
  assume "NewChannel i sp name on h = Inr (q, h')"
  then have "channel_at h' p = channel_at h p"
    using assms(2)
    by (auto simp: NewChannel_def Let_def channel_at_def nth_append split: if_splits)
  then show ?thesis by simp
next
  fix c r
  assume "OpenRoom c h s = Inr (r, h', s')"
  then show ?thesis by (cases rule: OpenRoom_cases) (simp_all add: channel_at_def)
next
  fix q g actor on
  assume "q < length (channel_cells h)" and set: "SetAlwaysOn g actor (Some q) on h = Inr h'"
  then have cell: "channel_at h' p =
      (if p = q then (channel_at h q)\<lparr>channel_alwaysOn := on\<rparr> else channel_at h p)"
    using SetAlwaysOn_heap(3) by blast
  from set have "Allow g actor ManageChannel
      (ChannelSubject (channel_space (channel_at h q)) (channel_id (channel_at h q)))"
    by (simp add: SetAlwaysOn_def Let_def split: if_splits)
  with cell show ?thesis by auto
qed auto

subsection \<open>A run to look at\<close>

text \<open>A space with one channel, its room, and a member in it.\<close>

definition ex_channel :: Channel where
  "ex_channel = \<lparr>channel_id = lobby, channel_space = home, channel_name = ''Lobby'',
     channel_alwaysOn = False\<rparr>"

definition ex_heap :: heap where
  "ex_heap = \<lparr>channel_cells = [ex_channel], room_cells = [\<lparr>room_channel = lobby\<rparr>]\<rparr>"

definition ex_space :: Space where
  "ex_space = \<lparr>space_id = home, space_channels = [(lobby, 0)], space_rooms = [(lobby, 0)],
     space_occupancies = [(alice, \<lparr>occ_member = alice, occ_channel = lobby\<rparr>)]\<rparr>"

lemma ex_space_reachable: "space_reachable (ex_heap, ex_space)"
proof -
  let ?h0 = "\<lparr>channel_cells = [], room_cells = []\<rparr>"
  let ?h1 = "\<lparr>channel_cells = [ex_channel], room_cells = []\<rparr>"
  let ?s0 = "\<lparr>space_id = home, space_channels = [], space_rooms = [], space_occupancies = []\<rparr>"
  let ?s1 = "?s0\<lparr>space_channels := [(lobby, 0)]\<rparr>"
  let ?s2 = "?s1\<lparr>space_rooms := [(lobby, 0)]\<rparr>"
  have "space_reachable (?h0, ?s0)"
    by (rule space_reachable.start [of home]) (simp_all add: go_ID_def NewSpace_def)
  then have "space_reachable (?h1, ?s0)"
    by (rule space_reachable.step)
      (rule space_step.new_channel [of lobby home "''Lobby''" False _ 0],
        simp_all add: go_ID_def NewChannel_def ex_channel_def)
  then have "space_reachable (?h1, ?s1)"
    by (rule space_reachable.step)
      (rule space_step.add_channel [of 0], simp_all add: AddChannel_def channel_at_def ex_channel_def)
  then have "space_reachable (ex_heap, ?s2)"
    by (rule space_reachable.step)
      (rule space_step.open_room [of lobby _ _ 0], simp add: OpenRoom_def NewRoom_def ex_heap_def)
  then show ?thesis
    by (rule space_reachable.step)
      (rule space_step.enter [of alice lobby _ "\<lparr>occ_member = alice, occ_channel = lobby\<rparr>"],
        simp_all add: go_ID_def Enter_def ex_space_def Let_def)
qed

subsection \<open>Properties\<close>

text \<open>
  C23: In every reachable state of a space, the listing of a channel is the sorted set of exactly
  the members whose occupancy names it, nobody is listed in two channels, and every occupancy and
  every running room belongs to a channel the space holds.
\<close>

theorem space_one_occupancy:
  assumes "space_reachable (h, s)"
  shows "Occupants c s =
      sorted_list_of_set {m. \<exists>occ. Space_Occupancy m s = Some occ \<and> occ_channel occ = c} \<and>
    (\<forall>m d. m \<in> set (Occupants c s) \<longrightarrow> m \<in> set (Occupants d s) \<longrightarrow> c = d) \<and>
    (\<forall>m occ. Space_Occupancy m s = Some occ \<longrightarrow>
      occ_member occ = m \<and> Space_Channel (occ_channel occ) s \<noteq> None) \<and>
    (\<forall>r. Space_Room c s = Some r \<longrightarrow>
      room_channel (room_at h r) = c \<and> Space_Channel c s \<noteq> None)"
proof -
  have inv: "occupancies_inv s" "rooms_inv h s"
    using space_reachable_space_inv [OF assms] by simp_all
  then have "gm_ok (space_occupancies s)" by (simp add: inv_defs)
  note members = set_Occupants [OF this]
  show ?thesis
  proof (intro conjI)
    show "Occupants c s =
        sorted_list_of_set {m. \<exists>occ. Space_Occupancy m s = Some occ \<and> occ_channel occ = c}"
      by (rule Occupants_sorted_list_of_set [OF inv(1)])
    show "\<forall>m d. m \<in> set (Occupants c s) \<longrightarrow> m \<in> set (Occupants d s) \<longrightarrow> c = d"
      by (auto simp: members)
  qed (use inv in \<open>simp_all add: inv_defs Space_Occupancy_def Space_Channel_def Space_Room_def\<close>)
qed

theorem space_one_occupancy_witness:
  "space_reachable (ex_heap, ex_space) \<and> Occupants lobby ex_space = [alice] \<and>
   Occupants lobby ex_space =
     sorted_list_of_set {m. \<exists>occ. Space_Occupancy m ex_space = Some occ \<and> occ_channel occ = lobby}"
proof -
  have "Occupants lobby ex_space = [alice]"
    by (simp add: Occupants_def ex_space_def)
  then show ?thesis
    using ex_space_reachable space_one_occupancy [OF ex_space_reachable, of lobby] by blast
qed

text \<open>
  A switch is the leave and the enter in one: it fails exactly when entering after leaving
  would fail, with the same error and nothing written, and where it succeeds the occupancies are
  those of leaving and then entering.
\<close>

theorem Switch_is_leave_then_enter:
  "(case Switch m c s of
      Inl err \<Rightarrow> Enter m c (Leave m s) = Inl err
    | Inr (occ, s') \<Rightarrow>
        Space_Occupancy m s' = Some occ \<and> occ_channel occ = c \<and>
        (\<exists>s2. Enter m c (Leave m s) = Inr (occ, s2) \<and>
           (\<forall>k. Space_Occupancy k s2 = Space_Occupancy k s') \<and>
           space_channels s2 = space_channels s' \<and> space_rooms s2 = space_rooms s'))"
  by (auto simp: Switch_def Enter_def Leave_def Space_Occupancy_def Let_def)

text \<open>
  Opening a room twice gives the room already running and changes nothing the second time,
  the room backs the channel it was opened for, and no room backs two channels.
\<close>

theorem OpenRoom_one_room:
  assumes "space_reachable (h, s)" and "OpenRoom c h s = Inr (r, h', s')"
  shows "OpenRoom c h' s' = Inr (r, h', s') \<and> room_channel (room_at h' r) = c \<and>
    (\<forall>d. Space_Room d s' = Some r \<longrightarrow> d = c)"
proof -
  have "space_reachable (h', s')"
    using assms by (blast intro: space_reachable.step space_step.open_room)
  then have inv: "rooms_inv h' s'"
    using space_reachable_space_inv by fastforce
  have room: "Space_Room c s' = Some r" and "gm_has (space_channels s') c"
    using assms(2) by (auto elim!: OpenRoom_cases simp: Space_Room_def)
  then have "OpenRoom c h' s' = Inr (r, h', s')"
    by (simp add: OpenRoom_def Space_Room_def)
  moreover have "room_channel (room_at h' r) = c"
    using inv room by (simp add: rooms_inv_def Space_Room_def)
  ultimately show ?thesis
    using rooms_inv_inj [OF inv room] by blast
qed

theorem OpenRoom_one_room_witness:
  "OpenRoom lobby ex_heap ex_space = Inr (0, ex_heap, ex_space) \<and>
   room_channel (room_at ex_heap 0) = lobby"
proof -
  have op: "OpenRoom lobby ex_heap ex_space = Inr (0, ex_heap, ex_space)"
    by (simp add: OpenRoom_def ex_space_def)
  from OpenRoom_one_room [OF ex_space_reachable op] op show ?thesis by blast
qed

text \<open>
  The always-on flag is changed only on behalf of a principal who, by the grantor asked, may
  see the channel and holds the permission to manage it; and then it is all that changes: every
  other channel and every room is as it was, and the channel keeps its identifier, its space and
  its name.
\<close>

theorem SetAlwaysOn_needs_permission:
  assumes "SetAlwaysOn g actor cp on h = Inr h'" and "\<forall>p. cp = Some p \<longrightarrow> p < length (channel_cells h)"
  shows "\<exists>p granted c sub. cp = Some p \<and> g = Some granted \<and> c = channel_at h p \<and>
     sub = ChannelSubject (channel_space c) (channel_id c) \<and> \<not> IsZero (principal_id actor) \<and>
     has (granted actor sub) SeeChannel \<and> has (granted actor sub) ManageChannel \<and>
     (\<forall>q. channel_at h' q = (if q = p then c\<lparr>channel_alwaysOn := on\<rparr> else channel_at h q)) \<and>
     room_cells h' = room_cells h"
proof -
  obtain p where p: "cp = Some p" using assms(1) by (cases cp) (auto simp: SetAlwaysOn_def)
  let ?c = "channel_at h p"
  let ?sub = "ChannelSubject (channel_space ?c) (channel_id ?c)"
  have allow: "Allow g actor ManageChannel ?sub"
    and h': "h' = h\<lparr>channel_cells := (channel_cells h)[p := ?c\<lparr>channel_alwaysOn := on\<rparr>]\<rparr>"
    using assms(1) by (auto simp: p SetAlwaysOn_def Let_def split: if_splits)
  from allow obtain granted where g: "g = Some granted" by (cases g) auto
  then have "may granted actor ManageChannel ?sub" using allow by (simp add: Allow_iff_may)
  moreover have "p < length (channel_cells h)" using assms(2) p by blast
  then have "\<forall>q. channel_at h' q = (if q = p then ?c\<lparr>channel_alwaysOn := on\<rparr> else channel_at h q)"
    by (simp add: h' channel_at_def nth_list_update)
  moreover have "room_cells h' = room_cells h" by (simp add: h')
  ultimately show ?thesis using p g by (auto simp: may_def)
qed

theorem SetAlwaysOn_needs_permission_witness:
  "\<exists>h'. SetAlwaysOn (Some (\<lambda>_ _. NewPermissionSet [SeeChannel, ManageChannel])) (Person alice) (Some 0) True
       ex_heap = Inr h' \<and> channel_at h' 0 = ex_channel\<lparr>channel_alwaysOn := True\<rparr>"
proof -
  let ?g = "\<lambda>_ _. NewPermissionSet [SeeChannel, ManageChannel]"
  let ?h = "ex_heap\<lparr>channel_cells := [ex_channel\<lparr>channel_alwaysOn := True\<rparr>]\<rparr>"
  have "Allow (Some ?g) (Person alice) ManageChannel (ChannelSubject home lobby)"
    by (simp add: Allow_iff_may may_def has_NewPermissionSet declared_range)
  then have set: "SetAlwaysOn (Some ?g) (Person alice) (Some 0) True ex_heap = Inr ?h"
    by (simp add: SetAlwaysOn_def channel_at_def ex_heap_def ex_channel_def)
  moreover have "\<forall>p. Some 0 = Some p \<longrightarrow> p < length (channel_cells ex_heap)"
    by (simp add: ex_heap_def)
  moreover have "channel_at ex_heap 0 = ex_channel"
    by (simp add: channel_at_def ex_heap_def)
  ultimately show ?thesis
    using SetAlwaysOn_needs_permission [OF set] by auto
qed

text \<open>
  What a channel is never changes.  Through any run of a space, a channel that exists goes on
  existing under its pointer with its identifier, its space and its name; the always-on flag is
  all that can differ.
\<close>

theorem channel_identity_is_permanent:
  assumes "space_step\<^sup>*\<^sup>* (h, s) (h', s')" and "p < length (channel_cells h)"
  shows "p < length (channel_cells h') \<and>
     channel_at h' p = (channel_at h p)\<lparr>channel_alwaysOn := channel_alwaysOn (channel_at h' p)\<rparr>"
proof -
  have "p < length (channel_cells (fst y)) \<and>
      channel_at (fst y) p = (channel_at h p)\<lparr>channel_alwaysOn := channel_alwaysOn (channel_at (fst y) p)\<rparr>"
    if "space_step\<^sup>*\<^sup>* (h, s) y" for y
    using that
  proof (induction rule: rtranclp_induct)
    case base
    then show ?case using assms(2) by simp
  next
    case (step y z)
    obtain h1 s1 h2 s2 where yz: "y = (h1, s1)" "z = (h2, s2)" by (cases y, cases z)
    have len: "p < length (channel_cells h1)" using step.IH by (simp add: yz)
    have "p < length (channel_cells h2)"
      using space_step_length [of h1 s1 h2 s2] step.hyps(2) len by (simp add: yz)
    moreover have "channel_at h2 p = (channel_at h1 p)\<lparr>channel_alwaysOn := channel_alwaysOn (channel_at h2 p)\<rparr>"
      using space_step_channels [OF _ len, of s1 h2 s2] step.hyps(2) by (auto simp: yz)
    then have "channel_at h2 p = (channel_at h p)\<lparr>channel_alwaysOn := channel_alwaysOn (channel_at h2 p)\<rparr>"
      using step.IH unfolding yz
      by (metis Channel.surjective Channel.update_convs(4) fst_conv Channel.select_convs(4))
    ultimately show ?case by (simp add: yz)
  qed
  from this [OF assms(1)] show ?thesis by simp
qed

theorem channel_identity_is_permanent_witness:
  "channel_at ex_heap 0 = (channel_at ex_heap 0)\<lparr>channel_alwaysOn := False\<rparr>"
proof -
  have "space_step\<^sup>*\<^sup>* (ex_heap, ex_space) (ex_heap, Leave alice ex_space)"
    by (rule r_into_rtranclp) (rule space_step.leave)
  moreover have "0 < length (channel_cells ex_heap)" by (simp add: ex_heap_def)
  ultimately have "channel_at ex_heap 0 =
      (channel_at ex_heap 0)\<lparr>channel_alwaysOn := channel_alwaysOn (channel_at ex_heap 0)\<rparr>"
    using channel_identity_is_permanent by blast
  then show ?thesis by (simp add: channel_at_def ex_heap_def ex_channel_def)
qed

end
