(* ===== verification/Presence_Projection.thy ===== *)
theory Presence_Projection
  imports Domain_Model
begin

text \<open>
  The occupancy projection of \<^verbatim>\<open>internal/orchestration/presence.go\<close>: one register per member
  (the highest sequence number wins), the presence it publishes, and the count per channel the
  code maintains incrementally.

  The abstract specification is one register per member, \<open>regs\<close>.  The refinement lemma says
  \<open>Apply\<close> updates that register and nothing else; the invariant says the incremental counts are
  the cardinalities of the channels; and the convergence theorems follow, since the value of a
  register after any list of reports depends only on the set of reports in it.
\<close>

subsection \<open>Reports, presences and the projection\<close>

definition PresenceCoalesceInterval :: duration where
  "PresenceCoalesceInterval = 500 * Millisecond"

record Presence =
  pres_channel :: ID
  pres_member :: ID
  pres_since :: int
  pres_muted :: bool

definition zero_Presence :: Presence where
  "zero_Presence =
     \<lparr>pres_channel = zero_ID, pres_member = zero_ID, pres_since = 0, pres_muted = False\<rparr>"

record PresenceReport =
  rep_member :: ID
  rep_seq :: "64 word"
  rep_channel :: ID
  rep_since :: instant
  rep_muted :: bool

record PresenceChange =
  chg_member :: ID
  chg_left :: ID
  chg_joined :: ID
  chg_now :: Presence

definition Moved :: "PresenceChange \<Rightarrow> bool" where
  "Moved c \<longleftrightarrow> chg_left c \<noteq> chg_joined c"

record PresenceProjection =
  pp_seq :: "(ID, 64 word) gomap"
  pp_present :: "(ID, Presence) gomap"
  pp_counts :: "(ID, int) gomap"

definition NewPresenceProjection :: PresenceProjection where
  "NewPresenceProjection = \<lparr>pp_seq = [], pp_present = [], pp_counts = []\<rparr>"

definition Count :: "ID \<Rightarrow> PresenceProjection \<Rightarrow> int" where
  "Count channel p = (case map_of (pp_counts p) channel of None \<Rightarrow> 0 | Some n \<Rightarrow> n)"

definition Where :: "ID \<Rightarrow> PresenceProjection \<Rightarrow> Presence option" where
  "Where member p = map_of (pp_present p) member"

definition decrement :: "ID \<Rightarrow> PresenceProjection \<Rightarrow> PresenceProjection" where
  "decrement channel p =
     (if Count channel p \<le> 1 then p\<lparr>pp_counts := AList.delete channel (pp_counts p)\<rparr>
      else p\<lparr>pp_counts := AList.update channel (Count channel p - 1) (pp_counts p)\<rparr>)"

text \<open>
  \<open>Apply\<close> returns the change, or \<open>None\<close> where the code returns the zero change and false.
\<close>

definition Apply :: "PresenceReport \<Rightarrow> PresenceProjection \<Rightarrow> PresenceChange option \<times> PresenceProjection"
where
  "Apply r p =
     (if IsZero (rep_member r) \<or> rep_seq r = 0 then (None, p)
      else if (case map_of (pp_seq p) (rep_member r) of
                 None \<Rightarrow> False | Some prev \<Rightarrow> rep_seq r \<le> prev) then (None, p)
      else
        let p1 = p\<lparr>pp_seq := AList.update (rep_member r) (rep_seq r) (pp_seq p)\<rparr>;
            was = map_of (pp_present p1) (rep_member r);
            left = (case was of None \<Rightarrow> zero_ID | Some w \<Rightarrow> pres_channel w)
        in
        if IsZero (rep_channel r) then
          (case was of
             None \<Rightarrow> (None, p1)
           | Some w \<Rightarrow>
               (Some \<lparr>chg_member = rep_member r, chg_left = left, chg_joined = zero_ID,
                      chg_now = zero_Presence\<rparr>,
                decrement (pres_channel w)
                  (p1\<lparr>pp_present := AList.delete (rep_member r) (pp_present p1)\<rparr>)))
        else
          let now = \<lparr>pres_channel = rep_channel r, pres_member = rep_member r,
                     pres_since = time_unix (rep_since r), pres_muted = rep_muted r\<rparr>
          in
          if was = Some now then (None, p1)
          else
            let p2 = (case was of
                        Some w \<Rightarrow>
                          if pres_channel w \<noteq> rep_channel r then decrement (pres_channel w) p1 else p1
                      | None \<Rightarrow> p1);
                p3 = (if (case was of None \<Rightarrow> True | Some w \<Rightarrow> pres_channel w \<noteq> rep_channel r)
                      then p2\<lparr>pp_counts :=
                             AList.update (rep_channel r) (Count (rep_channel r) p2 + 1) (pp_counts p2)\<rparr>
                      else p2)
            in (Some \<lparr>chg_member = rep_member r, chg_left = left, chg_joined = rep_channel r,
                      chg_now = now\<rparr>,
                p3\<lparr>pp_present := AList.update (rep_member r) now (pp_present p3)\<rparr>))"

definition presence_key :: "Presence \<Rightarrow> int \<times> string" where
  "presence_key pr = (pres_since pr, ID_String (pres_member pr))"

definition Presence_Occupants :: "ID \<Rightarrow> PresenceProjection \<Rightarrow> Presence list" where
  "Presence_Occupants channel p =
     sort_key presence_key
       (filter (\<lambda>pr. pres_channel pr = channel) (map snd (pp_present p)))"

definition Presence_String :: "Presence \<Rightarrow> string" where
  "Presence_String pr =
     ID_String (pres_member pr) @ '' in '' @ ID_String (pres_channel pr) @ '' since '' @ itoa (pres_since pr) @
     '' muted='' @ (if pres_muted pr then ''true'' else ''false'')"

definition apply_all :: "PresenceReport list \<Rightarrow> PresenceProjection \<Rightarrow> PresenceProjection" where
  "apply_all rs p = fold (\<lambda>r p. snd (Apply r p)) rs p"

subsection \<open>The abstract registers\<close>

definition report_ok :: "PresenceReport \<Rightarrow> bool" where
  "report_ok r \<longleftrightarrow> \<not> IsZero (rep_member r) \<and> rep_seq r \<noteq> 0"

definition published :: "PresenceReport \<Rightarrow> Presence option" where
  "published r =
     (if IsZero (rep_channel r) then None
      else Some \<lparr>pres_channel = rep_channel r, pres_member = rep_member r,
                 pres_since = time_unix (rep_since r), pres_muted = rep_muted r\<rparr>)"

type_synonym registers = "ID \<Rightarrow> (64 word \<times> Presence option) option"

definition regs :: "PresenceProjection \<Rightarrow> registers" where
  "regs p m = (case map_of (pp_seq p) m of None \<Rightarrow> None | Some q \<Rightarrow> Some (q, map_of (pp_present p) m))"

definition regs_apply :: "PresenceReport \<Rightarrow> registers \<Rightarrow> registers" where
  "regs_apply r A =
     (if \<not> report_ok r \<or> (\<exists>q st. A (rep_member r) = Some (q, st) \<and> rep_seq r \<le> q) then A
      else A(rep_member r \<mapsto> (rep_seq r, published r)))"

subsection \<open>The invariant\<close>

definition members_in :: "ID \<Rightarrow> PresenceProjection \<Rightarrow> ID set" where
  "members_in c p = {m. \<exists>w. Where m p = Some w \<and> pres_channel w = c}"

definition proj_inv :: "PresenceProjection \<Rightarrow> bool" where
  "proj_inv p \<longleftrightarrow>
     gm_ok (pp_seq p) \<and> gm_ok (pp_present p) \<and> gm_ok (pp_counts p) \<and>
     (\<forall>m w. Where m p = Some w \<longrightarrow>
        pres_member w = m \<and> \<not> IsZero (pres_channel w) \<and> gm_has (pp_seq p) m) \<and>
     (\<forall>c. map_of (pp_counts p) c =
        (if members_in c p = {} then None else Some (int (card (members_in c p)))))"

lemma finite_members_in [simp]: "finite (members_in c p)"
proof -
  have "members_in c p \<subseteq> dom (map_of (pp_present p))"
    by (auto simp: members_in_def Where_def)
  then show ?thesis by (rule finite_subset) (rule finite_dom_map_of)
qed

lemma proj_inv_Count: "proj_inv p \<Longrightarrow> Count c p = int (card (members_in c p))"
  by (auto simp: proj_inv_def Count_def)

lemma proj_inv_new: "proj_inv NewPresenceProjection"
  by (simp add: proj_inv_def NewPresenceProjection_def Where_def members_in_def)

lemma decrement_fields [simp]:
  "pp_seq (decrement c p) = pp_seq p" "pp_present (decrement c p) = pp_present p"
  by (simp_all add: decrement_def)

lemma Where_decrement [simp]: "Where m (decrement c p) = Where m p"
  by (simp add: Where_def)

lemma members_in_decrement [simp]: "members_in d (decrement c p) = members_in d p"
  by (simp add: members_in_def)

lemma map_of_counts_decrement:
  "map_of (pp_counts (decrement c p)) d =
     (if d \<noteq> c then map_of (pp_counts p) d
      else if Count c p \<le> 1 then None else Some (Count c p - 1))"
  by (simp add: decrement_def)

lemma gm_ok_counts_decrement [simp]: "gm_ok (pp_counts p) \<Longrightarrow> gm_ok (pp_counts (decrement c p))"
  by (simp add: decrement_def)

text \<open>
  The three ways a report changes the presences: a member leaves, moves, or changes in place.
  Each comes down to how many members a channel has before and after.
\<close>

lemma card_members_remove:
  "m \<in> members_in c p \<Longrightarrow> card (members_in c p - {m}) = card (members_in c p) - 1"
  by simp

lemma members_in_nonempty_card: "m \<in> members_in c p \<Longrightarrow> 0 < card (members_in c p)"
  by (auto simp: card_gt_0_iff)

definition bumped :: "PresenceReport \<Rightarrow> PresenceProjection \<Rightarrow> PresenceProjection" where
  "bumped r p = p\<lparr>pp_seq := AList.update (rep_member r) (rep_seq r) (pp_seq p)\<rparr>"

definition set_present :: "ID \<Rightarrow> Presence \<Rightarrow> PresenceProjection \<Rightarrow> PresenceProjection" where
  "set_present m w p = p\<lparr>pp_present := AList.update m w (pp_present p)\<rparr>"

definition clear_present :: "ID \<Rightarrow> PresenceProjection \<Rightarrow> PresenceProjection" where
  "clear_present m p = p\<lparr>pp_present := AList.delete m (pp_present p)\<rparr>"

definition increment :: "ID \<Rightarrow> PresenceProjection \<Rightarrow> PresenceProjection" where
  "increment c p = p\<lparr>pp_counts := AList.update c (Count c p + 1) (pp_counts p)\<rparr>"

definition stale :: "PresenceReport \<Rightarrow> PresenceProjection \<Rightarrow> bool" where
  "stale r p \<longleftrightarrow> \<not> report_ok r \<or> (\<exists>q. map_of (pp_seq p) (rep_member r) = Some q \<and> rep_seq r \<le> q)"

lemma Apply_stale: "stale r p \<Longrightarrow> Apply r p = (None, p)"
  by (auto simp: Apply_def stale_def report_ok_def split: option.splits)

lemma Apply_fresh:
  "\<not> stale r p \<Longrightarrow> Apply r p =
     (case (Where (rep_member r) p, published r) of
        (None, None) \<Rightarrow> (None, bumped r p)
      | (Some w, None) \<Rightarrow>
          (Some \<lparr>chg_member = rep_member r, chg_left = pres_channel w, chg_joined = zero_ID,
                 chg_now = zero_Presence\<rparr>,
           decrement (pres_channel w) (clear_present (rep_member r) (bumped r p)))
      | (None, Some now) \<Rightarrow>
          (Some \<lparr>chg_member = rep_member r, chg_left = zero_ID, chg_joined = rep_channel r,
                 chg_now = now\<rparr>,
           set_present (rep_member r) now (increment (rep_channel r) (bumped r p)))
      | (Some w, Some now) \<Rightarrow>
          if w = now then (None, bumped r p)
          else if pres_channel w = rep_channel r then
            (Some \<lparr>chg_member = rep_member r, chg_left = pres_channel w, chg_joined = rep_channel r,
                   chg_now = now\<rparr>,
             set_present (rep_member r) now (bumped r p))
          else
            (Some \<lparr>chg_member = rep_member r, chg_left = pres_channel w, chg_joined = rep_channel r,
                   chg_now = now\<rparr>,
             set_present (rep_member r) now
               (increment (rep_channel r) (decrement (pres_channel w) (bumped r p)))))"
  by (auto simp: Apply_def stale_def report_ok_def published_def increment_def Where_def Let_def
      bumped_def set_present_def clear_present_def split: option.splits)

lemma update_fields [simp]:
  "pp_seq (bumped r p) = AList.update (rep_member r) (rep_seq r) (pp_seq p)"
  "pp_seq (set_present m w p) = pp_seq p" "pp_seq (clear_present m p) = pp_seq p"
  "pp_present (bumped r p) = pp_present p"
  "pp_present (set_present m w p) = AList.update m w (pp_present p)"
  "pp_present (clear_present m p) = AList.delete m (pp_present p)"
  "pp_counts (bumped r p) = pp_counts p" "pp_counts (set_present m w p) = pp_counts p"
  "pp_counts (clear_present m p) = pp_counts p"
  by (simp_all add: bumped_def set_present_def clear_present_def)

lemma Where_simps [simp]:
  "Where m (set_present k w p) = (if m = k then Some w else Where m p)"
  "Where m (clear_present k p) = (if m = k then None else Where m p)"
  "Where m (bumped r p) = Where m p"
  by (simp_all add: Where_def)

lemma Count_simps [simp]:
  "Count c (bumped r p) = Count c p" "Count c (clear_present m p) = Count c p"
  "Count c (set_present m w p) = Count c p"
  by (simp_all add: Count_def)

lemma members_in_simps [simp]:
  "members_in c (bumped r p) = members_in c p"
  "members_in c (clear_present m p) = members_in c p - {m}"
  "members_in c (set_present m w p) =
     (if pres_channel w = c then insert m (members_in c p) else members_in c p - {m})"
  by (auto simp: members_in_def)

text \<open>The same as an elimination rule, one case per outcome.\<close>

lemma Apply_cases [case_names stale silent_absent silent_same left joined changed moved]:
  assumes "stale r p \<Longrightarrow> Apply r p = (None, p) \<Longrightarrow> P"
    and "\<not> stale r p \<Longrightarrow> Where (rep_member r) p = None \<Longrightarrow> published r = None \<Longrightarrow>
      Apply r p = (None, bumped r p) \<Longrightarrow> P"
    and "\<And>w. \<not> stale r p \<Longrightarrow> Where (rep_member r) p = Some w \<Longrightarrow> published r = Some w \<Longrightarrow>
      Apply r p = (None, bumped r p) \<Longrightarrow> P"
    and "\<And>w. \<not> stale r p \<Longrightarrow> Where (rep_member r) p = Some w \<Longrightarrow> published r = None \<Longrightarrow>
      Apply r p = (Some \<lparr>chg_member = rep_member r, chg_left = pres_channel w, chg_joined = zero_ID,
          chg_now = zero_Presence\<rparr>,
        decrement (pres_channel w) (clear_present (rep_member r) (bumped r p))) \<Longrightarrow> P"
    and "\<And>now. \<not> stale r p \<Longrightarrow> Where (rep_member r) p = None \<Longrightarrow> published r = Some now \<Longrightarrow>
      Apply r p = (Some \<lparr>chg_member = rep_member r, chg_left = zero_ID, chg_joined = rep_channel r,
          chg_now = now\<rparr>,
        set_present (rep_member r) now (increment (rep_channel r) (bumped r p))) \<Longrightarrow> P"
    and "\<And>w now. \<not> stale r p \<Longrightarrow> Where (rep_member r) p = Some w \<Longrightarrow> published r = Some now \<Longrightarrow>
      w \<noteq> now \<Longrightarrow> pres_channel w = rep_channel r \<Longrightarrow>
      Apply r p = (Some \<lparr>chg_member = rep_member r, chg_left = pres_channel w,
          chg_joined = rep_channel r, chg_now = now\<rparr>,
        set_present (rep_member r) now (bumped r p)) \<Longrightarrow> P"
    and "\<And>w now. \<not> stale r p \<Longrightarrow> Where (rep_member r) p = Some w \<Longrightarrow> published r = Some now \<Longrightarrow>
      pres_channel w \<noteq> rep_channel r \<Longrightarrow>
      Apply r p = (Some \<lparr>chg_member = rep_member r, chg_left = pres_channel w,
          chg_joined = rep_channel r, chg_now = now\<rparr>,
        set_present (rep_member r) now
          (increment (rep_channel r) (decrement (pres_channel w) (bumped r p)))) \<Longrightarrow> P"
  shows P
proof (cases "stale r p")
  case True
  then show ?thesis using assms(1) Apply_stale by blast
next
  case False
  note eq = Apply_fresh [OF this]
  show ?thesis
  proof (cases "Where (rep_member r) p"; cases "published r")
    fix w now
    assume c: "Where (rep_member r) p = Some w" "published r = Some now"
    then have "pres_channel now = rep_channel r"
      by (auto simp: published_def split: if_splits)
    with c show ?thesis
      using False eq assms(3,6,7) by (cases "w = now"; cases "pres_channel w = rep_channel r") auto
  qed (use False eq assms(2,4,5) in auto)
qed

lemma publishedD:
  "published r = Some now \<Longrightarrow>
     pres_channel now = rep_channel r \<and> pres_member now = rep_member r \<and> \<not> IsZero (rep_channel r)"
  by (auto simp: published_def split: if_splits)

lemma increment_fields [simp]:
  "pp_seq (increment c p) = pp_seq p" "pp_present (increment c p) = pp_present p"
  "Where m (increment c p) = Where m p" "members_in d (increment c p) = members_in d p"
  by (simp_all add: increment_def Where_def members_in_def)

lemma map_of_counts_increment:
  "map_of (pp_counts (increment c p)) d =
     (if d = c then Some (Count c p + 1) else map_of (pp_counts p) d)"
  by (simp add: increment_def)

lemma gm_ok_counts_increment [simp]: "gm_ok (pp_counts p) \<Longrightarrow> gm_ok (pp_counts (increment c p))"
  by (simp add: increment_def)

subsection \<open>Refinement: Apply updates one register\<close>

lemma Apply_regs:
  assumes "proj_inv p"
  shows "regs (snd (Apply r p)) = regs_apply r (regs p)"
proof (cases "stale r p")
  case True
  then have "regs_apply r (regs p) = regs p"
    by (auto simp: regs_apply_def stale_def regs_def)
  with True show ?thesis by (simp add: Apply_stale)
next
  case False
  then have "regs_apply r (regs p) = (regs p)(rep_member r \<mapsto> (rep_seq r, published r))"
    by (auto simp: regs_apply_def stale_def regs_def split: option.splits)
  moreover have "regs (snd (Apply r p)) m = ((regs p)(rep_member r \<mapsto> (rep_seq r, published r))) m" for m
    by (cases rule: Apply_cases [of r p]) (use False in \<open>auto simp: regs_def Where_def split: option.splits\<close>)
  ultimately show ?thesis by (simp add: fun_eq_iff)
qed

subsection \<open>The invariant is kept\<close>

definition count_spec :: "ID set \<Rightarrow> int option" where
  "count_spec A = (if A = {} then None else Some (int (card A)))"

lemma count_spec_remove:
  assumes "finite A" and "m \<in> A"
  shows "count_spec (A - {m}) = (if int (card A) \<le> 1 then None else Some (int (card A) - 1))"
proof -
  have n: "0 < card A" and "card (A - {m}) = card A - 1"
    using assms by (auto simp: card_gt_0_iff)
  moreover have "A - {m} = {} \<longleftrightarrow> card (A - {m}) = 0"
    using assms(1) by simp
  ultimately show ?thesis by (auto simp: count_spec_def)
qed

lemma count_spec_insert: "finite A \<Longrightarrow> m \<notin> A \<Longrightarrow> count_spec (insert m A) = Some (int (card A) + 1)"
  by (simp add: count_spec_def)

lemma proj_inv_alt:
  "proj_inv p \<longleftrightarrow>
     gm_ok (pp_seq p) \<and> gm_ok (pp_present p) \<and> gm_ok (pp_counts p) \<and>
     (\<forall>m w. Where m p = Some w \<longrightarrow>
        pres_member w = m \<and> \<not> IsZero (pres_channel w) \<and> gm_has (pp_seq p) m) \<and>
     (\<forall>c. map_of (pp_counts p) c = count_spec (members_in c p))"
  by (simp add: proj_inv_def count_spec_def)

lemma members_in_absent: "Where m p = None \<Longrightarrow> m \<notin> members_in c p"
  by (simp add: members_in_def)

lemma members_in_present: "Where m p = Some w \<Longrightarrow> m \<in> members_in c p \<longleftrightarrow> pres_channel w = c"
  by (simp add: members_in_def)

lemma Apply_proj_inv:
  assumes inv: "proj_inv p"
  shows "proj_inv (snd (Apply r p))"
proof -
  note cnt = proj_inv_Count [OF inv]
  have counts: "map_of (pp_counts p) c = count_spec (members_in c p)" for c
    using inv by (simp add: proj_inv_alt)
  have ok: "gm_ok (pp_seq p)" "gm_ok (pp_present p)" "gm_ok (pp_counts p)"
    and ws: "\<And>m w. Where m p = Some w \<Longrightarrow>
      pres_member w = m \<and> \<not> IsZero (pres_channel w) \<and> gm_has (pp_seq p) m"
    using inv by (auto simp: proj_inv_def)
  show ?thesis
  proof (cases rule: Apply_cases [of r p])
    case stale
    then show ?thesis using inv by simp
  next
    case silent_absent
    then show ?thesis using ok ws counts by (auto simp: proj_inv_alt)
  next
    case (silent_same w)
    then show ?thesis using ok ws counts by (auto simp: proj_inv_alt)
  next
    case (left w)
    have "map_of (pp_counts (snd (Apply r p))) c = count_spec (members_in c (snd (Apply r p)))" for c
    proof (cases "c = pres_channel w")
      case True
      then have "rep_member r \<in> members_in c p" using left(2) by (simp add: members_in_present)
      then show ?thesis
        using True left(4) cnt
        by (simp add: map_of_counts_decrement count_spec_remove)
    next
      case False
      then have "rep_member r \<notin> members_in c p" using left(2) by (simp add: members_in_present)
      then show ?thesis
        using False left(4) counts by (simp add: map_of_counts_decrement)
    qed
    then show ?thesis using left(4) ok ws by (auto simp: proj_inv_alt split: if_splits)
  next
    case (joined now)
    note now = publishedD [OF joined(3)]
    have "map_of (pp_counts (snd (Apply r p))) c = count_spec (members_in c (snd (Apply r p)))" for c
      using joined(4) now cnt counts members_in_absent [OF joined(2)]
      by (simp add: map_of_counts_increment count_spec_insert)
    then show ?thesis using joined(4) now ok ws by (auto simp: proj_inv_alt split: if_splits)
  next
    case (changed w now)
    note now = publishedD [OF changed(3)]
    have "map_of (pp_counts (snd (Apply r p))) c = count_spec (members_in c (snd (Apply r p)))" for c
      using changed(2,5,6) now counts members_in_present [OF changed(2), of c]
      by (simp add: insert_absorb)
    then show ?thesis using changed(6) now ok ws by (auto simp: proj_inv_alt split: if_splits)
  next
    case (moved w now)
    note now = publishedD [OF moved(3)]
    have "map_of (pp_counts (snd (Apply r p))) c = count_spec (members_in c (snd (Apply r p)))" for c
    proof -
      consider "c = pres_channel w" | "c = rep_channel r" | "c \<noteq> pres_channel w" "c \<noteq> rep_channel r"
        by blast
      then show ?thesis
      proof cases
        case 1
        then have "rep_member r \<in> members_in c p" using moved(2) by (simp add: members_in_present)
        with 1 show ?thesis using moved(4,5) now cnt
          by (simp add: map_of_counts_increment map_of_counts_decrement
              count_spec_remove)
      next
        case 2
        then have "rep_member r \<notin> members_in c p"
          using moved(2,4) by (simp add: members_in_present)
        moreover have "Count c (decrement (pres_channel w) (bumped r p)) = Count c p"
          using 2 moved(4) by (simp add: Count_def map_of_counts_decrement)
        ultimately show ?thesis using 2 moved(5) now cnt
          by (simp add: map_of_counts_increment count_spec_insert)
      next
        case 3
        then show ?thesis using moved(2,5) now counts
          by (simp add: map_of_counts_increment map_of_counts_decrement
              members_in_present)
      qed
    qed
    then show ?thesis using moved(5) now ok ws by (auto simp: proj_inv_alt split: if_splits)
  qed
qed

subsection \<open>Folding a list of reports\<close>

lemma apply_all_Nil [simp]: "apply_all [] p = p"
  by (simp add: apply_all_def)

lemma apply_all_snoc [simp]: "apply_all (rs @ [r]) p = snd (Apply r (apply_all rs p))"
  by (simp add: apply_all_def)

lemma apply_all_inv: "proj_inv p \<Longrightarrow> proj_inv (apply_all rs p)"
  by (induction rs rule: rev_induct) (simp_all add: Apply_proj_inv)

lemma apply_all_regs: "proj_inv p \<Longrightarrow> regs (apply_all rs p) = fold regs_apply rs (regs p)"
  by (induction rs rule: rev_induct) (simp_all add: Apply_regs apply_all_inv)

lemma regs_new: "regs NewPresenceProjection = Map.empty"
  by (simp add: regs_def NewPresenceProjection_def fun_eq_iff)

lemma Where_regs: "proj_inv p \<Longrightarrow> Where m p = (case regs p m of None \<Rightarrow> None | Some (q, st) \<Rightarrow> st)"
  by (cases "Where m p") (auto simp: regs_def Where_def proj_inv_def split: option.splits)

text \<open>The report of a member that no other report of that member is ahead of.\<close>

definition winner :: "PresenceReport set \<Rightarrow> ID \<Rightarrow> 64 word \<Rightarrow> Presence option \<Rightarrow> bool" where
  "winner R m q st \<longleftrightarrow>
     (\<exists>r \<in> R. report_ok r \<and> rep_member r = m \<and> rep_seq r = q \<and> published r = st) \<and>
     (\<forall>r \<in> R. report_ok r \<and> rep_member r = m \<longrightarrow> rep_seq r \<le> q)"

lemma regs_apply_skip: "\<not> (report_ok r \<and> rep_member r = m) \<Longrightarrow> regs_apply r A m = A m"
  by (auto simp: regs_apply_def)

lemma regs_apply_old: "A (rep_member r) = Some (q, st) \<Longrightarrow> rep_seq r \<le> q \<Longrightarrow> regs_apply r A = A"
  by (auto simp: regs_apply_def)

lemma regs_apply_new:
  "report_ok r \<Longrightarrow> (\<And>q st. A (rep_member r) = Some (q, st) \<Longrightarrow> q < rep_seq r) \<Longrightarrow>
     regs_apply r A (rep_member r) = Some (rep_seq r, published r)"
  by (auto simp: regs_apply_def leD)

lemma winnerI:
  "r \<in> R \<Longrightarrow> report_ok r \<Longrightarrow>
     (\<And>r'. r' \<in> R \<Longrightarrow> report_ok r' \<Longrightarrow> rep_member r' = rep_member r \<Longrightarrow> rep_seq r' \<le> rep_seq r) \<Longrightarrow>
     winner R (rep_member r) (rep_seq r) (published r)"
  by (auto simp: winner_def)

lemma winner_insert:
  "winner R m q st \<Longrightarrow> (report_ok r \<and> rep_member r = m \<Longrightarrow> rep_seq r \<le> q) \<Longrightarrow> winner (insert r R) m q st"
  by (auto simp: winner_def)

lemma fold_regs_winner:
  "(case fold regs_apply rs Map.empty m of
      None \<Rightarrow> \<forall>r \<in> set rs. report_ok r \<longrightarrow> rep_member r \<noteq> m
    | Some (q, st) \<Rightarrow> winner (set rs) m q st)"
proof (induction rs rule: rev_induct)
  case (snoc r rs)
  define A where "A = fold regs_apply rs Map.empty"
  have step: "fold regs_apply (rs @ [r]) Map.empty = regs_apply r A"
    by (simp add: A_def)
  have IH: "case A m of None \<Rightarrow> \<forall>r \<in> set rs. report_ok r \<longrightarrow> rep_member r \<noteq> m
      | Some (q, st) \<Rightarrow> winner (set rs) m q st"
    using snoc by (simp add: A_def)
  show ?case
  proof (cases "report_ok r \<and> rep_member r = m")
    case False
    have same: "fold regs_apply (rs @ [r]) Map.empty m = A m"
      unfolding step by (rule regs_apply_skip [OF False])
    show ?thesis
    proof (cases "A m")
      case None
      with IH same False show ?thesis by auto
    next
      case (Some qs)
      then obtain q st where "A m = Some (q, st)" by (cases qs) auto
      moreover from this IH have "winner (set rs) m q st" by simp
      ultimately show ?thesis
        using same False winner_insert [of "set rs" m q st r] by auto
    qed
  next
    case True
    show ?thesis
    proof (cases "A m")
      case None
      then have "regs_apply r A m = Some (rep_seq r, published r)"
        using True regs_apply_new [of r A] by simp
      moreover have "winner (insert r (set rs)) (rep_member r) (rep_seq r) (published r)"
        by (rule winnerI) (use True None IH in auto)
      ultimately show ?thesis unfolding step using True by simp
    next
      case (Some qs)
      then obtain q st where A: "A m = Some (q, st)" by (cases qs) auto
      with IH have w: "winner (set rs) m q st" by simp
      show ?thesis
      proof (cases "rep_seq r \<le> q")
        case le: True
        then have "regs_apply r A m = Some (q, st)"
          using True A regs_apply_old [of A r q st] by simp
        then show ?thesis unfolding step using winner_insert [OF w] le by simp
      next
        case False
        then have "regs_apply r A m = Some (rep_seq r, published r)"
          using True A regs_apply_new [of r A] by simp
        moreover have "winner (insert r (set rs)) (rep_member r) (rep_seq r) (published r)"
        proof (rule winnerI)
          show "report_ok r" using True by simp
          show "rep_seq r' \<le> rep_seq r"
            if "r' \<in> insert r (set rs)" "report_ok r'" "rep_member r' = rep_member r" for r'
          proof -
            have "r' \<in> set rs \<Longrightarrow> rep_seq r' \<le> q"
              using w that True by (auto simp: winner_def)
            with False that show ?thesis by auto
          qed
        qed simp
        ultimately show ?thesis unfolding step using True by simp
      qed
    qed
  qed
qed simp

text \<open>Two reports of one member under one sequence number say the same.\<close>

definition consistent :: "PresenceReport set \<Rightarrow> bool" where
  "consistent R \<longleftrightarrow>
     (\<forall>r \<in> R. \<forall>r' \<in> R. report_ok r \<and> report_ok r' \<and> rep_member r = rep_member r' \<and>
        rep_seq r = rep_seq r' \<longrightarrow> published r = published r')"

lemma winner_unique:
  assumes "consistent R" and w: "winner R m q st" and w': "winner R m q' st'"
  shows "q = q' \<and> st = st'"
proof -
  obtain r where r: "r \<in> R" "report_ok r" "rep_member r = m" "rep_seq r = q" "published r = st"
    using w by (auto simp: winner_def)
  obtain r' where r': "r' \<in> R" "report_ok r'" "rep_member r' = m" "rep_seq r' = q'" "published r' = st'"
    using w' by (auto simp: winner_def)
  have "q \<le> q'" using w' r by (auto simp: winner_def)
  moreover have "q' \<le> q" using w r' by (auto simp: winner_def)
  ultimately have "q = q'" by (rule order.antisym)
  then show ?thesis using assms(1) r r' unfolding consistent_def by metis
qed

lemma fold_regs_Some_iff:
  assumes "consistent (set rs)"
  shows "fold regs_apply rs Map.empty m = Some (q, st) \<longleftrightarrow> winner (set rs) m q st"
proof (cases "fold regs_apply rs Map.empty m")
  case None
  then have "\<forall>r \<in> set rs. report_ok r \<longrightarrow> rep_member r \<noteq> m"
    using fold_regs_winner [of rs m] by simp
  then have "\<not> winner (set rs) m q st" by (auto simp: winner_def)
  with None show ?thesis by simp
next
  case (Some qs)
  obtain q' st' where qs: "qs = (q', st')" by (cases qs)
  with Some have "winner (set rs) m q' st'"
    using fold_regs_winner [of rs m] by simp
  then show ?thesis
    using winner_unique [OF assms, of m q st q' st'] Some qs by auto
qed

lemma fold_regs_cong:
  assumes "consistent (set rs)" and "set rs = set rs'"
  shows "fold regs_apply rs Map.empty = fold regs_apply rs' Map.empty"
proof
  fix m
  have "fold regs_apply rs Map.empty m = Some qs \<longleftrightarrow> fold regs_apply rs' Map.empty m = Some qs" for qs
    using fold_regs_Some_iff [of rs] fold_regs_Some_iff [of rs'] assms by (cases qs) simp
  then show "fold regs_apply rs Map.empty m = fold regs_apply rs' Map.empty m"
    by (metis option.exhaust)
qed

lemma winner_Where:
  assumes "consistent (set rs)" and "winner (set rs) m q st"
  shows "Where m (apply_all rs NewPresenceProjection) = st"
  using fold_regs_Some_iff [OF assms(1), of m q st] assms(2)
  by (simp add: Where_regs apply_all_inv proj_inv_new apply_all_regs regs_new)

subsection \<open>The listing of a channel\<close>

lemma set_Presence_Occupants:
  assumes "proj_inv p"
  shows "set (Presence_Occupants c p) = {w. \<exists>m. Where m p = Some w \<and> pres_channel w = c}"
proof -
  have mem: "(m, w) \<in> set (pp_present p) \<longleftrightarrow> Where m p = Some w" for m w
    using gm_mem [of "pp_present p" m w] assms by (simp add: proj_inv_def Where_def)
  have "set (map snd (pp_present p)) = {w. \<exists>m. Where m p = Some w}"
  proof (intro set_eqI iffI)
    show "w \<in> {w. \<exists>m. Where m p = Some w}" if "w \<in> set (map snd (pp_present p))" for w
      using that mem by auto
    show "w \<in> set (map snd (pp_present p))" if "w \<in> {w. \<exists>m. Where m p = Some w}" for w
      using that mem [symmetric] by (auto simp: image_iff intro!: bexI [of _ "(_, w)"])
  qed
  then show ?thesis by (auto simp: Presence_Occupants_def)
qed

lemma map_member_Occupants:
  assumes "proj_inv p"
  shows "pres_member ` set (Presence_Occupants c p) = members_in c p"
proof -
  have named: "pres_member w = m" if "Where m p = Some w" for m w
    using assms that by (simp add: proj_inv_def)
  show ?thesis
  proof (intro set_eqI iffI)
    show "m \<in> members_in c p" if "m \<in> pres_member ` set (Presence_Occupants c p)" for m
      using that named by (auto simp: set_Presence_Occupants [OF assms] members_in_def)
    show "m \<in> pres_member ` set (Presence_Occupants c p)" if "m \<in> members_in c p" for m
    proof -
      from that obtain w where w: "Where m p = Some w" "pres_channel w = c"
        by (auto simp: members_in_def)
      then have "w \<in> set (Presence_Occupants c p)" by (auto simp: set_Presence_Occupants [OF assms])
      then show ?thesis using named [OF w(1)] by (metis imageI)
    qed
  qed
qed

lemma distinct_Presence_Occupants:
  assumes "proj_inv p"
  shows "distinct (Presence_Occupants c p)"
proof -
  have ok: "gm_ok (pp_present p)"
    using assms by (simp add: proj_inv_def)
  have mem: "pres_member w = m" if "(m, w) \<in> set (pp_present p)" for m w
    using assms that gm_mem [OF ok, of m w] by (simp add: proj_inv_def Where_def)
  have "map pres_member (map snd (pp_present p)) = map fst (pp_present p)"
    using mem by auto
  then have "distinct (map pres_member (map snd (pp_present p)))"
    using ok by (simp only:)
  then have "distinct (map snd (pp_present p))"
    using distinct_map [of pres_member "map snd (pp_present p)"] by blast
  then show ?thesis by (simp add: Presence_Occupants_def)
qed

lemma length_Presence_Occupants:
  assumes "proj_inv p"
  shows "int (length (Presence_Occupants c p)) = Count c p"
proof -
  have "inj_on pres_member (set (Presence_Occupants c p))"
    using assms by (auto simp: inj_on_def set_Presence_Occupants proj_inv_def)
  then have "card (set (Presence_Occupants c p)) = card (members_in c p)"
    using card_image map_member_Occupants [OF assms] by metis
  then show ?thesis
    using distinct_card [OF distinct_Presence_Occupants [OF assms]] assms
    by (simp add: proj_inv_Count)
qed

lemma presence_key_inj:
  assumes "proj_inv p" and "\<And>m. gm_has (pp_present p) m \<Longrightarrow> valid_ID m"
  shows "inj_on presence_key {w. \<exists>m. Where m p = Some w \<and> pres_channel w = c}"
proof (rule inj_onI)
  fix v w
  assume "v \<in> {w. \<exists>m. Where m p = Some w \<and> pres_channel w = c}"
    and "w \<in> {w. \<exists>m. Where m p = Some w \<and> pres_channel w = c}"
    and key: "presence_key v = presence_key w"
  then obtain m n where m: "Where m p = Some v" and n: "Where n p = Some w" by blast
  then have "pres_member v = m" "pres_member w = n"
    using assms(1) by (auto simp: proj_inv_def)
  moreover have "valid_ID m" "valid_ID n"
    using assms(2) m n by (auto simp: Where_def)
  ultimately have "m = n"
    using key ID_String_eq_iff by (simp add: presence_key_def)
  with m n show "v = w" by simp
qed

lemma Presence_Occupants_cong:
  assumes "proj_inv p" and "proj_inv p'" and "\<And>m. Where m p = Where m p'"
    and "\<And>m. gm_has (pp_present p) m \<Longrightarrow> valid_ID m"
  shows "Presence_Occupants c p = Presence_Occupants c p'"
  unfolding Presence_Occupants_def
proof (rule sort_key_unique)
  have "map_of (pp_present p) = map_of (pp_present p')"
    using assms(3) by (simp add: fun_eq_iff Where_def)
  then have "mset (pp_present p) = mset (pp_present p')"
    using assms(1,2) by (intro gm_ext_mset) (simp_all add: proj_inv_def)
  then show "mset (filter (\<lambda>pr. pres_channel pr = c) (map snd (pp_present p))) =
      mset (filter (\<lambda>pr. pres_channel pr = c) (map snd (pp_present p')))"
    by (simp add: mset_filter mset_map)
  have "set (filter (\<lambda>pr. pres_channel pr = c) (map snd (pp_present p))) =
      set (Presence_Occupants c p)"
    by (simp add: Presence_Occupants_def)
  then show "inj_on presence_key (set (filter (\<lambda>pr. pres_channel pr = c) (map snd (pp_present p))))"
    using presence_key_inj [OF assms(1,4)] set_Presence_Occupants [OF assms(1)] by simp
qed

lemma Apply_keeps_valid:
  assumes "proj_inv p" and "go_ID (rep_member r)" and "\<And>m. gm_has (pp_present p) m \<Longrightarrow> valid_ID m"
    and "gm_has (pp_present (snd (Apply r p))) m"
  shows "valid_ID m"
proof (cases "stale r p")
  case True
  then show ?thesis using assms by (simp add: Apply_stale)
next
  case False
  then have "valid_ID (rep_member r)"
    using assms(2) by (auto simp: stale_def report_ok_def go_ID_def)
  then show ?thesis
    using assms(3,4) by (cases rule: Apply_cases [of r p]) (auto split: if_splits)
qed

lemma apply_all_valid:
  assumes "\<forall>r \<in> set rs. go_ID (rep_member r)"
    and "gm_has (pp_present (apply_all rs NewPresenceProjection)) m"
  shows "valid_ID m"
  using assms
proof (induction rs arbitrary: m rule: rev_induct)
  case Nil
  then show ?case by (simp add: NewPresenceProjection_def)
next
  case (snoc r rs)
  then show ?case
    using Apply_keeps_valid [of "apply_all rs NewPresenceProjection" r m]
    by (auto simp: apply_all_inv proj_inv_new)
qed

subsection \<open>Properties\<close>

text \<open>
  C1: Presence converges.  Reports may arrive in any order, more than once and interleaved:
  two hubs that saw the same set of reports agree on where every member is, on the count of every
  channel, and on the very listing of every channel, as long as two reports of one member under
  one sequence number say the same thing.
\<close>

theorem presence_converges:
  assumes "set rs = set rs'" and "consistent (set rs)" and "\<forall>r \<in> set rs. go_ID (rep_member r)"
  shows "Where m (apply_all rs NewPresenceProjection) = Where m (apply_all rs' NewPresenceProjection) \<and>
     Count c (apply_all rs NewPresenceProjection) = Count c (apply_all rs' NewPresenceProjection) \<and>
     Presence_Occupants c (apply_all rs NewPresenceProjection) =
       Presence_Occupants c (apply_all rs' NewPresenceProjection)"
proof -
  let ?p = "apply_all rs NewPresenceProjection" and ?p' = "apply_all rs' NewPresenceProjection"
  have inv: "proj_inv ?p" "proj_inv ?p'"
    by (simp_all add: apply_all_inv proj_inv_new)
  have "regs ?p = regs ?p'"
    using fold_regs_cong [OF assms(2,1)] by (simp add: apply_all_regs proj_inv_new regs_new)
  then have wh: "Where k ?p = Where k ?p'" for k
    using inv by (simp add: Where_regs)
  moreover from wh have "Count c ?p = Count c ?p'"
    using inv by (simp add: proj_inv_Count members_in_def)
  moreover have "Presence_Occupants c ?p = Presence_Occupants c ?p'"
    by (rule Presence_Occupants_cong [OF inv wh]) (rule apply_all_valid [OF assms(3)])
  ultimately show ?thesis by blast
qed

definition alice_joins :: PresenceReport where
  "alice_joins = \<lparr>rep_member = alice, rep_seq = 1, rep_channel = lobby, rep_since = 0, rep_muted = False\<rparr>"

definition alice_moves :: PresenceReport where
  "alice_moves = \<lparr>rep_member = alice, rep_seq = 2, rep_channel = attic, rep_since = 5 * Second, rep_muted = False\<rparr>"

definition bob_joins :: PresenceReport where
  "bob_joins = \<lparr>rep_member = bob, rep_seq = 1, rep_channel = attic, rep_since = 0, rep_muted = True\<rparr>"

lemmas ex_reports = alice_joins_def alice_moves_def bob_joins_def

lemma ex_reports_consistent: "consistent {alice_joins, alice_moves, bob_joins}"
  by (simp add: consistent_def ex_reports)

theorem presence_converges_witness:
  "Presence_Occupants attic (apply_all [alice_joins, bob_joins, alice_moves] NewPresenceProjection) =
     Presence_Occupants attic (apply_all [alice_moves, bob_joins, alice_moves, alice_joins] NewPresenceProjection)"
proof -
  have "set [alice_joins, bob_joins, alice_moves] = set [alice_moves, bob_joins, alice_moves, alice_joins]"
    by auto
  moreover have "consistent (set [alice_joins, bob_joins, alice_moves])"
    using ex_reports_consistent by (simp add: insert_commute)
  moreover have "\<forall>r \<in> set [alice_joins, bob_joins, alice_moves]. go_ID (rep_member r)"
    by (simp add: ex_reports go_ID_def)
  ultimately show ?thesis
    by (rule presence_converges [THEN conjunct2, THEN conjunct2])
qed

text \<open>
  The incremental projection is right.  After any reports, the count of a channel is the length
  of its listing; the listing holds each of its members once, exactly those the projection places
  there, ordered by when they joined and then by identity.
\<close>

theorem presence_counts_the_listing:
  "Count c (apply_all rs NewPresenceProjection) =
     int (length (Presence_Occupants c (apply_all rs NewPresenceProjection))) \<and>
   distinct (Presence_Occupants c (apply_all rs NewPresenceProjection)) \<and>
   sorted (map presence_key (Presence_Occupants c (apply_all rs NewPresenceProjection))) \<and>
   (\<forall>w. w \<in> set (Presence_Occupants c (apply_all rs NewPresenceProjection)) \<longleftrightarrow>
      Where (pres_member w) (apply_all rs NewPresenceProjection) = Some w \<and> pres_channel w = c)"
proof -
  have inv: "proj_inv (apply_all rs NewPresenceProjection)"
    by (simp add: apply_all_inv proj_inv_new)
  then have "pres_member w = m" if "Where m (apply_all rs NewPresenceProjection) = Some w" for m w
    using that by (simp add: proj_inv_def)
  then show ?thesis
    using inv by (auto simp: length_Presence_Occupants distinct_Presence_Occupants set_Presence_Occupants)
      (simp add: Presence_Occupants_def)
qed

text \<open>
  A member is where its latest report put it: of all the reports about a member, the one with
  the highest sequence number decides, whatever order they arrived in, and a report with no member
  or with sequence number zero decides nothing.
\<close>

theorem latest_report_wins:
  assumes "r \<in> set rs" and "report_ok r" and "consistent (set rs)"
    and "\<forall>r' \<in> set rs. report_ok r' \<and> rep_member r' = rep_member r \<longrightarrow> rep_seq r' \<le> rep_seq r"
  shows "Where (rep_member r) (apply_all rs NewPresenceProjection) = published r"
proof (rule winner_Where [OF assms(3)])
  show "winner (set rs) (rep_member r) (rep_seq r) (published r)"
    using assms by (intro winnerI) auto
qed

theorem latest_report_wins_witness:
  "Where alice (apply_all [alice_moves, bob_joins, alice_joins] NewPresenceProjection) =
     Some \<lparr>pres_channel = attic, pres_member = alice, pres_since = time_unix (5 * Second), pres_muted = False\<rparr>"
proof -
  have "Where (rep_member alice_moves) (apply_all [alice_moves, bob_joins, alice_joins] NewPresenceProjection) =
      published alice_moves"
  proof (rule latest_report_wins)
    show "consistent (set [alice_moves, bob_joins, alice_joins])"
      using ex_reports_consistent by (simp add: insert_commute)
  qed (simp_all add: ex_reports report_ok_def)
  then show ?thesis by (simp add: ex_reports published_def)
qed

end
