(* ===== verification/Presence_Hub.thy ===== *)
theory Presence_Hub
  imports Presence_Projection
begin

text \<open>
  The fan-out of \<^verbatim>\<open>internal/orchestration/presence_hub.go\<close>: attached clients, what each is
  showing, and the changes coalesced since the last flush.

  The hub's \<^verbatim>\<open>grants\<close> field is an interface whose answers may change between calls, so the
  operations that ask it take the grantor as it answers during that call.  A \<^verbatim>\<open>*presenceClient\<close>
  and a \<^verbatim>\<open>*pendingChannel\<close> are only ever held by the hub's own maps and are modelled as the
  values in them.  \<open>Flush\<close> reads \<^verbatim>\<open>h.clients[id]\<close> without looking whether it is there; a read
  through the nil pointer this would give is the result \<open>None\<close>.
\<close>

subsection \<open>Messages\<close>

record PresenceCountUpdate =
  cu_channel :: ID
  cu_count :: int

record PresenceMemberUpdate =
  mu_channel :: ID
  mu_member :: ID
  mu_present :: bool
  mu_now :: Presence

record PresenceMessage =
  msg_snapshot :: bool
  msg_counts :: "PresenceCountUpdate list"
  msg_members :: "PresenceMemberUpdate list"

definition zero_PresenceMessage :: PresenceMessage where
  "zero_PresenceMessage = \<lparr>msg_snapshot = False, msg_counts = [], msg_members = []\<rparr>"

definition Empty :: "PresenceMessage \<Rightarrow> bool" where
  "Empty m \<longleftrightarrow> length (msg_counts m) = 0 \<and> length (msg_members m) = 0"

type_synonym ClientID = string

record PresenceDelivery =
  dl_client :: ClientID
  dl_message :: PresenceMessage

subsection \<open>The hub\<close>

record presenceClient =
  cl_viewer :: Principal
  cl_subscribed :: "(ID, bool) gomap"

record pendingChannel =
  pc_countMoved :: bool
  pc_members :: "(ID, PresenceMemberUpdate) gomap"

record PresenceHub =
  hub_space :: ID
  hub_channels :: "ID list"
  hub_known :: "(ID, bool) gomap"
  hub_projection :: PresenceProjection
  hub_clients :: "(ClientID, presenceClient) gomap"
  hub_attached :: "ClientID list"
  hub_pending :: "(ID, pendingChannel) gomap"

definition NewPresenceHub :: "ID \<Rightarrow> grantor option \<Rightarrow> orch_error + PresenceHub" where
  "NewPresenceHub space grants =
     (if IsZero space then Inl (ErrInvariant HubNeedsSpace)
      else if grants = None then Inl (ErrInvariant HubNeedsGrantor)
      else Inr \<lparr>hub_space = space, hub_channels = [], hub_known = [],
                hub_projection = NewPresenceProjection, hub_clients = [], hub_attached = [],
                hub_pending = []\<rparr>)"

definition visible :: "grantor option \<Rightarrow> PresenceHub \<Rightarrow> presenceClient \<Rightarrow> ID \<Rightarrow> bool" where
  "visible g h c channel =
     (if \<not> flagged (hub_known h) channel then False
      else Allow g (cl_viewer c) SeeChannel (ChannelSubject (hub_space h) channel))"

definition HubAddChannel :: "ID \<Rightarrow> PresenceHub \<Rightarrow> orch_error + PresenceHub" where
  "HubAddChannel channel h =
     (if IsZero channel then Inl (ErrInvariant HubChannelNeedsIdentifier)
      else if flagged (hub_known h) channel then Inl (ErrInvariant (HubHoldsChannel channel))
      else Inr (h\<lparr>hub_known := AList.update channel True (hub_known h),
                  hub_channels := hub_channels h @ [channel]\<rparr>))"

definition Attach ::
    "grantor option \<Rightarrow> ClientID \<Rightarrow> Principal \<Rightarrow> PresenceHub \<Rightarrow> orch_error + (PresenceMessage \<times> PresenceHub)"
where
  "Attach g i viewer h =
     (if i = [] then Inl (ErrInvariant ClientNeedsIdentifier)
      else if gm_has (hub_clients h) i then Inl (ErrInvariant (ClientAlreadyAttached i))
      else if IsZero (principal_id viewer) then Inl (ErrInvariant ClientNeedsPrincipal)
      else
        let c = \<lparr>cl_viewer = viewer, cl_subscribed = []\<rparr>;
            h' = h\<lparr>hub_clients := AList.update i c (hub_clients h),
                   hub_attached := hub_attached h @ [i]\<rparr>;
            counts = map (\<lambda>channel. \<lparr>cu_channel = channel, cu_count = Count channel (hub_projection h')\<rparr>)
                       (filter (visible g h' c) (hub_channels h'))
        in Inr (\<lparr>msg_snapshot = True, msg_counts = counts, msg_members = []\<rparr>, h'))"

definition Detach :: "ClientID \<Rightarrow> PresenceHub \<Rightarrow> PresenceHub" where
  "Detach i h =
     (if \<not> gm_has (hub_clients h) i then h
      else h\<lparr>hub_clients := AList.delete i (hub_clients h),
             hub_attached := remove1 i (hub_attached h)\<rparr>)"

definition Subscribe ::
    "grantor option \<Rightarrow> ClientID \<Rightarrow> ID \<Rightarrow> PresenceHub \<Rightarrow> orch_error + (PresenceMessage \<times> PresenceHub)"
where
  "Subscribe g i channel h =
     (case map_of (hub_clients h) i of
        None \<Rightarrow> Inl (ErrNoSuchClient i)
      | Some c \<Rightarrow>
          if \<not> visible g h c channel then Inl ErrNoSuchChannel
          else
            let c' = c\<lparr>cl_subscribed := AList.update channel True (cl_subscribed c)\<rparr>;
                h' = h\<lparr>hub_clients := AList.update i c' (hub_clients h)\<rparr>
            in Inr (\<lparr>msg_snapshot = True,
                     msg_counts = [\<lparr>cu_channel = channel, cu_count = Count channel (hub_projection h)\<rparr>],
                     msg_members =
                       map (\<lambda>pr. \<lparr>mu_channel = channel, mu_member = pres_member pr,
                                  mu_present = True, mu_now = pr\<rparr>)
                         (Presence_Occupants channel (hub_projection h))\<rparr>, h'))"

definition Unsubscribe :: "ClientID \<Rightarrow> ID \<Rightarrow> PresenceHub \<Rightarrow> PresenceHub" where
  "Unsubscribe i channel h =
     (case map_of (hub_clients h) i of
        None \<Rightarrow> h
      | Some c \<Rightarrow>
          h\<lparr>hub_clients :=
              AList.update i (c\<lparr>cl_subscribed := AList.delete channel (cl_subscribed c)\<rparr>) (hub_clients h)\<rparr>)"

subsection \<open>Applying a report\<close>

definition pendingFor :: "ID \<Rightarrow> (ID, pendingChannel) gomap \<Rightarrow> pendingChannel" where
  "pendingFor channel pend =
     (case map_of pend channel of
        None \<Rightarrow> \<lparr>pc_countMoved = False, pc_members = []\<rparr>
      | Some p \<Rightarrow> p)"

text \<open>\<^verbatim>\<open>h.pendingFor(channel).countMoved = true\<close>\<close>

definition mark_count :: "ID \<Rightarrow> (ID, pendingChannel) gomap \<Rightarrow> (ID, pendingChannel) gomap" where
  "mark_count channel pend =
     AList.update channel ((pendingFor channel pend)\<lparr>pc_countMoved := True\<rparr>) pend"

text \<open>\<^verbatim>\<open>h.pendingFor(channel).members[member] = u\<close>\<close>

definition put_member ::
    "ID \<Rightarrow> ID \<Rightarrow> PresenceMemberUpdate \<Rightarrow> (ID, pendingChannel) gomap \<Rightarrow> (ID, pendingChannel) gomap"
where
  "put_member channel member u pend =
     (let p = pendingFor channel pend
      in AList.update channel (p\<lparr>pc_members := AList.update member u (pc_members p)\<rparr>) pend)"

definition left_update :: "PresenceChange \<Rightarrow> PresenceMemberUpdate" where
  "left_update change =
     \<lparr>mu_channel = chg_left change, mu_member = chg_member change, mu_present = False,
      mu_now = zero_Presence\<rparr>"

definition joined_update :: "PresenceChange \<Rightarrow> PresenceMemberUpdate" where
  "joined_update change =
     \<lparr>mu_channel = chg_joined change, mu_member = chg_member change, mu_present = True,
      mu_now = chg_now change\<rparr>"

definition note_change ::
    "PresenceChange \<Rightarrow> (ID, pendingChannel) gomap \<Rightarrow> (ID, pendingChannel) gomap" where
  "note_change change pend =
     (if Moved change then
        let pend1 =
              (if \<not> IsZero (chg_left change) then
                 put_member (chg_left change) (chg_member change) (left_update change)
                   (mark_count (chg_left change) pend)
               else pend)
        in if \<not> IsZero (chg_joined change) then
             put_member (chg_joined change) (chg_member change) (joined_update change)
               (mark_count (chg_joined change) pend1)
           else pend1
      else put_member (chg_joined change) (chg_member change) (joined_update change) pend)"

definition HubApply :: "PresenceReport \<Rightarrow> PresenceHub \<Rightarrow> bool \<times> PresenceHub" where
  "HubApply r h =
     (case Apply r (hub_projection h) of
        (None, p) \<Rightarrow> (False, h\<lparr>hub_projection := p\<rparr>)
      | (Some change, p) \<Rightarrow>
          (True, h\<lparr>hub_projection := p, hub_pending := note_change change (hub_pending h)\<rparr>))"

subsection \<open>Flushing\<close>

definition sortedMemberUpdates :: "(ID, PresenceMemberUpdate) gomap \<Rightarrow> PresenceMemberUpdate list" where
  "sortedMemberUpdates members = sort_key (\<lambda>u. ID_String (mu_member u)) (map snd members)"

definition flush_channel ::
    "grantor option \<Rightarrow> PresenceHub \<Rightarrow> presenceClient \<Rightarrow> ID \<Rightarrow> PresenceMessage \<Rightarrow> PresenceMessage"
where
  "flush_channel g h c channel msg =
     (if \<not> visible g h c channel then msg
      else
        let p = pendingFor channel (hub_pending h);
            msg1 = (if pc_countMoved p
                    then msg\<lparr>msg_counts := msg_counts msg @
                           [\<lparr>cu_channel = channel, cu_count = Count channel (hub_projection h)\<rparr>]\<rparr>
                    else msg)
        in if flagged (cl_subscribed c) channel
           then msg1\<lparr>msg_members := msg_members msg1 @ sortedMemberUpdates (pc_members p)\<rparr>
           else msg1)"

definition flush_message ::
    "grantor option \<Rightarrow> PresenceHub \<Rightarrow> ID list \<Rightarrow> presenceClient \<Rightarrow> PresenceMessage" where
  "flush_message g h changed c = fold (flush_channel g h c) changed zero_PresenceMessage"

fun flush_clients ::
    "grantor option \<Rightarrow> PresenceHub \<Rightarrow> ID list \<Rightarrow> ClientID list \<Rightarrow> PresenceDelivery list option" where
  "flush_clients g h changed [] = Some []"
| "flush_clients g h changed (i # rest) =
     (case map_of (hub_clients h) i of
        None \<Rightarrow>
          if list_ex (flagged (hub_known h)) changed then None else flush_clients g h changed rest
      | Some c \<Rightarrow>
          let msg = flush_message g h changed c in
          (case flush_clients g h changed rest of
             None \<Rightarrow> None
           | Some out \<Rightarrow>
               Some (if Empty msg then out else \<lparr>dl_client = i, dl_message = msg\<rparr> # out)))"

definition Flush :: "grantor option \<Rightarrow> PresenceHub \<Rightarrow> (PresenceDelivery list \<times> PresenceHub) option" where
  "Flush g h =
     (if length (hub_pending h) = 0 then Some ([], h)
      else
        let changed = filter (gm_has (hub_pending h)) (hub_channels h) in
        (case flush_clients g h changed (hub_attached h) of
           None \<Rightarrow> None
         | Some out \<Rightarrow> Some (out, h\<lparr>hub_pending := []\<rparr>)))"

subsection \<open>What a change says\<close>

definition here :: "ID \<Rightarrow> ID \<Rightarrow> PresenceProjection \<Rightarrow> Presence option" where
  "here channel member p =
     (case Where member p of None \<Rightarrow> None | Some w \<Rightarrow> if pres_channel w = channel then Some w else None)"

definition tells :: "PresenceMemberUpdate \<Rightarrow> Presence option" where
  "tells u = (if mu_present u then Some (mu_now u) else None)"

lemma tells_simps [simp]:
  "tells (left_update chg) = None" "tells (joined_update chg) = Some (chg_now chg)"
  by (simp_all add: tells_def left_update_def joined_update_def)

lemma update_fields_simps [simp]:
  "mu_member (left_update chg) = chg_member chg" "mu_member (joined_update chg) = chg_member chg"
  "mu_channel (left_update chg) = chg_left chg" "mu_channel (joined_update chg) = chg_joined chg"
  by (simp_all add: left_update_def joined_update_def)

lemma Apply_silent: "Apply r p = (None, p') \<Longrightarrow> Where m p' = Where m p"
  by (cases rule: Apply_cases [of r p]) auto

lemma Apply_change_member: "Apply r p = (Some chg, p') \<Longrightarrow> chg_member chg = rep_member r"
  by (cases rule: Apply_cases [of r p]) auto

lemma Apply_change_Where:
  "Apply r p = (Some chg, p') \<Longrightarrow>
     Where m p' = (if m = chg_member chg then
                     (if IsZero (chg_joined chg) then None else Some (chg_now chg)) else Where m p)"
  by (cases rule: Apply_cases [of r p]) (auto simp: published_def IsZero_def zero_ID_def split: if_splits)

lemma Apply_change_was:
  assumes "proj_inv p" and "Apply r p = (Some chg, p')"
  shows "(IsZero (chg_left chg) \<longleftrightarrow> Where (chg_member chg) p = None) \<and>
    (\<forall>w. Where (chg_member chg) p = Some w \<longrightarrow> pres_channel w = chg_left chg) \<and>
    (\<not> IsZero (chg_joined chg) \<longrightarrow> pres_channel (chg_now chg) = chg_joined chg)"
proof -
  have "\<not> IsZero (pres_channel w)" if "Where m p = Some w" for m w
    using assms(1) that by (simp add: proj_inv_def)
  then show ?thesis
    using assms(2)
    by (cases rule: Apply_cases [of r p])
      (auto simp: published_def IsZero_def zero_ID_def split: if_splits)
qed

lemma Apply_stays_joined:
  assumes "proj_inv p" and "Apply r p = (Some chg, p')" and "\<not> Moved chg"
  shows "\<not> IsZero (chg_joined chg)"
proof -
  have "pres_channel w \<noteq> zero_ID" if "Where m p = Some w" for m w
    using assms(1) that by (auto simp: proj_inv_def IsZero_iff)
  then show ?thesis
    using assms(2,3)
    by (cases rule: Apply_cases [of r p])
      (auto simp: published_def Moved_def IsZero_iff split: if_splits)
qed

text \<open>Where nobody arrives or departs, the presences and the count are as before.\<close>

lemma here_change:
  assumes "proj_inv p" and "Apply r p = (Some chg, p')"
  shows "here c m p' =
     (if m \<noteq> chg_member chg then here c m p
      else if c = chg_joined chg \<and> \<not> IsZero (chg_joined chg) then Some (chg_now chg) else None)"
  using Apply_change_Where [OF assms(2), of m] Apply_change_was [OF assms]
  by (auto simp: here_def split: option.splits)

lemma here_before:
  assumes "proj_inv p" and "Apply r p = (Some chg, p')" and "c \<noteq> chg_left chg"
  shows "here c (chg_member chg) p = None"
  using Apply_change_was [OF assms(1,2)] assms(3) by (auto simp: here_def split: option.splits)

lemma members_in_here: "members_in c p = {m. here c m p \<noteq> None}"
  by (auto simp: members_in_def here_def split: option.splits if_splits)

lemma Count_here: "proj_inv p \<Longrightarrow> Count c p = int (card {m. here c m p \<noteq> None})"
  by (simp add: proj_inv_Count members_in_here)

lemma Apply_inv': "proj_inv p \<Longrightarrow> Apply r p = (x, p') \<Longrightarrow> proj_inv p'"
  using Apply_proj_inv [of p r] by simp

lemma Count_silent:
  assumes "proj_inv p" and "Apply r p = (None, p')"
  shows "Count c p' = Count c p"
  using assms Apply_silent [OF assms(2)] Apply_inv' [OF assms]
  by (simp add: Count_here here_def)

lemma Count_change:
  assumes "proj_inv p" and "Apply r p = (Some chg, p')"
    and "\<not> Moved chg \<or> (c \<noteq> chg_left chg \<and> c \<noteq> chg_joined chg)"
  shows "Count c p' = Count c p"
proof -
  have "here c m p' \<noteq> None \<longleftrightarrow> here c m p \<noteq> None" for m
  proof (cases "m = chg_member chg")
    case True
    show ?thesis
    proof (cases "Moved chg")
      case True
      then have c: "c \<noteq> chg_left chg" "c \<noteq> chg_joined chg" using assms(3) by simp_all
      then show ?thesis
        using \<open>m = chg_member chg\<close> here_before [OF assms(1,2) c(1)] here_change [OF assms(1,2), of c m]
        by simp
    next
      case False
      then have z: "\<not> IsZero (chg_joined chg)" and same: "chg_left chg = chg_joined chg"
        using Apply_stays_joined [OF assms(1,2)] by (simp_all add: Moved_def)
      with Apply_change_was [OF assms(1,2)]
      obtain w where w: "Where (chg_member chg) p = Some w" "pres_channel w = chg_joined chg" by auto
      then show ?thesis
        using z True here_change [OF assms(1,2), of c m] by (simp add: here_def)
    qed
  qed (simp add: here_change [OF assms(1,2)])
  then have "{m. here c m p' \<noteq> None} = {m. here c m p \<noteq> None}" by blast
  then show ?thesis using assms(1) Apply_inv' [OF assms(1,2)] by (simp add: Count_here)
qed

subsection \<open>What is pending\<close>

text \<open>The update pending for a member of a channel, and whether the channel's count moved.\<close>

definition pend_of :: "(ID, pendingChannel) gomap \<Rightarrow> ID \<Rightarrow> ID \<Rightarrow> PresenceMemberUpdate option" where
  "pend_of pend c m = map_of (pc_members (pendingFor c pend)) m"

definition pend_count :: "(ID, pendingChannel) gomap \<Rightarrow> ID \<Rightarrow> bool" where
  "pend_count pend c = pc_countMoved (pendingFor c pend)"

lemma pendingFor_Nil [simp]: "pendingFor c [] = \<lparr>pc_countMoved = False, pc_members = []\<rparr>"
  by (simp add: pendingFor_def)

lemma pend_Nil [simp]: "pend_of [] c m = None" "pend_count [] c = False"
  by (simp_all add: pend_of_def pend_count_def)

lemma pend_mark_count [simp]:
  "pend_of (mark_count c pend) d m = pend_of pend d m"
  "pend_count (mark_count c pend) d \<longleftrightarrow> d = c \<or> pend_count pend d"
  by (simp_all add: pend_of_def pend_count_def mark_count_def pendingFor_def)

lemma pend_put_member [simp]:
  "pend_of (put_member c m u pend) d n = (if d = c \<and> n = m then Some u else pend_of pend d n)"
  "pend_count (put_member c m u pend) d = pend_count pend d"
  by (simp_all add: pend_of_def pend_count_def put_member_def pendingFor_def Let_def)

definition pend_ok :: "(ID, pendingChannel) gomap \<Rightarrow> bool" where
  "pend_ok pend \<longleftrightarrow> gm_ok pend \<and> (\<forall>c. gm_ok (pc_members (pendingFor c pend)))"

lemma pend_ok_Nil [simp]: "pend_ok []"
  by (simp add: pend_ok_def)

lemma pend_ok_mark_count [simp]: "pend_ok pend \<Longrightarrow> pend_ok (mark_count c pend)"
  by (simp add: pend_ok_def mark_count_def pendingFor_def)

lemma pend_ok_put_member [simp]: "pend_ok pend \<Longrightarrow> pend_ok (put_member c m u pend)"
  by (simp add: pend_ok_def put_member_def pendingFor_def Let_def)

lemma pend_ok_note_change [simp]: "pend_ok pend \<Longrightarrow> pend_ok (note_change chg pend)"
  by (simp add: note_change_def Let_def)

lemma pend_of_note_change:
  "pend_of (note_change chg pend) c m =
     (if m = chg_member chg \<and> c = chg_joined chg \<and> (\<not> Moved chg \<or> \<not> IsZero (chg_joined chg))
      then Some (joined_update chg)
      else if m = chg_member chg \<and> c = chg_left chg \<and> Moved chg \<and> \<not> IsZero (chg_left chg)
      then Some (left_update chg)
      else pend_of pend c m)"
  by (auto simp: note_change_def Let_def)

lemma pend_count_note_change:
  "pend_count (note_change chg pend) c \<longleftrightarrow>
     pend_count pend c \<or> Moved chg \<and> \<not> IsZero c \<and> (c = chg_left chg \<or> c = chg_joined chg)"
  by (auto simp: note_change_def Let_def)

lemma pend_has: "pend_count pend c \<or> pend_of pend c m \<noteq> None \<Longrightarrow> gm_has pend c"
  by (auto simp: pend_count_def pend_of_def pendingFor_def split: option.splits)

text \<open>The pending updates tell the truth about the projection.\<close>

definition pend_truth :: "(ID, pendingChannel) gomap \<Rightarrow> PresenceProjection \<Rightarrow> bool" where
  "pend_truth pend p \<longleftrightarrow>
     (\<forall>c m u. pend_of pend c m = Some u \<longrightarrow>
        mu_channel u = c \<and> mu_member u = m \<and> tells u = here c m p)"

lemma pend_truth_silent:
  "pend_truth pend p \<Longrightarrow> Apply r p = (None, p') \<Longrightarrow> pend_truth pend p'"
  using Apply_silent [of r p p'] by (simp add: pend_truth_def here_def)

lemma pend_truth_change:
  assumes inv: "proj_inv p" and chg: "Apply r p = (Some chg, p')" and t: "pend_truth pend p"
  shows "pend_truth (note_change chg pend) p'"
  unfolding pend_truth_def
proof (intro allI impI)
  fix c m u assume u: "pend_of (note_change chg pend) c m = Some u"
  note after = here_change [OF inv chg, of c m]
  note stays = Apply_stays_joined [OF inv chg]
  show "mu_channel u = c \<and> mu_member u = m \<and> tells u = here c m p'"
  proof (cases "m = chg_member chg")
    case False
    with u after t show ?thesis by (simp add: pend_of_note_change pend_truth_def)
  next
    case True
    consider "c = chg_joined chg" "\<not> IsZero (chg_joined chg)"
      | "c = chg_left chg" "Moved chg" "\<not> IsZero (chg_left chg)"
      | "c \<noteq> chg_left chg" "pend_of pend c m = Some u" "\<not> (c = chg_joined chg \<and> \<not> IsZero (chg_joined chg))"
      | "IsZero (chg_left chg)" "pend_of pend c m = Some u" "\<not> (c = chg_joined chg \<and> \<not> IsZero (chg_joined chg))"
      | "\<not> Moved chg" "pend_of pend c m = Some u" "c \<noteq> chg_joined chg"
      using u True stays by (auto simp: pend_of_note_change split: if_splits)
    then show ?thesis
    proof cases
      case 3
      have "here c m p = None" using here_before [OF inv chg 3(1)] True by simp
      then show ?thesis using 3 after True t by (auto simp: pend_truth_def)
    next
      case 4
      then have "here c m p = None"
        using Apply_change_was [OF inv chg] True by (simp add: here_def)
      then show ?thesis using 4 after True t by (auto simp: pend_truth_def)
    next
      case 5
      then have "c \<noteq> chg_left chg" by (simp add: Moved_def)
      then have "here c m p = None" using here_before [OF inv chg] True by simp
      then show ?thesis using 5 after True t by (auto simp: pend_truth_def)
    qed (use u True after in \<open>auto simp: pend_of_note_change Moved_def split: if_splits\<close>)
  qed
qed

text \<open>And they leave nothing out: what changed is pending.\<close>

lemma note_change_complete:
  assumes inv: "proj_inv p" and chg: "Apply r p = (Some chg, p')"
  shows "here c m p' = here c m p \<or> pend_of (note_change chg pend) c m \<noteq> None"
    and "Count c p' = Count c p \<or> IsZero c \<or> pend_count (note_change chg pend) c"
proof -
  show "here c m p' = here c m p \<or> pend_of (note_change chg pend) c m \<noteq> None"
  proof (cases "m = chg_member chg \<and> c = chg_left chg \<and> IsZero c")
    case True
    then have "here c m p = None"
      using Apply_change_was [OF inv chg] by (auto simp: here_def)
    then show ?thesis
      using True here_change [OF inv chg, of c m] Apply_stays_joined [OF inv chg]
      by (auto simp: pend_of_note_change)
  next
    case False
    then show ?thesis
      using here_change [OF inv chg, of c m] here_before [OF inv chg, of c]
        Apply_stays_joined [OF inv chg]
      by (auto simp: pend_of_note_change Moved_def)
  qed
  show "Count c p' = Count c p \<or> IsZero c \<or> pend_count (note_change chg pend) c"
    using Count_change [OF inv chg, of c] by (auto simp: pend_count_note_change)
qed

subsection \<open>The events of a hub\<close>

datatype hub_event =
    EvAddChannel ID
  | EvAttach ClientID Principal
  | EvDetach ClientID
  | EvSubscribe ClientID ID
  | EvUnsubscribe ClientID ID
  | EvReport PresenceReport
  | EvFlush

text \<open>
  One call on the hub and the messages it sends: the reply to the client that asked, or the
  deliveries of a flush.  \<open>None\<close> is a panic.
\<close>

fun hub_do :: "grantor option \<Rightarrow> hub_event \<Rightarrow> PresenceHub \<Rightarrow> (PresenceDelivery list \<times> PresenceHub) option"
where
  "hub_do g (EvAddChannel c) h =
     (case HubAddChannel c h of Inl _ \<Rightarrow> Some ([], h) | Inr h' \<Rightarrow> Some ([], h'))"
| "hub_do g (EvAttach i v) h =
     (case Attach g i v h of
        Inl _ \<Rightarrow> Some ([], h)
      | Inr (msg, h') \<Rightarrow> Some ([\<lparr>dl_client = i, dl_message = msg\<rparr>], h'))"
| "hub_do g (EvDetach i) h = Some ([], Detach i h)"
| "hub_do g (EvSubscribe i c) h =
     (case Subscribe g i c h of
        Inl _ \<Rightarrow> Some ([], h)
      | Inr (msg, h') \<Rightarrow> Some ([\<lparr>dl_client = i, dl_message = msg\<rparr>], h'))"
| "hub_do g (EvUnsubscribe i c) h = Some ([], Unsubscribe i c h)"
| "hub_do g (EvReport r) h = Some ([], snd (HubApply r h))"
| "hub_do g EvFlush h = Flush g h"

fun run_hub :: "grantor option \<Rightarrow> hub_event list \<Rightarrow> PresenceHub \<Rightarrow> (PresenceDelivery list \<times> PresenceHub) option"
where
  "run_hub g [] h = Some ([], h)"
| "run_hub g (ev # evs) h =
     (case hub_do g ev h of
        None \<Rightarrow> None
      | Some (out, h') \<Rightarrow>
          (case run_hub g evs h' of None \<Rightarrow> None | Some (out', h'') \<Rightarrow> Some (out @ out', h'')))"

text \<open>The hubs that occur: the grants may answer differently at every call.\<close>

inductive hub_reachable :: "PresenceHub \<Rightarrow> bool" where
  new: "NewPresenceHub sp g = Inr h \<Longrightarrow> hub_reachable h"
| event: "hub_reachable h \<Longrightarrow> hub_do g ev h = Some (out, h') \<Longrightarrow> hub_reachable h'"

subsection \<open>The invariant of the hub\<close>

definition hub_inv :: "PresenceHub \<Rightarrow> bool" where
  "hub_inv h \<longleftrightarrow>
     distinct (hub_channels h) \<and> set (hub_channels h) = {c. flagged (hub_known h) c} \<and>
     (\<forall>c. flagged (hub_known h) c \<longrightarrow> \<not> IsZero c) \<and>
     gm_ok (hub_clients h) \<and> distinct (hub_attached h) \<and>
     set (hub_attached h) = dom (map_of (hub_clients h)) \<and>
     pend_ok (hub_pending h) \<and> pend_truth (hub_pending h) (hub_projection h) \<and>
     proj_inv (hub_projection h)"

lemma hub_inv_new: "NewPresenceHub sp g = Inr h \<Longrightarrow> hub_inv h"
  by (auto simp: NewPresenceHub_def hub_inv_def flagged_def pend_truth_def proj_inv_new split: if_splits)

lemma hub_inv_AddChannel: "hub_inv h \<Longrightarrow> HubAddChannel c h = Inr h' \<Longrightarrow> hub_inv h'"
  by (auto simp: HubAddChannel_def hub_inv_def split: if_splits)

lemma hub_inv_Attach: "hub_inv h \<Longrightarrow> Attach g i v h = Inr (msg, h') \<Longrightarrow> hub_inv h'"
  by (auto simp: Attach_def hub_inv_def Let_def split: if_splits)

lemma hub_inv_Detach: "hub_inv h \<Longrightarrow> hub_inv (Detach i h)"
  by (auto simp: Detach_def hub_inv_def)

lemma hub_inv_clients:
  "hub_inv h \<Longrightarrow> gm_has (hub_clients h) i \<Longrightarrow>
     hub_inv (h\<lparr>hub_clients := AList.update i c (hub_clients h)\<rparr>)"
  by (auto simp: hub_inv_def)

lemma hub_inv_Subscribe: "hub_inv h \<Longrightarrow> Subscribe g i c h = Inr (msg, h') \<Longrightarrow> hub_inv h'"
  by (auto simp: Subscribe_def Let_def hub_inv_clients split: option.splits if_splits)

lemma hub_inv_Unsubscribe: "hub_inv h \<Longrightarrow> hub_inv (Unsubscribe i c h)"
  by (auto simp: Unsubscribe_def hub_inv_clients split: option.splits)

lemma HubApply_cases:
  obtains (silent) p where "Apply r (hub_projection h) = (None, p)"
      "snd (HubApply r h) = h\<lparr>hub_projection := p\<rparr>"
    | (change) chg p where "Apply r (hub_projection h) = (Some chg, p)"
      "snd (HubApply r h) = h\<lparr>hub_projection := p, hub_pending := note_change chg (hub_pending h)\<rparr>"
  by (cases "Apply r (hub_projection h)"; cases "fst (Apply r (hub_projection h))")
    (auto simp: HubApply_def)

lemma hub_inv_HubApply: "hub_inv h \<Longrightarrow> hub_inv (snd (HubApply r h))"
proof -
  assume inv: "hub_inv h"
  then have p: "proj_inv (hub_projection h)" "pend_truth (hub_pending h) (hub_projection h)"
    by (simp_all add: hub_inv_def)
  show ?thesis
  proof (cases rule: HubApply_cases [of r h])
    case (silent q)
    then show ?thesis
      using inv Apply_inv' [OF p(1)] pend_truth_silent [OF p(2)] by (simp add: hub_inv_def)
  next
    case (change chg q)
    then show ?thesis
      using inv Apply_inv' [OF p(1)] pend_truth_change [OF p(1) _ p(2)] by (simp add: hub_inv_def)
  qed
qed

subsection \<open>What a flush sends\<close>

definition changed_channels :: "PresenceHub \<Rightarrow> ID list" where
  "changed_channels h = filter (gm_has (hub_pending h)) (hub_channels h)"

lemma flush_message_fold:
  "fold (flush_channel g h c) chs msg =
     \<lparr>msg_snapshot = msg_snapshot msg,
      msg_counts = msg_counts msg @
        map (\<lambda>ch. \<lparr>cu_channel = ch, cu_count = Count ch (hub_projection h)\<rparr>)
          (filter (\<lambda>ch. visible g h c ch \<and> pend_count (hub_pending h) ch) chs),
      msg_members = msg_members msg @
        concat (map (\<lambda>ch. sortedMemberUpdates (pc_members (pendingFor ch (hub_pending h))))
          (filter (\<lambda>ch. visible g h c ch \<and> flagged (cl_subscribed c) ch) chs))\<rparr>"
  by (induction chs arbitrary: msg) (simp_all add: flush_channel_def pend_count_def Let_def)

lemma flush_message_simps [simp]:
  "msg_snapshot (flush_message g h chs c) = False"
  "msg_counts (flush_message g h chs c) =
     map (\<lambda>ch. \<lparr>cu_channel = ch, cu_count = Count ch (hub_projection h)\<rparr>)
       (filter (\<lambda>ch. visible g h c ch \<and> pend_count (hub_pending h) ch) chs)"
  "msg_members (flush_message g h chs c) =
     concat (map (\<lambda>ch. sortedMemberUpdates (pc_members (pendingFor ch (hub_pending h))))
       (filter (\<lambda>ch. visible g h c ch \<and> flagged (cl_subscribed c) ch) chs))"
  by (simp_all add: flush_message_def flush_message_fold zero_PresenceMessage_def)

definition delivery_for :: "grantor option \<Rightarrow> PresenceHub \<Rightarrow> ClientID \<Rightarrow> PresenceDelivery" where
  "delivery_for g h i =
     \<lparr>dl_client = i,
      dl_message = flush_message g h (changed_channels h) (the (map_of (hub_clients h) i))\<rparr>"

lemma flush_clients_Some:
  "set ids \<subseteq> dom (map_of (hub_clients h)) \<Longrightarrow>
     flush_clients g h (changed_channels h) ids =
       Some (filter (\<lambda>d. \<not> Empty (dl_message d)) (map (delivery_for g h) ids))"
  by (induction ids) (auto simp: delivery_for_def Let_def)

lemma changed_Nil: "hub_pending h = [] \<Longrightarrow> changed_channels h = []"
  by (simp add: changed_channels_def)

lemma Flush_eq:
  assumes "hub_inv h"
  shows "Flush g h =
     Some (filter (\<lambda>d. \<not> Empty (dl_message d)) (map (delivery_for g h) (hub_attached h)),
           h\<lparr>hub_pending := []\<rparr>)"
proof (cases "hub_pending h = []")
  case True
  then have "Empty (dl_message (delivery_for g h i))" for i
    by (simp add: delivery_for_def changed_Nil Empty_def)
  with True show ?thesis by (simp add: Flush_def)
next
  case False
  have "set (hub_attached h) \<subseteq> dom (map_of (hub_clients h))"
    using assms by (simp add: hub_inv_def)
  from flush_clients_Some [OF this, of g] show ?thesis
    using False by (simp add: Flush_def Let_def changed_channels_def)
qed

lemma hub_inv_Flush: "hub_inv h \<Longrightarrow> Flush g h = Some (out, h') \<Longrightarrow> hub_inv h'"
  by (auto simp: Flush_eq) (simp add: hub_inv_def pend_truth_def)

lemma hub_do_inv: "hub_inv h \<Longrightarrow> hub_do g ev h = Some (out, h') \<Longrightarrow> hub_inv h'"
  by (cases ev)
    (auto split: sum.splits intro: hub_inv_AddChannel hub_inv_Attach hub_inv_Detach
      hub_inv_Subscribe hub_inv_Unsubscribe hub_inv_HubApply hub_inv_Flush)

lemma hub_reachable_inv: "hub_reachable h \<Longrightarrow> hub_inv h"
  by (induction rule: hub_reachable.induct) (auto intro: hub_inv_new hub_do_inv)

lemma hub_do_total: "hub_inv h \<Longrightarrow> \<exists>out h'. hub_do g ev h = Some (out, h')"
  by (cases ev) (auto simp: Flush_eq split: sum.splits)

lemma run_hub_total: "hub_inv h \<Longrightarrow> \<exists>out h'. run_hub g evs h = Some (out, h')"
proof (induction evs arbitrary: h)
  case (Cons ev evs)
  obtain out h' where "hub_do g ev h = Some (out, h')" using hub_do_total [OF Cons.prems] by blast
  then show ?case using Cons.IH [OF hub_do_inv [OF Cons.prems]] by fastforce
qed simp

lemma set_sortedMemberUpdates:
  assumes "pend_ok pend"
  shows "u \<in> set (sortedMemberUpdates (pc_members (pendingFor c pend))) \<longleftrightarrow>
    (\<exists>m. pend_of pend c m = Some u)"
proof -
  have "gm_ok (pc_members (pendingFor c pend))"
    using assms by (simp add: pend_ok_def)
  from gm_mem [OF this]
  have "(m, u) \<in> set (pc_members (pendingFor c pend)) \<longleftrightarrow> pend_of pend c m = Some u" for m
    by (simp add: pend_of_def)
  moreover have "u \<in> snd ` set xs \<longleftrightarrow> (\<exists>m. (m, u) \<in> set xs)" for xs :: "(ID \<times> PresenceMemberUpdate) list"
    by force
  ultimately show ?thesis by (simp add: sortedMemberUpdates_def)
qed

lemma changed_iff: "hub_inv h \<Longrightarrow> c \<in> set (changed_channels h) \<longleftrightarrow>
    flagged (hub_known h) c \<and> gm_has (hub_pending h) c"
  by (auto simp: changed_channels_def hub_inv_def)

lemma visible_known: "visible g h c ch \<Longrightarrow> flagged (hub_known h) ch"
  by (simp add: visible_def split: if_splits)

lemma delivery_counts:
  assumes "hub_inv h" and "map_of (hub_clients h) i = Some c"
  shows "set (msg_counts (dl_message (delivery_for g h i))) =
    {\<lparr>cu_channel = ch, cu_count = Count ch (hub_projection h)\<rparr> | ch.
       visible g h c ch \<and> pend_count (hub_pending h) ch}"
  using assms pend_has [of "hub_pending h"]
  by (auto simp: delivery_for_def changed_iff visible_known)

lemma delivery_members:
  assumes "hub_inv h" and "map_of (hub_clients h) i = Some c"
  shows "u \<in> set (msg_members (dl_message (delivery_for g h i))) \<longleftrightarrow>
    (\<exists>ch m. visible g h c ch \<and> flagged (cl_subscribed c) ch \<and> pend_of (hub_pending h) ch m = Some u)"
proof -
  have ok: "pend_ok (hub_pending h)" using assms(1) by (simp add: hub_inv_def)
  have "u \<in> set (msg_members (dl_message (delivery_for g h i))) \<longleftrightarrow>
      (\<exists>ch. ch \<in> set (changed_channels h) \<and> visible g h c ch \<and> flagged (cl_subscribed c) ch \<and>
        (\<exists>m. pend_of (hub_pending h) ch m = Some u))"
    using assms(2) by (simp add: delivery_for_def set_sortedMemberUpdates [OF ok])
  moreover have "ch \<in> set (changed_channels h)"
    if "visible g h c ch" "pend_of (hub_pending h) ch m = Some u" for ch m
    using pend_has [of "hub_pending h" ch m] visible_known [OF that(1)] that(2) assms(1)
    by (simp add: changed_iff)
  ultimately show ?thesis by blast
qed

lemma delivered:
  assumes "hub_inv h" and "Flush g h = Some (out, h')" and "d \<in> set out"
  shows "d = delivery_for g h (dl_client d) \<and> (\<exists>c. map_of (hub_clients h) (dl_client d) = Some c)"
proof -
  obtain i where i: "i \<in> set (hub_attached h)" "d = delivery_for g h i"
    using assms(2,3) by (auto simp: Flush_eq [OF assms(1)])
  have c: "dl_client d = i" by (simp add: i(2) delivery_for_def)
  show ?thesis unfolding c using i assms(1) by (auto simp: hub_inv_def)
qed

text \<open>The channels a message is about.\<close>

definition told_of :: "PresenceMessage \<Rightarrow> ID set" where
  "told_of msg = cu_channel ` set (msg_counts msg) \<union> mu_channel ` set (msg_members msg)"

lemma told_of_visible:
  assumes "hub_inv h" and "map_of (hub_clients h) i = Some c" and "ch \<in> told_of (dl_message (delivery_for g h i))"
  shows "visible g h c ch"
proof -
  have "pend_truth (hub_pending h) (hub_projection h)" using assms(1) by (simp add: hub_inv_def)
  then show ?thesis
    using assms(3) delivery_counts [OF assms(1,2), of g] delivery_members [OF assms(1,2), of _ g]
    by (auto simp: told_of_def pend_truth_def)
qed

subsection \<open>What a client makes of its messages\<close>

text \<open>
  A client keeps the last count it was told for each channel and, for the channels it shows, the
  last it was told of each member.  A snapshot replaces the membership of the channels it counts.
\<close>

record client_view =
  cv_counts :: "ID \<Rightarrow> int option"
  cv_members :: "ID \<Rightarrow> ID \<Rightarrow> Presence option"

definition new_view :: client_view where
  "new_view = \<lparr>cv_counts = (\<lambda>_. None), cv_members = (\<lambda>_ _. None)\<rparr>"

definition learn_count :: "PresenceCountUpdate \<Rightarrow> (ID \<Rightarrow> int option) \<Rightarrow> ID \<Rightarrow> int option" where
  "learn_count u f = f(cu_channel u \<mapsto> cu_count u)"

definition learn_member ::
    "PresenceMemberUpdate \<Rightarrow> (ID \<Rightarrow> ID \<Rightarrow> Presence option) \<Rightarrow> ID \<Rightarrow> ID \<Rightarrow> Presence option" where
  "learn_member u f = f(mu_channel u := (f (mu_channel u))(mu_member u := tells u))"

definition learn :: "PresenceMessage \<Rightarrow> client_view \<Rightarrow> client_view" where
  "learn msg cv =
     \<lparr>cv_counts = fold learn_count (msg_counts msg) (cv_counts cv),
      cv_members = fold learn_member (msg_members msg)
        (\<lambda>ch m. if msg_snapshot msg \<and> ch \<in> set (map cu_channel (msg_counts msg)) then None
                else cv_members cv ch m)\<rparr>"

definition learn_all :: "ClientID \<Rightarrow> PresenceDelivery list \<Rightarrow> client_view \<Rightarrow> client_view" where
  "learn_all i out cv =
     fold learn (map dl_message (filter (\<lambda>d. dl_client d = i) out)) cv"

lemma learn_member_apply:
  "learn_member u f ch m = (if mu_channel u = ch \<and> mu_member u = m then tells u else f ch m)"
  by (simp add: learn_member_def)

lemma fold_learn_count:
  "(\<forall>u \<in> set us. cu_count u = F (cu_channel u)) \<Longrightarrow>
     fold learn_count us f ch = (if ch \<in> cu_channel ` set us then Some (F ch) else f ch)"
  by (induction us arbitrary: f) (auto simp: learn_count_def)

lemma fold_learn_member:
  "(\<forall>u \<in> set us. tells u = F (mu_channel u) (mu_member u)) \<Longrightarrow>
     fold learn_member us f ch m =
       (if \<exists>u \<in> set us. mu_channel u = ch \<and> mu_member u = m then F ch m else f ch m)"
proof (induction us arbitrary: f)
  case (Cons u us)
  then have "fold learn_member us (learn_member u f) ch m =
      (if \<exists>u \<in> set us. mu_channel u = ch \<and> mu_member u = m then F ch m else learn_member u f ch m)"
    by simp
  with Cons.prems learn_member_apply [of u f ch m] show ?case by auto
qed simp

lemma learn_all_Nil [simp]: "learn_all i [] cv = cv"
  by (simp add: learn_all_def)

lemma learn_all_append: "learn_all i (out @ out') cv = learn_all i out' (learn_all i out cv)"
  by (simp add: learn_all_def)

lemma learn_all_single [simp]:
  "learn_all i [\<lparr>dl_client = j, dl_message = msg\<rparr>] cv = (if j = i then learn msg cv else cv)"
  by (simp add: learn_all_def)

lemma learn_Empty: "Empty msg \<Longrightarrow> learn msg cv = cv"
  by (simp add: learn_def Empty_def)

lemma learn_all_flush:
  assumes "distinct ids" and "i \<in> set ids"
  shows "learn_all i (filter (\<lambda>d. \<not> Empty (dl_message d)) (map (delivery_for g h) ids)) cv =
    learn (dl_message (delivery_for g h i)) cv"
proof -
  have dl: "dl_client (delivery_for g h j) = j" for j
    by (simp add: delivery_for_def)
  have "learn_all i (filter (\<lambda>d. \<not> Empty (dl_message d)) (map (delivery_for g h) js)) cv = cv"
    if "i \<notin> set js" for js cv
    using that by (induction js) (auto simp: learn_all_def dl)
  then show ?thesis
    using assms by (induction ids arbitrary: cv) (auto simp: learn_all_def dl learn_Empty)
qed

text \<open>
  The view of an attached client is right up to what is pending: a channel's count, and for a
  channel it shows each member's presence, is either what the projection says or due at the next
  flush.
\<close>

definition may_see :: "grantor option \<Rightarrow> PresenceHub \<Rightarrow> Principal \<Rightarrow> ID \<Rightarrow> bool" where
  "may_see g h v ch \<longleftrightarrow>
     flagged (hub_known h) ch \<and> Allow g v SeeChannel (ChannelSubject (hub_space h) ch)"

lemma visible_may_see: "visible g h c ch \<longleftrightarrow> may_see g h (cl_viewer c) ch"
  by (simp add: visible_def may_see_def)

definition showing :: "PresenceHub \<Rightarrow> ClientID \<Rightarrow> ID \<Rightarrow> bool" where
  "showing h i ch \<longleftrightarrow>
     (case map_of (hub_clients h) i of None \<Rightarrow> False | Some c \<Rightarrow> flagged (cl_subscribed c) ch)"

definition view_ok :: "grantor option \<Rightarrow> ClientID \<Rightarrow> Principal \<Rightarrow> PresenceHub \<Rightarrow> client_view \<Rightarrow> bool" where
  "view_ok g i v h cv \<longleftrightarrow>
     map_option cl_viewer (map_of (hub_clients h) i) = Some v \<and>
     (\<forall>ch. if may_see g h v ch
           then pend_count (hub_pending h) ch \<or> cv_counts cv ch = Some (Count ch (hub_projection h))
           else cv_counts cv ch = None) \<and>
     (\<forall>ch m. may_see g h v ch \<and> showing h i ch \<longrightarrow>
        pend_of (hub_pending h) ch m \<noteq> None \<or> cv_members cv ch m = here ch m (hub_projection h))"

lemma view_ok_cong:
  assumes "view_ok g i v h cv"
    and "hub_space h' = hub_space h" "hub_known h' = hub_known h"
    and "hub_projection h' = hub_projection h" "hub_pending h' = hub_pending h"
    and "map_option cl_viewer (map_of (hub_clients h') i) = Some v"
    and "\<And>ch. showing h' i ch \<Longrightarrow> showing h i ch"
  shows "view_ok g i v h' cv"
  using assms by (simp add: view_ok_def may_see_def)

lemma view_ok_clients:
  assumes "view_ok g i v h cv" and "j \<noteq> i"
  shows "view_ok g i v (h\<lparr>hub_clients := AList.update j c (hub_clients h)\<rparr>) cv"
    and "view_ok g i v (h\<lparr>hub_clients := AList.update j c (hub_clients h), hub_attached := a\<rparr>) cv"
    and "view_ok g i v (h\<lparr>hub_clients := AList.delete j (hub_clients h), hub_attached := a\<rparr>) cv"
proof -
  have v: "map_option cl_viewer (map_of (hub_clients h) i) = Some v"
    using assms(1) by (simp add: view_ok_def)
  show "view_ok g i v (h\<lparr>hub_clients := AList.update j c (hub_clients h)\<rparr>) cv"
    by (rule view_ok_cong [OF assms(1)]) (use assms(2) v in \<open>simp_all add: showing_def\<close>)
  show "view_ok g i v (h\<lparr>hub_clients := AList.update j c (hub_clients h), hub_attached := a\<rparr>) cv"
    by (rule view_ok_cong [OF assms(1)]) (use assms(2) v in \<open>simp_all add: showing_def\<close>)
  show "view_ok g i v (h\<lparr>hub_clients := AList.delete j (hub_clients h), hub_attached := a\<rparr>) cv"
    by (rule view_ok_cong [OF assms(1)]) (use assms(2) v in \<open>simp_all add: showing_def\<close>)
qed

lemma view_ok_report:
  assumes inv: "hub_inv h" and ok: "view_ok g i v h cv"
  shows "view_ok g i v (snd (HubApply r h)) cv"
proof -
  have p: "proj_inv (hub_projection h)" using inv by (simp add: hub_inv_def)
  have nz: "\<not> IsZero ch" if "may_see g h v ch" for ch
    using that inv by (simp add: hub_inv_def may_see_def)
  show ?thesis
  proof (cases rule: HubApply_cases [of r h])
    case (silent q)
    have "here ch m q = here ch m (hub_projection h)" for ch m
      using Apply_silent [OF silent(1)] by (simp add: here_def)
    then show ?thesis
      using ok silent(2) Count_silent [OF p silent(1)]
      by (simp add: view_ok_def may_see_def showing_def)
  next
    case (change chg q)
    let ?n = "note_change chg (hub_pending h)"
    have c: "pend_count ?n ch \<or> cv_counts cv ch = Some (Count ch q)" if see: "may_see g h v ch" for ch
    proof -
      have "pend_count (hub_pending h) ch \<or> cv_counts cv ch = Some (Count ch (hub_projection h))"
        using ok see by (simp add: view_ok_def)
      then show ?thesis
        using note_change_complete(2) [OF p change(1), of ch "hub_pending h"] nz [OF see]
        by (auto simp: pend_count_note_change)
    qed
    have m: "pend_of ?n ch m \<noteq> None \<or> cv_members cv ch m = here ch m q"
      if see: "may_see g h v ch" "showing h i ch" for ch m
    proof -
      have "pend_of (hub_pending h) ch m \<noteq> None \<or> cv_members cv ch m = here ch m (hub_projection h)"
        using ok see by (simp add: view_ok_def)
      then show ?thesis
        using note_change_complete(1) [OF p change(1), of ch m "hub_pending h"]
        by (auto simp: pend_of_note_change)
    qed
    show ?thesis
      using ok change(2) c m by (simp add: view_ok_def may_see_def showing_def)
  qed
qed

lemma view_ok_flush:
  assumes inv: "hub_inv h" and ok: "view_ok g i v h cv"
  shows "view_ok g i v (h\<lparr>hub_pending := []\<rparr>) (learn (dl_message (delivery_for g h i)) cv)"
proof -
  obtain c where c: "map_of (hub_clients h) i = Some c" "cl_viewer c = v"
    using ok by (auto simp: view_ok_def)
  let ?msg = "dl_message (delivery_for g h i)" and ?p = "hub_projection h"
  note cnt = delivery_counts [OF inv c(1), of g] and mem = delivery_members [OF inv c(1), of _ g]
  have truth: "pend_truth (hub_pending h) ?p" using inv by (simp add: hub_inv_def)
  have snap: "msg_snapshot ?msg = False"
    by (simp add: delivery_for_def)
  have counted: "ch \<in> cu_channel ` set (msg_counts ?msg) \<longleftrightarrow>
      may_see g h v ch \<and> pend_count (hub_pending h) ch" for ch
    unfolding cnt using c(2) by (force simp: visible_may_see)
  have "\<forall>u \<in> set (msg_counts ?msg). cu_count u = Count (cu_channel u) ?p"
    unfolding cnt by auto
  from fold_learn_count [OF this]
  have counts: "cv_counts (learn ?msg cv) ch =
      (if may_see g h v ch \<and> pend_count (hub_pending h) ch then Some (Count ch ?p) else cv_counts cv ch)" for ch
    by (simp add: learn_def counted)
  have "\<forall>u \<in> set (msg_members ?msg). tells u = here (mu_channel u) (mu_member u) ?p"
    using mem truth by (auto simp: pend_truth_def)
  from fold_learn_member [OF this]
  have members: "cv_members (learn ?msg cv) ch m =
      (if \<exists>u \<in> set (msg_members ?msg). mu_channel u = ch \<and> mu_member u = m then here ch m ?p
       else cv_members cv ch m)" for ch m
    by (simp add: learn_def snap)
  have listed: "\<exists>u \<in> set (msg_members ?msg). mu_channel u = ch \<and> mu_member u = m"
    if see: "may_see g h v ch" "showing h i ch" and due: "pend_of (hub_pending h) ch m \<noteq> None" for ch m
  proof -
    obtain u where u: "pend_of (hub_pending h) ch m = Some u" using due by blast
    then have "u \<in> set (msg_members ?msg)"
      using see c mem by (auto simp: visible_may_see showing_def)
    then show ?thesis using u truth by (auto simp: pend_truth_def)
  qed
  have same: "may_see g (h\<lparr>hub_pending := []\<rparr>) v d = may_see g h v d"
    "showing (h\<lparr>hub_pending := []\<rparr>) i d = showing h i d" for d
    by (simp_all add: may_see_def showing_def)
  show ?thesis
    unfolding view_ok_def same
  proof (intro conjI allI impI)
    show "map_option cl_viewer (map_of (hub_clients (h\<lparr>hub_pending := []\<rparr>)) i) = Some v"
      using c by simp
    have old: "if may_see g h v d then pend_count (hub_pending h) d \<or> cv_counts cv d = Some (Count d ?p)
        else cv_counts cv d = None" for d
      using ok by (simp add: view_ok_def)
    show "if may_see g h v d
        then pend_count (hub_pending (h\<lparr>hub_pending := []\<rparr>)) d \<or>
          cv_counts (learn ?msg cv) d = Some (Count d (hub_projection (h\<lparr>hub_pending := []\<rparr>)))
        else cv_counts (learn ?msg cv) d = None" for d
      using old [of d] unfolding counts by (cases "may_see g h v d") auto
    show "pend_of (hub_pending (h\<lparr>hub_pending := []\<rparr>)) d m \<noteq> None \<or>
        cv_members (learn ?msg cv) d m = here d m (hub_projection (h\<lparr>hub_pending := []\<rparr>))"
      if "may_see g h v d \<and> showing h i d" for d m
    proof -
      have "pend_of (hub_pending h) d m \<noteq> None \<or> cv_members cv d m = here d m ?p"
        using ok that by (simp add: view_ok_def)
      then show ?thesis
        using listed [of d m] that unfolding members by auto
    qed
  qed
qed

lemma view_ok_attach:
  assumes inv: "hub_inv h" and att: "Attach g i v h = Inr (msg, h')"
  shows "view_ok g i v h' (learn msg new_view)"
proof -
  let ?c = "\<lparr>cl_viewer = v, cl_subscribed = []\<rparr>"
  have h': "map_of (hub_clients h') i = Some ?c" "hub_known h' = hub_known h"
      "hub_projection h' = hub_projection h" "hub_channels h' = hub_channels h"
    and msg: "msg = \<lparr>msg_snapshot = True, msg_counts =
        map (\<lambda>ch. \<lparr>cu_channel = ch, cu_count = Count ch (hub_projection h')\<rparr>)
          (filter (visible g h' ?c) (hub_channels h')), msg_members = []\<rparr>"
    using att by (auto simp: Attach_def Let_def split: if_splits)
  have "\<forall>u \<in> set (msg_counts msg). cu_count u = Count (cu_channel u) (hub_projection h')"
    by (auto simp: msg)
  from fold_learn_count [OF this]
  have "cv_counts (learn msg new_view) ch =
      (if ch \<in> cu_channel ` set (msg_counts msg) then Some (Count ch (hub_projection h')) else None)" for ch
    by (simp add: learn_def new_view_def)
  moreover have "ch \<in> cu_channel ` set (msg_counts msg) \<longleftrightarrow> may_see g h' v ch" for ch
    using inv h' by (auto simp: msg visible_may_see hub_inv_def may_see_def image_iff)
  ultimately show ?thesis
    by (simp add: view_ok_def h'(1) showing_def flagged_def)
qed

lemma view_ok_unsubscribe:
  assumes ok: "view_ok g i v h cv"
  shows "view_ok g i v (Unsubscribe j c h) cv"
proof (cases "map_of (hub_clients h) j")
  case None
  then show ?thesis using ok by (simp add: Unsubscribe_def)
next
  case (Some cl)
  show ?thesis
  proof (rule view_ok_cong [OF ok])
    show "map_option cl_viewer (map_of (hub_clients (Unsubscribe j c h)) i) = Some v"
      using ok Some by (auto simp: Unsubscribe_def view_ok_def)
    show "showing h i ch" if "showing (Unsubscribe j c h) i ch" for ch
      using that Some by (auto simp: Unsubscribe_def showing_def split: if_splits)
  qed (simp_all add: Unsubscribe_def Some)
qed

lemma view_ok_subscribe:
  assumes inv: "hub_inv h" and ok: "view_ok g i v h cv" and sub: "Subscribe g i ch h = Inr (msg, h')"
  shows "view_ok g i v h' (learn msg cv)"
proof -
  obtain c where c: "map_of (hub_clients h) i = Some c" "cl_viewer c = v"
    using ok by (auto simp: view_ok_def)
  let ?p = "hub_projection h"
  have see: "may_see g h v ch"
    and msg: "msg_snapshot msg = True" "msg_counts msg = [\<lparr>cu_channel = ch, cu_count = Count ch ?p\<rparr>]"
      "msg_members msg = map (\<lambda>pr. \<lparr>mu_channel = ch, mu_member = pres_member pr, mu_present = True,
         mu_now = pr\<rparr>) (Presence_Occupants ch ?p)"
    and h': "h' = h\<lparr>hub_clients := AList.update i
        (c\<lparr>cl_subscribed := AList.update ch True (cl_subscribed c)\<rparr>) (hub_clients h)\<rparr>"
    using sub c by (auto simp: Subscribe_def Let_def visible_may_see split: if_splits)
  have p: "proj_inv ?p" using inv by (simp add: hub_inv_def)
  have listed: "set (Presence_Occupants ch ?p) = {w. \<exists>m. Where m ?p = Some w \<and> pres_channel w = ch}"
    by (rule set_Presence_Occupants [OF p])
  have named: "pres_member w = m" if "Where m ?p = Some w" for m w
    using p that by (simp add: proj_inv_def)
  have "\<forall>u \<in> set (msg_members msg). tells u = here (mu_channel u) (mu_member u) ?p"
    using named by (auto simp: msg listed tells_def here_def)
  from fold_learn_member [OF this]
  have members: "cv_members (learn msg cv) d m =
      (if \<exists>u \<in> set (msg_members msg). mu_channel u = d \<and> mu_member u = m then here d m ?p
       else if d = ch then None else cv_members cv d m)" for d m
    by (simp add: learn_def msg(1,2))
  have "here ch m ?p = None" if "\<not> (\<exists>u \<in> set (msg_members msg). mu_channel u = ch \<and> mu_member u = m)" for m
    using that named by (auto simp: msg listed here_def split: option.splits)
  then have now: "cv_members (learn msg cv) ch m = here ch m ?p" for m
    by (simp add: members)
  have others: "cv_members (learn msg cv) d m = cv_members cv d m" if "d \<noteq> ch" for d m
    using that by (auto simp: members msg)
  have counts: "cv_counts (learn msg cv) d = (if d = ch then Some (Count ch ?p) else cv_counts cv d)" for d
    by (simp add: learn_def msg(2) learn_count_def)
  have shows_old: "showing h' i d \<longleftrightarrow> d = ch \<or> showing h i d" for d
    by (simp add: h' showing_def c(1))
  have see': "may_see g h' v d = may_see g h v d" for d
    by (simp add: h' may_see_def)
  show ?thesis
    unfolding view_ok_def see' shows_old
  proof (intro conjI allI impI)
    show "map_option cl_viewer (map_of (hub_clients h') i) = Some v"
      using c by (simp add: h')
    show "if may_see g h v d
        then pend_count (hub_pending h') d \<or> cv_counts (learn msg cv) d = Some (Count d (hub_projection h'))
        else cv_counts (learn msg cv) d = None" for d
      using ok see by (auto simp: h' counts view_ok_def)
    show "pend_of (hub_pending h') d m \<noteq> None \<or> cv_members (learn msg cv) d m = here d m (hub_projection h')"
      if "may_see g h v d \<and> (d = ch \<or> showing h i d)" for d m
      using ok that now others by (cases "d = ch") (auto simp: h' view_ok_def)
  qed
qed

fun keeps_client :: "ClientID \<Rightarrow> hub_event \<Rightarrow> bool" where
  "keeps_client i (EvDetach j) \<longleftrightarrow> j \<noteq> i"
| "keeps_client i (EvAddChannel c) \<longleftrightarrow> False"
| "keeps_client i _ \<longleftrightarrow> True"

lemma view_ok_do:
  assumes inv: "hub_inv h" and ok: "view_ok g i v h cv" and keeps: "keeps_client i ev"
    and run: "hub_do g ev h = Some (out, h')"
  shows "view_ok g i v h' (learn_all i out cv)"
proof (cases ev)
  case (EvAttach j w)
  have "gm_has (hub_clients h) i" using ok by (auto simp: view_ok_def)
  then show ?thesis
    using EvAttach run ok
    by (cases "j = i")
      (auto simp: Attach_def Let_def view_ok_clients(2) split: sum.splits if_splits)
next
  case (EvDetach j)
  then show ?thesis using run ok keeps by (auto simp: Detach_def view_ok_clients(3))
next
  case (EvSubscribe j c)
  show ?thesis
  proof (cases "Subscribe g j c h")
    case (Inl err)
    then show ?thesis using EvSubscribe run ok by simp
  next
    case (Inr r)
    obtain msg k where r: "r = (msg, k)" by (cases r)
    show ?thesis
    proof (cases "j = i")
      case True
      then show ?thesis using EvSubscribe run Inr r view_ok_subscribe [OF inv ok] by auto
    next
      case False
      then show ?thesis
        using EvSubscribe run Inr r ok
        by (auto simp: Subscribe_def Let_def view_ok_clients(1) split: option.splits if_splits)
    qed
  qed
next
  case (EvUnsubscribe j c)
  then show ?thesis using run view_ok_unsubscribe [OF ok, of j c] by auto
next
  case (EvReport r)
  then show ?thesis using run view_ok_report [OF inv ok, of r] by auto
next
  case EvFlush
  have "i \<in> set (hub_attached h)" "distinct (hub_attached h)"
    using inv ok by (auto simp: hub_inv_def view_ok_def)
  then show ?thesis
    using EvFlush run view_ok_flush [OF inv ok] by (auto simp: Flush_eq [OF inv] learn_all_flush)
qed (use keeps in simp)

lemma view_ok_run:
  "hub_inv h \<Longrightarrow> view_ok g i v h cv \<Longrightarrow> list_all (keeps_client i) evs \<Longrightarrow>
     run_hub g evs h = Some (out, h') \<Longrightarrow> view_ok g i v h' (learn_all i out cv)"
proof (induction evs arbitrary: h cv out)
  case (Cons ev evs)
  from Cons.prems(4) obtain o1 h1 o2 where
    steps: "hub_do g ev h = Some (o1, h1)" "run_hub g evs h1 = Some (o2, h')" "out = o1 @ o2"
    by (auto split: option.splits)
  have "view_ok g i v h1 (learn_all i o1 cv)"
    using view_ok_do [OF Cons.prems(1,2) _ steps(1)] Cons.prems(3) by simp
  then show ?case
    using Cons.IH [OF hub_do_inv [OF Cons.prems(1) steps(1)] _ _ steps(2)] Cons.prems(3) steps(3)
    by (simp add: learn_all_append)
qed simp

lemma run_hub_append:
  "run_hub g (evs @ evs') h =
     (case run_hub g evs h of
        None \<Rightarrow> None
      | Some (out, h') \<Rightarrow>
          (case run_hub g evs' h' of None \<Rightarrow> None | Some (out', h'') \<Rightarrow> Some (out @ out', h'')))"
  by (induction evs arbitrary: h) (auto split: option.splits)

lemma run_hub_inv: "hub_inv h \<Longrightarrow> run_hub g evs h = Some (out, h') \<Longrightarrow> hub_inv h'"
proof (induction evs arbitrary: h out)
  case (Cons ev evs)
  then show ?case by (auto split: option.splits dest!: hub_do_inv [OF Cons.prems(1)])
qed simp

lemma run_hub_flushed:
  "hub_inv h \<Longrightarrow> run_hub g (evs @ [EvFlush]) h = Some (out, h') \<Longrightarrow> hub_pending h' = []"
  using run_hub_inv [of h g evs] by (auto simp: run_hub_append Flush_eq split: option.splits)

lemma run_hub_reachable:
  "hub_reachable h \<Longrightarrow> run_hub g evs h = Some (out, h') \<Longrightarrow> hub_reachable h'"
proof (induction evs arbitrary: h out)
  case (Cons ev evs)
  then show ?case by (auto split: option.splits dest!: hub_reachable.event [OF Cons.prems(1)])
qed simp

subsection \<open>A small hub\<close>

definition ex_grants :: grantor where
  "ex_grants p s = NewPermissionSet [SeeChannel]"

definition ex_hub :: PresenceHub where
  "ex_hub = \<lparr>hub_space = home, hub_channels = [lobby], hub_known = [(lobby, True)],
     hub_projection = NewPresenceProjection, hub_clients = [], hub_attached = [], hub_pending = []\<rparr>"

definition ex_client :: ClientID where
  "ex_client = ''laptop''"

lemma ex_hub_reachable: "hub_reachable ex_hub"
proof -
  let ?h = "ex_hub\<lparr>hub_channels := [], hub_known := []\<rparr>"
  have "NewPresenceHub home (Some ex_grants) = Inr ?h"
    by (simp add: NewPresenceHub_def ex_hub_def)
  then have "hub_reachable ?h" by (rule hub_reachable.new)
  then show ?thesis
  proof (rule hub_reachable.event)
    show "hub_do None (EvAddChannel lobby) ?h = Some ([], ex_hub)"
      by (simp add: HubAddChannel_def ex_hub_def flagged_def)
  qed
qed

lemma ex_sees: "Allow (Some ex_grants) (Person alice) SeeChannel (ChannelSubject home lobby)"
  by (simp add: Allow_iff_may may_def ex_grants_def has_NewPermissionSet declared_range)

definition ex_attached :: PresenceHub where
  "ex_attached = ex_hub\<lparr>hub_clients := [(ex_client, \<lparr>cl_viewer = Person alice, cl_subscribed = []\<rparr>)],
     hub_attached := [ex_client]\<rparr>"

definition ex_attach_msg :: PresenceMessage where
  "ex_attach_msg =
     \<lparr>msg_snapshot = True, msg_counts = [\<lparr>cu_channel = lobby, cu_count = 0\<rparr>], msg_members = []\<rparr>"

lemma ex_Attach:
  "Attach (Some ex_grants) ex_client (Person alice) ex_hub = Inr (ex_attach_msg, ex_attached)"
  using ex_sees
  by (simp add: Attach_def ex_attach_msg_def ex_hub_def ex_attached_def ex_client_def Let_def visible_def flagged_def
      Count_def NewPresenceProjection_def)

lemma ex_attached_reachable: "hub_reachable ex_attached"
  by (rule hub_reachable.event [OF ex_hub_reachable,
        of "Some ex_grants" "EvAttach ex_client (Person alice)"]) (simp add: ex_Attach)

definition ex_busy :: PresenceHub where
  "ex_busy = snd (HubApply alice_joins ex_attached)"

lemma ex_busy_reachable: "hub_reachable ex_busy"
  by (rule hub_reachable.event [OF ex_attached_reachable, of None "EvReport alice_joins"])
    (simp add: ex_busy_def)

definition ex_delivery :: PresenceDelivery where
  "ex_delivery = \<lparr>dl_client = ex_client, dl_message =
     \<lparr>msg_snapshot = False, msg_counts = [\<lparr>cu_channel = lobby, cu_count = 1\<rparr>], msg_members = []\<rparr>\<rparr>"

lemma ex_busy_eq:
  "ex_busy = ex_attached\<lparr>hub_projection := snd (Apply alice_joins NewPresenceProjection),
     hub_pending := [(lobby, \<lparr>pc_countMoved = True, pc_members = [(alice,
       \<lparr>mu_channel = lobby, mu_member = alice, mu_present = True, mu_now =
         \<lparr>pres_channel = lobby, pres_member = alice, pres_since = time_unix 0, pres_muted = False\<rparr>\<rparr>)]\<rparr>)]\<rparr>"
  by (simp add: ex_busy_def HubApply_def ex_attached_def ex_hub_def Apply_def alice_joins_def
      NewPresenceProjection_def note_change_def Moved_def Let_def mark_count_def put_member_def
      pendingFor_def joined_update_def zero_ID_def IsZero_def)

lemma ex_busy_flush_any:
  assumes "Allow g (Person alice) SeeChannel (ChannelSubject home lobby)"
  shows "Flush g ex_busy = Some ([ex_delivery], ex_busy\<lparr>hub_pending := []\<rparr>)"
proof -
  have "visible g ex_busy \<lparr>cl_viewer = Person alice, cl_subscribed = []\<rparr> lobby"
    using assms by (simp add: visible_def ex_busy_eq ex_attached_def ex_hub_def flagged_def)
  moreover have "Count lobby (hub_projection ex_busy) = 1"
    by (simp add: ex_busy_eq Apply_def alice_joins_def NewPresenceProjection_def Let_def Count_def)
  moreover have "hub_pending ex_busy \<noteq> []" "hub_channels ex_busy = [lobby]"
      "gm_has (hub_pending ex_busy) lobby" "hub_attached ex_busy = [ex_client]"
      "hub_clients ex_busy = [(ex_client, \<lparr>cl_viewer = Person alice, cl_subscribed = []\<rparr>)]"
      "pc_countMoved (pendingFor lobby (hub_pending ex_busy))"
    by (simp_all add: ex_busy_eq ex_attached_def ex_hub_def pendingFor_def)
  ultimately show ?thesis
    by (simp add: Flush_def Let_def flush_message_def flush_channel_def flagged_def Empty_def
        zero_PresenceMessage_def ex_delivery_def)
qed

lemmas ex_busy_flush = ex_busy_flush_any [OF ex_sees]

subsection \<open>Properties\<close>

text \<open>
  C2: A client's view converges.  A client that attaches and then keeps the last of every count
  and member it is told has, after every flush, the exact count of every channel its viewer may
  see and no other, and the exact membership of each such channel it is subscribed to.  This holds
  through any reports, flushes and subscriptions and whatever other clients do, as long as the
  grants stand and the set of channels stays as it was when the client attached.
\<close>

theorem client_view_converges:
  assumes "hub_reachable h" and "Attach g i v h = Inr (msg, h0)" and "list_all (keeps_client i) evs"
  shows "\<exists>out h1. run_hub g (evs @ [EvFlush]) h0 = Some (out, h1) \<and>
     (\<forall>ch. cv_counts (learn_all i out (learn msg new_view)) ch =
        (if may_see g h1 v ch then Some (Count ch (hub_projection h1)) else None)) \<and>
     (\<forall>ch m. may_see g h1 v ch \<and> showing h1 i ch \<longrightarrow>
        cv_members (learn_all i out (learn msg new_view)) ch m = here ch m (hub_projection h1))"
proof -
  note inv = hub_reachable_inv [OF assms(1)]
  have inv0: "hub_inv h0" by (rule hub_inv_Attach [OF inv assms(2)])
  obtain out h1 where run: "run_hub g (evs @ [EvFlush]) h0 = Some (out, h1)"
    using run_hub_total [OF inv0] by blast
  have v: "view_ok g i v h1 (learn_all i out (learn msg new_view))"
    by (rule view_ok_run [OF inv0 view_ok_attach [OF inv assms(2)] _ run]) (use assms(3) in simp)
  have p: "hub_pending h1 = []" by (rule run_hub_flushed [OF inv0 run])
  have known: "if may_see g h1 v ch
      then pend_count (hub_pending h1) ch \<or>
        cv_counts (learn_all i out (learn msg new_view)) ch = Some (Count ch (hub_projection h1))
      else cv_counts (learn_all i out (learn msg new_view)) ch = None" for ch
    using v by (simp add: view_ok_def)
  have "cv_counts (learn_all i out (learn msg new_view)) ch =
      (if may_see g h1 v ch then Some (Count ch (hub_projection h1)) else None)" for ch
    using p known [of ch] by (cases "may_see g h1 v ch") simp_all
  moreover have "may_see g h1 v ch \<and> showing h1 i ch \<longrightarrow>
      cv_members (learn_all i out (learn msg new_view)) ch m = here ch m (hub_projection h1)" for ch m
    using v p by (simp add: view_ok_def)
  ultimately show ?thesis using run by blast
qed

theorem client_view_converges_witness:
  "\<exists>out h1. run_hub (Some ex_grants) ([EvReport alice_joins, EvSubscribe ex_client lobby] @ [EvFlush])
       ex_attached = Some (out, h1) \<and>
     (\<forall>ch. cv_counts (learn_all ex_client out (learn ex_attach_msg new_view)) ch =
        (if may_see (Some ex_grants) h1 (Person alice) ch
         then Some (Count ch (hub_projection h1)) else None))"
proof -
  have "list_all (keeps_client ex_client) [EvReport alice_joins, EvSubscribe ex_client lobby]"
    by simp
  from client_view_converges [OF ex_hub_reachable ex_Attach this] show ?thesis by blast
qed

text \<open>
  The fan-out bound.  Flushing a hub never panics, empties what is pending, and sends each
  attached client at most one message, in attachment order, never an empty one and never a
  snapshot.
\<close>

theorem Flush_one_message_per_client:
  assumes "hub_reachable h"
  shows "\<exists>out. Flush g h = Some (out, h\<lparr>hub_pending := []\<rparr>) \<and>
     (\<exists>P. map dl_client out = filter P (hub_attached h)) \<and> distinct (map dl_client out) \<and>
     (\<forall>d \<in> set out. \<not> Empty (dl_message d) \<and> \<not> msg_snapshot (dl_message d))"
proof -
  note inv = hub_reachable_inv [OF assms]
  let ?P = "\<lambda>i. \<not> Empty (dl_message (delivery_for g h i))"
  let ?out = "filter (\<lambda>d. \<not> Empty (dl_message d)) (map (delivery_for g h) (hub_attached h))"
  have "dl_client (delivery_for g h i) = i" and "\<not> msg_snapshot (dl_message (delivery_for g h i))" for i
    by (simp_all add: delivery_for_def)
  then have order: "map dl_client ?out = filter ?P (hub_attached h)" and "\<forall>d \<in> set ?out. \<not> Empty (dl_message d) \<and> \<not> msg_snapshot (dl_message d)"
    by (auto simp: filter_map o_def)
  moreover have "distinct (map dl_client ?out)"
    unfolding order using inv by (simp add: hub_inv_def)
  ultimately show ?thesis
    using Flush_eq [OF inv, of g] by blast
qed

theorem Flush_one_message_per_client_witness:
  "\<exists>out. Flush (Some ex_grants) ex_hub = Some (out, ex_hub\<lparr>hub_pending := []\<rparr>) \<and> distinct (map dl_client out)"
  using Flush_one_message_per_client [OF ex_hub_reachable, of "Some ex_grants"] by blast

text \<open>
  C8: Nothing is disclosed.  Whatever a flush sends a client is about a channel the hub holds and
  the client's viewer may see; a member update is moreover about a channel the client subscribed
  to; and every update says what the projection says at that moment, however many reports the
  interval coalesced.
\<close>

theorem Flush_discloses_only_visible:
  assumes "hub_reachable h" and "Flush g h = Some (out, h')" and "d \<in> set out"
  shows "\<exists>c. map_of (hub_clients h) (dl_client d) = Some c \<and>
     (\<forall>u \<in> set (msg_counts (dl_message d)).
        may_see g h (cl_viewer c) (cu_channel u) \<and> cu_count u = Count (cu_channel u) (hub_projection h)) \<and>
     (\<forall>u \<in> set (msg_members (dl_message d)).
        may_see g h (cl_viewer c) (mu_channel u) \<and> flagged (cl_subscribed c) (mu_channel u) \<and>
        tells u = here (mu_channel u) (mu_member u) (hub_projection h))"
proof -
  note inv = hub_reachable_inv [OF assms(1)]
  obtain c where c: "map_of (hub_clients h) (dl_client d) = Some c" "d = delivery_for g h (dl_client d)"
    using delivered [OF inv assms(2,3)] by blast
  have "pend_truth (hub_pending h) (hub_projection h)" using inv by (simp add: hub_inv_def)
  then show ?thesis
    using c delivery_counts [OF inv c(1), of g] delivery_members [OF inv c(1), of _ g]
    by (intro exI [of _ c]) (auto simp: visible_may_see pend_truth_def)
qed

theorem Flush_discloses_only_visible_witness:
  "\<exists>c. map_of (hub_clients ex_busy) ex_client = Some c \<and>
     may_see (Some ex_grants) ex_busy (cl_viewer c) lobby \<and>
     1 = Count lobby (hub_projection ex_busy)"
  using Flush_discloses_only_visible [OF ex_busy_reachable ex_busy_flush, of ex_delivery]
  by (auto simp: ex_delivery_def)

text \<open>
  A channel the client's viewer cannot see and one the hub never held are refused alike, so
  the refusal discloses nothing; every other channel is answered with its count and its whole
  membership.
\<close>

theorem Subscribe_answers:
  assumes "map_of (hub_clients h) i = Some c"
  shows "if may_see g h (cl_viewer c) ch
     then \<exists>msg h'. Subscribe g i ch h = Inr (msg, h') \<and> showing h' i ch \<and>
       msg_counts msg = [\<lparr>cu_channel = ch, cu_count = Count ch (hub_projection h)\<rparr>] \<and>
       map mu_now (msg_members msg) = Presence_Occupants ch (hub_projection h)
     else Subscribe g i ch h = Inl ErrNoSuchChannel"
  using assms by (auto simp: Subscribe_def Let_def visible_may_see showing_def o_def)

theorem Subscribe_answers_witness:
  "Subscribe (Some ex_grants) ex_client attic ex_attached = Inl ErrNoSuchChannel"
proof -
  let ?c = "\<lparr>cl_viewer = Person alice, cl_subscribed = []\<rparr>"
  have "map_of (hub_clients ex_attached) ex_client = Some ?c"
    by (simp add: ex_attached_def)
  moreover have "\<not> may_see (Some ex_grants) ex_attached (cl_viewer ?c) attic"
    by (simp add: may_see_def ex_attached_def ex_hub_def flagged_def)
  ultimately show ?thesis
    using Subscribe_answers [of ex_attached ex_client ?c "Some ex_grants" attic] by simp
qed

end
