(* ===== verification/Resume_Register.thy ===== *)
theory Resume_Register
  imports Domain_Model
begin

text \<open>
  The register of suspended clients of \<^verbatim>\<open>internal/orchestration/resume.go\<close>.

  The injected clock is read once or several times within one call and stands still during it, so
  an operation takes the reading as an argument.  A suspension is held by the register's map alone
  and is the value in it.  The set of missed channels may be the nil map, which is \<open>None\<close>.  Where
  \<^verbatim>\<open>Reap\<close> reads \<^verbatim>\<open>r.held[session]\<close> without looking whether it is there, a nil pointer is the
  result \<open>None\<close>.  The revision is a \<^verbatim>\<open>uint64\<close> and wraps.
\<close>

subsection \<open>The register\<close>

definition ResumeWindow :: duration where
  "ResumeWindow = 30 * Second"

definition ResumeMissedChannels :: int where
  "ResumeMissedChannels = 64"

record ResumeTicket =
  tk_session :: string
  tk_folded :: "64 word"

record ResumeAnswer =
  ra_member :: ID
  ra_missed :: "ID list"
  ra_full :: bool

record suspension =
  su_member :: ID
  su_grace :: Grace
  su_from :: "64 word"
  su_missed :: "(ID, bool) gomap option"

record Resumptions =
  rs_window :: duration
  rs_breadth :: int
  rs_revision :: "64 word"
  rs_held :: "(string, suspension) gomap"
  rs_order :: "string list"

definition NewResumptions :: "bool \<Rightarrow> duration \<Rightarrow> int \<Rightarrow> orch_error + Resumptions" where
  "NewResumptions has_clock window breadth =
     (if \<not> has_clock then Inl (ErrInvariant RegisterNeedsClock)
      else if window \<le> 0 then Inl (ErrInvariant (WindowNotPositive window))
      else if breadth \<le> 0 then Inl (ErrInvariant (BreadthNotPositive breadth))
      else Inr \<lparr>rs_window = window, rs_breadth = breadth, rs_revision = 0, rs_held = [], rs_order = []\<rparr>)"

definition Revision :: "Resumptions \<Rightarrow> 64 word" where
  "Revision r = rs_revision r"

text \<open>What a batch does to one suspension; the loop over the held ones is \<open>Published\<close>.\<close>

definition note_missed :: "int \<Rightarrow> ID list \<Rightarrow> suspension \<Rightarrow> suspension" where
  "note_missed breadth channels s =
     (case su_missed s of
        None \<Rightarrow> s
      | Some missed \<Rightarrow>
          let missed' = fold (\<lambda>channel. AList.update channel True) channels missed in
          s\<lparr>su_missed := (if int (length missed') > breadth then None else Some missed')\<rparr>)"

definition Published :: "ID list \<Rightarrow> Resumptions \<Rightarrow> 64 word \<times> Resumptions" where
  "Published channels r =
     (if length channels = 0 then (rs_revision r, r)
      else
        let r' = r\<lparr>rs_revision := rs_revision r + 1,
                   rs_held := map (\<lambda>(session, s). (session, note_missed (rs_breadth r) channels s))
                                (rs_held r)\<rparr>
        in (rs_revision r', r'))"

definition Suspend :: "instant \<Rightarrow> string \<Rightarrow> ID \<Rightarrow> Resumptions \<Rightarrow> orch_error + Resumptions" where
  "Suspend now session member r =
     (if session = [] then Inl (ErrInvariant SuspensionNamesNoSession)
      else if IsZero member then Inl (ErrInvariant SuspensionNeedsMember)
      else if gm_has (rs_held r) session then Inl (ErrInvariant (AlreadySuspended session))
      else
        let s = \<lparr>su_member = member, su_grace = NewGrace now (rs_window r),
                 su_from = rs_revision r, su_missed = Some []\<rparr>
        in Inr (r\<lparr>rs_held := AList.update session s (rs_held r),
                  rs_order := rs_order r @ [session]\<rparr>))"

definition Held :: "string \<Rightarrow> Resumptions \<Rightarrow> bool" where
  "Held session r = gm_has (rs_held r) session"

definition forget :: "string \<Rightarrow> Resumptions \<Rightarrow> Resumptions" where
  "forget session r =
     r\<lparr>rs_held := AList.delete session (rs_held r), rs_order := remove1 session (rs_order r)\<rparr>"

definition sortedIDs :: "(ID, bool) gomap \<Rightarrow> ID list" where
  "sortedIDs ids = sort_key ID_String (map fst ids)"

definition Resume ::
    "instant \<Rightarrow> ResumeTicket \<Rightarrow> ID \<Rightarrow> Resumptions \<Rightarrow> orch_error + (ResumeAnswer \<times> Resumptions)" where
  "Resume now t member r =
     (case map_of (rs_held r) (tk_session t) of
        None \<Rightarrow> Inl (ErrNoSuspension (tk_session t))
      | Some s \<Rightarrow>
          if Expired now (su_grace s) then Inl (ErrResumeWindowPassed (su_member s) (rs_window r))
          else if su_member s \<noteq> member then Inl (ErrResumeNotYours (su_member s) member)
          else if tk_folded t > rs_revision r then Inl (ErrResumeAhead (tk_folded t) (rs_revision r))
          else
            let answer =
                  (case su_missed s of
                     None \<Rightarrow> \<lparr>ra_member = su_member s, ra_missed = [], ra_full = True\<rparr>
                   | Some missed \<Rightarrow>
                       if tk_folded t < su_from s
                       then \<lparr>ra_member = su_member s, ra_missed = [], ra_full = True\<rparr>
                       else \<lparr>ra_member = su_member s, ra_missed = sortedIDs missed, ra_full = False\<rparr>)
            in Inr (answer, forget (tk_session t) r))"

fun reap_sessions :: "instant \<Rightarrow> string list \<Rightarrow> Resumptions \<Rightarrow> (ID list \<times> Resumptions) option" where
  "reap_sessions now [] r = Some ([], r)"
| "reap_sessions now (session # rest) r =
     (case map_of (rs_held r) session of
        None \<Rightarrow> None
      | Some s \<Rightarrow>
          if \<not> Expired now (su_grace s) then reap_sessions now rest r
          else
            (case reap_sessions now rest (forget session r) of
               None \<Rightarrow> None
             | Some (gone, r') \<Rightarrow> Some (su_member s # gone, r')))"

definition Reap :: "instant \<Rightarrow> Resumptions \<Rightarrow> (ID list \<times> Resumptions) option" where
  "Reap now r = reap_sessions now (rs_order r) r"

subsection \<open>The invariant\<close>

definition susp_ok :: "int \<Rightarrow> suspension \<Rightarrow> bool" where
  "susp_ok breadth s \<longleftrightarrow>
     \<not> IsZero (su_member s) \<and>
     (case su_missed s of None \<Rightarrow> True | Some m \<Rightarrow> gm_ok m \<and> int (length m) \<le> breadth)"

definition held_ok :: "int \<Rightarrow> (string, suspension) gomap \<Rightarrow> bool" where
  "held_ok breadth h \<longleftrightarrow>
     (\<forall>session s. map_of h session = Some s \<longrightarrow> session \<noteq> [] \<and> susp_ok breadth s)"

lemma held_ok_update:
  "held_ok b h \<Longrightarrow> session \<noteq> [] \<Longrightarrow> susp_ok b s \<Longrightarrow> held_ok b (AList.update session s h)"
  by (simp add: held_ok_def)

lemma held_ok_delete: "held_ok b h \<Longrightarrow> held_ok b (AList.delete session h)"
  by (simp add: held_ok_def)

definition reg_inv :: "Resumptions \<Rightarrow> bool" where
  "reg_inv r \<longleftrightarrow>
     0 < rs_window r \<and> 0 < rs_breadth r \<and> gm_ok (rs_held r) \<and> distinct (rs_order r) \<and>
     set (rs_order r) = dom (map_of (rs_held r)) \<and>
     held_ok (rs_breadth r) (rs_held r)"

lemma reg_inv_new: "NewResumptions c w b = Inr r \<Longrightarrow> reg_inv r"
  by (auto simp: NewResumptions_def reg_inv_def held_ok_def split: if_splits)

lemma note_missed_fields [simp]:
  "su_member (note_missed b chs s) = su_member s" "su_grace (note_missed b chs s) = su_grace s"
  "su_from (note_missed b chs s) = su_from s"
  by (simp_all add: note_missed_def Let_def split: option.splits)

lemma gm_ok_fold_flags: "gm_ok m \<Longrightarrow> gm_ok (fold (\<lambda>c. AList.update c True) cs m)"
  by (induction cs arbitrary: m) simp_all

lemma keys_fold_flags:
  "set (map fst (fold (\<lambda>c. AList.update c True) cs m)) = set (map fst m) \<union> set cs"
  by (induction cs arbitrary: m) (auto simp: dom_update simp flip: gm_dom)

lemma length_keys: "gm_ok m \<Longrightarrow> length m = card (set (map fst m))"
  by (metis distinct_card length_map)

lemma note_missed_ok: "susp_ok b s \<Longrightarrow> susp_ok b (note_missed b chs s)"
  by (auto simp: susp_ok_def note_missed_def Let_def gm_ok_fold_flags split: option.splits)

lemma held_Published:
  "map_of (rs_held (snd (Published chs r))) session =
     (if chs = [] then map_of (rs_held r) session
      else map_option (note_missed (rs_breadth r) chs) (map_of (rs_held r) session))"
  by (simp add: Published_def Let_def map_of_map_snd)

lemma Published_fields [simp]:
  "rs_order (snd (Published chs r)) = rs_order r" "rs_window (snd (Published chs r)) = rs_window r"
  "rs_breadth (snd (Published chs r)) = rs_breadth r"
  "map fst (rs_held (snd (Published chs r))) = map fst (rs_held r)"
  by (simp_all add: Published_def Let_def case_prod_beta)

lemma Published_inv: "reg_inv r \<Longrightarrow> reg_inv (snd (Published chs r))"
proof -
  assume inv: "reg_inv r"
  have "dom (map_of (rs_held (snd (Published chs r)))) = dom (map_of (rs_held r))"
    by (auto simp: held_Published split: if_splits)
  moreover have "session \<noteq> [] \<and> susp_ok (rs_breadth r) s"
    if "map_of (rs_held (snd (Published chs r))) session = Some s" for session s
    using that inv note_missed_ok by (auto simp: held_Published reg_inv_def held_ok_def split: if_splits)
  ultimately show ?thesis using inv by (simp add: reg_inv_def held_ok_def)
qed

lemma Suspend_inv: "reg_inv r \<Longrightarrow> Suspend now session m r = Inr r' \<Longrightarrow> reg_inv r'"
  by (auto simp: Suspend_def reg_inv_def susp_ok_def Let_def split: if_splits intro!: held_ok_update)

lemma forget_inv: "reg_inv r \<Longrightarrow> reg_inv (forget session r)"
  by (auto simp: forget_def reg_inv_def held_ok_delete)

lemma forget_fields [simp]:
  "rs_order (forget session r) = remove1 session (rs_order r)"
  "map_of (rs_held (forget session r)) = (map_of (rs_held r))(session := None)"
  "rs_window (forget session r) = rs_window r" "rs_breadth (forget session r) = rs_breadth r"
  "rs_revision (forget session r) = rs_revision r"
  by (simp_all add: forget_def)

lemma Resume_inv: "reg_inv r \<Longrightarrow> Resume now t m r = Inr (a, r') \<Longrightarrow> reg_inv r'"
  by (auto simp: Resume_def Let_def forget_inv split: option.splits if_splits)

subsection \<open>Reaping\<close>

definition suspended :: "Resumptions \<Rightarrow> string \<Rightarrow> suspension" where
  "suspended r session = the (map_of (rs_held r) session)"

definition overdue :: "instant \<Rightarrow> Resumptions \<Rightarrow> string \<Rightarrow> bool" where
  "overdue now r session \<longleftrightarrow> Expired now (su_grace (suspended r session))"

lemma reap_sessions_eq:
  "distinct sessions \<Longrightarrow> set sessions \<subseteq> dom (map_of (rs_held r)) \<Longrightarrow>
     reap_sessions now sessions r =
       Some (map (\<lambda>s. su_member (suspended r s)) (filter (overdue now r) sessions),
             fold forget (filter (overdue now r) sessions) r)"
proof (induction sessions arbitrary: r)
  case (Cons x rest)
  then obtain s where s: "map_of (rs_held r) x = Some s" by auto
  have same: "suspended (forget x r) y = suspended r y" if "y \<in> set rest" for y
    using that Cons.prems(1) by (auto simp: suspended_def)
  then have due: "filter (overdue now (forget x r)) rest = filter (overdue now r) rest"
    by (auto simp: overdue_def intro: filter_cong)
  have who: "map (\<lambda>s. su_member (suspended (forget x r) s)) (filter (overdue now r) rest) =
      map (\<lambda>s. su_member (suspended r s)) (filter (overdue now r) rest)"
    by (rule map_cong) (use same in simp_all)
  have x: "overdue now r x \<longleftrightarrow> Expired now (su_grace s)" "suspended r x = s"
    using s by (simp_all add: overdue_def suspended_def)
  have sub: "set rest \<subseteq> dom (map_of (rs_held (forget x r)))"
    using Cons.prems by auto
  have rest: "reap_sessions now rest (forget x r) =
      Some (map (\<lambda>s. su_member (suspended r s)) (filter (overdue now r) rest),
            fold forget (filter (overdue now r) rest) (forget x r))"
    using Cons.IH [OF _ sub] Cons.prems(1) unfolding due who by simp
  show ?case
    using Cons.IH [of r] rest Cons.prems s x by auto
qed simp

lemma fold_forget_held:
  "map_of (rs_held (fold forget xs r)) y = (if y \<in> set xs then None else map_of (rs_held r) y)"
  by (induction xs arbitrary: r) auto

lemma fold_forget_order:
  "distinct (rs_order r) \<Longrightarrow> rs_order (fold forget xs r) = filter (\<lambda>y. y \<notin> set xs) (rs_order r)"
proof (induction xs arbitrary: r)
  case (Cons x xs)
  then show ?case
    by (simp add: distinct_remove1_removeAll removeAll_filter_not_eq) (metis (mono_tags, lifting) filter_cong)
qed simp

lemma fold_forget_inv: "reg_inv r \<Longrightarrow> reg_inv (fold forget xs r)"
  by (induction xs arbitrary: r) (simp_all add: forget_inv)

lemma fold_forget_fields [simp]:
  "rs_window (fold forget xs r) = rs_window r" "rs_breadth (fold forget xs r) = rs_breadth r"
  "rs_revision (fold forget xs r) = rs_revision r"
  by (induction xs arbitrary: r) simp_all

lemma Reap_eq:
  assumes "reg_inv r"
  shows "Reap now r =
     Some (map (\<lambda>s. su_member (suspended r s)) (filter (overdue now r) (rs_order r)),
           fold forget (filter (overdue now r) (rs_order r)) r)"
  unfolding Reap_def using assms by (intro reap_sessions_eq) (simp_all add: reg_inv_def)

lemma Reap_inv: "reg_inv r \<Longrightarrow> Reap now r = Some (gone, r') \<Longrightarrow> reg_inv r'"
  by (auto simp: Reap_eq fold_forget_inv)

subsection \<open>Histories\<close>

text \<open>
  A history of a register.  Each call carries what the clock read; the log of a call says who
  suspended, who resumed and who was reported gone.
\<close>

datatype res_event =
    RePublish "ID list"
  | ReSuspend instant string ID
  | ReResume instant ResumeTicket ID
  | ReReap instant

record res_log =
  lg_suspended :: "ID list"
  lg_resumed :: "ID list"
  lg_gone :: "ID list"

definition empty_log :: res_log where
  "empty_log = \<lparr>lg_suspended = [], lg_resumed = [], lg_gone = []\<rparr>"

fun res_do :: "res_event \<Rightarrow> res_log \<times> Resumptions \<Rightarrow> (res_log \<times> Resumptions) option" where
  "res_do (RePublish chs) (l, r) = Some (l, snd (Published chs r))"
| "res_do (ReSuspend now session m) (l, r) =
     (case Suspend now session m r of
        Inl _ \<Rightarrow> Some (l, r)
      | Inr r' \<Rightarrow> Some (l\<lparr>lg_suspended := lg_suspended l @ [m]\<rparr>, r'))"
| "res_do (ReResume now t m) (l, r) =
     (case Resume now t m r of
        Inl _ \<Rightarrow> Some (l, r)
      | Inr (a, r') \<Rightarrow> Some (l\<lparr>lg_resumed := lg_resumed l @ [ra_member a]\<rparr>, r'))"
| "res_do (ReReap now) (l, r) =
     (case Reap now r of
        None \<Rightarrow> None
      | Some (gone, r') \<Rightarrow> Some (l\<lparr>lg_gone := lg_gone l @ gone\<rparr>, r'))"

fun run_res :: "res_event list \<Rightarrow> res_log \<times> Resumptions \<Rightarrow> (res_log \<times> Resumptions) option" where
  "run_res [] st = Some st"
| "run_res (ev # evs) st = (case res_do ev st of None \<Rightarrow> None | Some st' \<Rightarrow> run_res evs st')"

lemma res_do_total: "reg_inv r \<Longrightarrow> \<exists>l' r'. res_do ev (l, r) = Some (l', r') \<and> reg_inv r'"
proof (cases ev)
  case (RePublish chs)
  moreover assume "reg_inv r"
  ultimately show ?thesis by (simp add: Published_inv)
next
  case (ReSuspend now session m)
  moreover assume "reg_inv r"
  ultimately show ?thesis by (auto split: sum.splits dest: Suspend_inv)
next
  case (ReResume now t m)
  moreover assume "reg_inv r"
  ultimately show ?thesis by (auto split: sum.splits dest: Resume_inv)
next
  case (ReReap now)
  moreover assume "reg_inv r"
  ultimately show ?thesis by (auto simp: Reap_eq fold_forget_inv)
qed

lemma run_res_total: "reg_inv r \<Longrightarrow> \<exists>l' r'. run_res evs (l, r) = Some (l', r') \<and> reg_inv r'"
proof (induction evs arbitrary: l r)
  case (Cons ev evs)
  obtain l' r' where "res_do ev (l, r) = Some (l', r')" "reg_inv r'"
    using res_do_total [OF Cons.prems] by blast
  then show ?case using Cons.IH [of r' l'] by simp
qed simp

subsection \<open>Every suspension ends once\<close>

definition waiting :: "Resumptions \<Rightarrow> ID list" where
  "waiting r = map (\<lambda>s. su_member (suspended r s)) (rs_order r)"

lemma waiting_Published [simp]: "reg_inv r \<Longrightarrow> waiting (snd (Published chs r)) = waiting r"
  by (auto simp: waiting_def suspended_def held_Published reg_inv_def)

lemma waiting_Suspend:
  assumes "reg_inv r" and "Suspend now session m r = Inr r'"
  shows "waiting r' = waiting r @ [m]"
  using assms by (auto simp: Suspend_def Let_def waiting_def suspended_def reg_inv_def split: if_splits)

lemma mset_waiting_forget:
  assumes "reg_inv r" and "session \<in> set (rs_order r)"
  shows "mset (waiting r) = add_mset (su_member (suspended r session)) (mset (waiting (forget session r)))"
proof -
  have d: "distinct (rs_order r)" using assms(1) by (simp add: reg_inv_def)
  let ?f = "\<lambda>s. su_member (suspended r s)"
  have "map (\<lambda>s. su_member (suspended (forget session r) s)) (remove1 session (rs_order r)) =
      map ?f (remove1 session (rs_order r))"
    by (rule map_cong) (use d in \<open>auto simp: suspended_def\<close>)
  then have rest: "waiting (forget session r) = map ?f (remove1 session (rs_order r))"
    by (simp only: waiting_def forget_fields)
  have "mset (rs_order r) = add_mset session (mset (remove1 session (rs_order r)))"
    using assms(2) by simp
  then have "image_mset ?f (mset (rs_order r)) =
      add_mset (?f session) (image_mset ?f (mset (remove1 session (rs_order r))))"
    by (metis image_mset_add_mset)
  then show ?thesis unfolding rest unfolding waiting_def mset_map by simp
qed

lemma mset_waiting_fold_forget:
  "reg_inv r \<Longrightarrow> distinct xs \<Longrightarrow> set xs \<subseteq> set (rs_order r) \<Longrightarrow>
     mset (waiting r) = mset (map (\<lambda>s. su_member (suspended r s)) xs) + mset (waiting (fold forget xs r))"
proof (induction xs arbitrary: r)
  case (Cons x xs)
  have who: "map (\<lambda>s. su_member (suspended (forget x r) s)) xs = map (\<lambda>s. su_member (suspended r s)) xs"
    by (rule map_cong) (use Cons.prems(2) in \<open>auto simp: suspended_def\<close>)
  have "distinct (rs_order r)" using Cons.prems(1) by (simp add: reg_inv_def)
  then have sub: "set xs \<subseteq> set (rs_order (forget x r))"
    using Cons.prems by auto
  have "mset (waiting (forget x r)) =
      mset (map (\<lambda>s. su_member (suspended r s)) xs) + mset (waiting (fold forget xs (forget x r)))"
    using Cons.IH [OF forget_inv [OF Cons.prems(1)] _ sub] Cons.prems(2) unfolding who by simp
  then show ?case
    using Cons.prems(3) mset_waiting_forget [OF Cons.prems(1), of x] by simp
qed simp

definition accounted :: "res_log \<Rightarrow> Resumptions \<Rightarrow> bool" where
  "accounted l r \<longleftrightarrow> mset (lg_suspended l) = mset (lg_resumed l) + mset (lg_gone l) + mset (waiting r)"

lemma Resume_accepts:
  "Resume now t m r = Inr (a, r') \<Longrightarrow>
     \<exists>s. map_of (rs_held r) (tk_session t) = Some s \<and> ra_member a = su_member s \<and> su_member s = m \<and>
       r' = forget (tk_session t) r"
  by (auto simp: Resume_def Let_def split: option.splits if_splits)

lemma accounted_do:
  assumes inv: "reg_inv r" and acc: "accounted l r" and run: "res_do ev (l, r) = Some (l', r')"
  shows "accounted l' r'"
proof (cases ev)
  case (RePublish chs)
  then show ?thesis using inv acc run by (auto simp: accounted_def)
next
  case (ReSuspend now session m)
  then show ?thesis
    using acc run waiting_Suspend [OF inv] by (auto simp: accounted_def split: sum.splits)
next
  case (ReResume now t m)
  show ?thesis
  proof (cases "Resume now t m r")
    case (Inl err)
    then show ?thesis using ReResume acc run by simp
  next
    case (Inr a)
    obtain s where s: "map_of (rs_held r) (tk_session t) = Some s" "ra_member (fst a) = su_member s"
        "snd a = forget (tk_session t) r"
      using Resume_accepts [of now t m r "fst a" "snd a"] Inr by auto
    then have "tk_session t \<in> set (rs_order r)" "suspended r (tk_session t) = s"
      using inv by (auto simp: reg_inv_def suspended_def)
    then show ?thesis
      using ReResume Inr acc run s mset_waiting_forget [OF inv, of "tk_session t"]
      by (cases a) (auto simp: accounted_def)
  qed
next
  case (ReReap now)
  have "distinct (rs_order r)" using inv by (simp add: reg_inv_def)
  then show ?thesis
    using ReReap acc run mset_waiting_fold_forget [OF inv, of "filter (overdue now r) (rs_order r)"]
    by (auto simp: accounted_def Reap_eq [OF inv])
qed

lemma accounted_run:
  "reg_inv r \<Longrightarrow> accounted l r \<Longrightarrow> run_res evs (l, r) = Some (l', r') \<Longrightarrow> accounted l' r'"
proof (induction evs arbitrary: l r)
  case (Cons ev evs)
  obtain l1 r1 where "res_do ev (l, r) = Some (l1, r1)" "reg_inv r1"
    using res_do_total [OF Cons.prems(1)] by blast
  then show ?case
    using Cons.IH [of r1 l1] accounted_do [OF Cons.prems(1,2)] Cons.prems(3) by simp
qed simp

subsection \<open>What a suspension has missed\<close>

fun published_by :: "res_event \<Rightarrow> ID set" where
  "published_by (RePublish chs) = set chs"
| "published_by _ = {}"

text \<open>Events that neither resume the session nor reap it before its deadline.\<close>

fun spares :: "string \<Rightarrow> instant \<Rightarrow> res_event \<Rightarrow> bool" where
  "spares session dl (ReResume now t m) \<longleftrightarrow> tk_session t \<noteq> session"
| "spares session dl (ReReap now) \<longleftrightarrow> now < dl"
| "spares session dl _ \<longleftrightarrow> True"

definition right_missed :: "int \<Rightarrow> ID set \<Rightarrow> (ID, bool) gomap option \<Rightarrow> bool" where
  "right_missed breadth U missed \<longleftrightarrow>
     (case missed of
        None \<Rightarrow> breadth < int (card U)
      | Some ids \<Rightarrow> set (map fst ids) = U \<and> int (card U) \<le> breadth)"

definition tracks :: "string \<Rightarrow> ID \<Rightarrow> instant \<Rightarrow> 64 word \<Rightarrow> ID set \<Rightarrow> Resumptions \<Rightarrow> bool" where
  "tracks session m dl from U r \<longleftrightarrow>
     finite U \<and>
     (\<exists>s. map_of (rs_held r) session = Some s \<and> su_member s = m \<and> su_grace s = \<lparr>deadline = dl\<rparr> \<and>
        su_from s = from \<and>
        right_missed (rs_breadth r) U (su_missed s))"

lemma note_missed_case:
  assumes "susp_ok b s"
  shows "case su_missed (note_missed b chs s) of
      None \<Rightarrow> su_missed s = None \<or> (\<exists>missed. su_missed s = Some missed \<and> b < int (card (set (map fst missed) \<union> set chs)))
    | Some missed' \<Rightarrow> \<exists>missed. su_missed s = Some missed \<and> set (map fst missed') = set (map fst missed) \<union> set chs \<and>
        int (card (set (map fst missed'))) \<le> b"
proof (cases "su_missed s")
  case None
  then show ?thesis by (simp add: note_missed_def)
next
  case (Some missed)
  let ?m = "fold (\<lambda>c. AList.update c True) chs missed"
  have "gm_ok missed" using assms Some by (simp add: susp_ok_def)
  then have "length ?m = card (set (map fst missed) \<union> set chs)"
    using length_keys [OF gm_ok_fold_flags] keys_fold_flags by metis
  then show ?thesis
    using Some keys_fold_flags [of chs missed] by (simp add: note_missed_def Let_def)
qed

lemma tracks_publish:
  assumes inv: "reg_inv r" and t: "tracks session m dl from U r"
  shows "tracks session m dl from (U \<union> set chs) (snd (Published chs r))"
proof (cases "chs = []")
  case True
  then show ?thesis using t by (simp add: Published_def)
next
  case False
  obtain s where s: "map_of (rs_held r) session = Some s" "su_member s = m"
      "su_grace s = \<lparr>deadline = dl\<rparr>" "su_from s = from" "finite U"
    and missed: "right_missed (rs_breadth r) U (su_missed s)"
    using t by (auto simp: tracks_def)
  have "susp_ok (rs_breadth r) s" using inv s(1) by (simp add: reg_inv_def held_ok_def)
  note after = note_missed_case [OF this, of chs]
  have grow: "card U \<le> card (U \<union> set chs)" using s(5) by (intro card_mono) auto
  have "right_missed (rs_breadth r) (U \<union> set chs) (su_missed (note_missed (rs_breadth r) chs s))"
    using after missed grow by (auto simp: right_missed_def split: option.splits)
  then show ?thesis using s False by (simp add: tracks_def held_Published)
qed

lemma tracks_do:
  assumes inv: "reg_inv r" and t: "tracks session m dl from U r" and sp: "spares session dl ev"
    and run: "res_do ev (l, r) = Some (l', r')"
  shows "tracks session m dl from (U \<union> published_by ev) r'"
proof (cases ev)
  case (RePublish chs)
  then show ?thesis using run tracks_publish [OF inv t, of chs] by auto
next
  case (ReSuspend now k n)
  then show ?thesis
    using run t by (auto simp: Suspend_def Let_def tracks_def split: sum.splits if_splits)
next
  case (ReResume now tk n)
  show ?thesis
  proof (cases "Resume now tk n r")
    case (Inl err)
    then show ?thesis using ReResume run t by simp
  next
    case (Inr a)
    then have "snd a = forget (tk_session tk) r"
      using Resume_accepts [of now tk n r "fst a" "snd a"] by auto
    then show ?thesis
      using ReResume Inr run t sp by (cases a) (auto simp: tracks_def)
  qed
next
  case (ReReap now)
  obtain s where s: "map_of (rs_held r) session = Some s" "su_grace s = \<lparr>deadline = dl\<rparr>"
    using t by (auto simp: tracks_def)
  then have "\<not> overdue now r session"
    using sp ReReap by (simp add: overdue_def suspended_def Expired_def)
  then have "map_of (rs_held r') session = map_of (rs_held r) session" "rs_breadth r' = rs_breadth r"
    using ReReap run by (auto simp: Reap_eq [OF inv] fold_forget_held)
  then show ?thesis using t ReReap by (simp add: tracks_def)
qed

lemma tracks_run:
  "reg_inv r \<Longrightarrow> tracks session m dl from U r \<Longrightarrow> list_all (spares session dl) evs \<Longrightarrow>
     run_res evs (l, r) = Some (l', r') \<Longrightarrow>
     tracks session m dl from (U \<union> (\<Union>ev \<in> set evs. published_by ev)) r'"
proof (induction evs arbitrary: l r U)
  case (Cons ev evs)
  obtain l1 r1 where step: "res_do ev (l, r) = Some (l1, r1)" "reg_inv r1"
    using res_do_total [OF Cons.prems(1)] by blast
  then show ?case
    using Cons.IH [of r1 "U \<union> published_by ev" l1] tracks_do [OF Cons.prems(1,2) _ step(1)] Cons.prems(3,4)
    by (simp add: Un_assoc)
qed simp

definition res_reachable :: "Resumptions \<Rightarrow> bool" where
  "res_reachable r \<longleftrightarrow>
     (\<exists>w b r0 evs l. NewResumptions True w b = Inr r0 \<and> run_res evs (empty_log, r0) = Some (l, r))"

lemma res_reachable_inv: "res_reachable r \<Longrightarrow> reg_inv r"
proof -
  assume "res_reachable r"
  then obtain w b r0 evs l where r: "NewResumptions True w b = Inr r0"
      "run_res evs (empty_log, r0) = Some (l, r)"
    by (auto simp: res_reachable_def)
  then show ?thesis using run_res_total [OF reg_inv_new [OF r(1)], of evs empty_log] by auto
qed

lemma sortedIDs_eq:
  assumes "gm_ok missed" and "\<forall>c \<in> set (map fst missed). valid_ID c"
  shows "sortedIDs missed = sorted_list_of_set (set (map fst missed))"
proof -
  have "sort_key ID_String (map fst missed) = sort (map fst missed)"
    by (rule sort_ID_String) (use assms(2) in blast)
  then show ?thesis
    using sort_distinct_is_sorted_list_of_set [OF assms(1)] by (simp add: sortedIDs_def)
qed

subsection \<open>A small register\<close>

definition ex_register :: Resumptions where
  "ex_register = \<lparr>rs_window = ResumeWindow, rs_breadth = 1, rs_revision = 0, rs_held = [], rs_order = []\<rparr>"

lemma ex_register_new: "NewResumptions True ResumeWindow 1 = Inr ex_register"
  by (simp add: NewResumptions_def ex_register_def ResumeWindow_def Second_def)

lemma ex_register_reachable: "res_reachable ex_register"
proof -
  have "run_res [] (empty_log, ex_register) = Some (empty_log, ex_register)" by simp
  with ex_register_new show ?thesis unfolding res_reachable_def by blast
qed

definition ex_away :: Resumptions where
  "ex_away = ex_register\<lparr>rs_held := [(''s'', \<lparr>su_member = alice, su_grace = NewGrace 0 ResumeWindow,
       su_from = 0, su_missed = Some []\<rparr>)], rs_order := [''s'']\<rparr>"

lemma ex_Suspend: "Suspend 0 ''s'' alice ex_register = Inr ex_away"
  by (simp add: Suspend_def ex_register_def ex_away_def Let_def)

lemma ex_away_reachable: "res_reachable ex_away"
proof -
  have "run_res [ReSuspend 0 ''s'' alice] (empty_log, ex_register) =
      Some (empty_log\<lparr>lg_suspended := [alice]\<rparr>, ex_away)"
    by (simp add: ex_Suspend empty_log_def)
  with ex_register_new show ?thesis unfolding res_reachable_def by blast
qed

subsection \<open>Properties\<close>

text \<open>
  C5: A resume answers with exactly what was missed.  A client that suspends, and whose ticket is
  presented inside the window by the same member without folding more than was published, is told
  the sorted set of all channels published since it dropped, or, exactly when there were more of
  them than the register may name or the ticket folds less than was current when it dropped, to
  fetch everything.  Either way the suspension is over.
\<close>

theorem Resume_names_exactly_what_was_missed:
  assumes "res_reachable r0" and "Suspend t0 session m r0 = Inr r1"
    and "list_all (spares session (t0 + rs_window r0)) evs"
    and "\<forall>ev \<in> set evs. \<forall>c \<in> published_by ev. valid_ID c"
    and "now < t0 + rs_window r0" and "U = (\<Union>ev \<in> set evs. published_by ev)"
  shows "\<exists>l r. run_res evs (empty_log, r1) = Some (l, r) \<and>
     (\<forall>folded \<le> Revision r.
        Resume now \<lparr>tk_session = session, tk_folded = folded\<rparr> m r =
          Inr (if folded < Revision r0 \<or> rs_breadth r < int (card U)
               then \<lparr>ra_member = m, ra_missed = [], ra_full = True\<rparr>
               else \<lparr>ra_member = m, ra_missed = sorted_list_of_set U, ra_full = False\<rparr>,
               forget session r)) \<and>
     \<not> Held session (forget session r)"
proof -
  have inv0: "reg_inv r0" by (rule res_reachable_inv [OF assms(1)])
  have inv1: "reg_inv r1" by (rule Suspend_inv [OF inv0 assms(2)])
  obtain l r where run: "run_res evs (empty_log, r1) = Some (l, r)" and inv: "reg_inv r"
    using run_res_total [OF inv1] by blast
  have "tracks session m (t0 + rs_window r0) (rs_revision r0) {} r1"
    using assms(2) inv0
    by (auto simp: Suspend_def Let_def tracks_def right_missed_def NewGrace_def reg_inv_def split: if_splits)
  from tracks_run [OF inv1 this assms(3) run]
  obtain s where s: "map_of (rs_held r) session = Some s" "su_member s = m"
      "su_grace s = \<lparr>deadline = t0 + rs_window r0\<rparr>" "su_from s = rs_revision r0"
    and missed: "right_missed (rs_breadth r) U (su_missed s)"
    using assms(6) by (auto simp: tracks_def)
  have live: "\<not> Expired now (su_grace s)"
    using assms(5) s(3) by (simp add: Expired_def)
  have "susp_ok (rs_breadth r) s" using inv s(1) by (simp add: reg_inv_def held_ok_def)
  then have "sortedIDs ids = sorted_list_of_set U" if "su_missed s = Some ids" for ids
    using that missed assms(4,6) sortedIDs_eq [of ids]
    by (auto simp: susp_ok_def right_missed_def)
  then have "Resume now \<lparr>tk_session = session, tk_folded = folded\<rparr> m r =
      Inr (if folded < Revision r0 \<or> rs_breadth r < int (card U)
           then \<lparr>ra_member = m, ra_missed = [], ra_full = True\<rparr>
           else \<lparr>ra_member = m, ra_missed = sorted_list_of_set U, ra_full = False\<rparr>,
           forget session r)" if "folded \<le> Revision r" for folded
    using that s live missed
    by (cases "su_missed s") (auto simp: Resume_def Let_def Revision_def right_missed_def)
  with run show ?thesis by (auto simp: Held_def)
qed

theorem Resume_names_exactly_what_was_missed_witness:
  "\<exists>l r. run_res [RePublish [lobby], RePublish [lobby]] (empty_log, ex_away) = Some (l, r) \<and>
     \<not> Held ''s'' (forget ''s'' r) \<and>
     (\<forall>folded \<le> Revision r. is_ok (Resume 1 \<lparr>tk_session = ''s'', tk_folded = folded\<rparr> alice r))"
proof -
  have "list_all (spares ''s'' (0 + rs_window ex_register)) [RePublish [lobby], RePublish [lobby]]"
    by simp
  moreover have "\<forall>ev \<in> set [RePublish [lobby], RePublish [lobby]]. \<forall>c \<in> published_by ev. valid_ID c"
    by simp
  moreover have "1 < 0 + rs_window ex_register"
    by (simp add: ex_register_def ResumeWindow_def Second_def)
  ultimately obtain l r where
    "run_res [RePublish [lobby], RePublish [lobby]] (empty_log, ex_away) = Some (l, r)"
    "\<not> Held ''s'' (forget ''s'' r)"
    "\<forall>folded \<le> Revision r. \<exists>x. Resume 1 \<lparr>tk_session = ''s'', tk_folded = folded\<rparr> alice r = Inr x"
    using Resume_names_exactly_what_was_missed [OF ex_register_reachable ex_Suspend _ _ _ refl,
        of "[RePublish [lobby], RePublish [lobby]]" 1] by blast
  then show ?thesis by (auto simp: is_ok_iff)
qed

text \<open>
  C6: Every suspension ends exactly once.  Whatever happens to a register, nothing panics, and the
  members that suspended are at every moment, counted with multiplicity, those that resumed, those
  reported gone and those still waiting.
\<close>

theorem every_suspension_ends_once:
  assumes "NewResumptions has_clock w b = Inr r0"
  shows "\<exists>l r. run_res evs (empty_log, r0) = Some (l, r) \<and>
     mset (lg_suspended l) = mset (lg_resumed l) + mset (lg_gone l) + mset (waiting r)"
proof -
  have inv: "reg_inv r0" by (rule reg_inv_new [OF assms])
  have "rs_order r0 = []"
    using assms by (auto simp: NewResumptions_def split: if_splits)
  then have "accounted empty_log r0"
    by (simp add: accounted_def empty_log_def waiting_def)
  with run_res_total [OF inv, of evs empty_log] accounted_run [OF inv] show ?thesis
    unfolding accounted_def by blast
qed

theorem every_suspension_ends_once_witness:
  "\<exists>l r. run_res [ReSuspend 0 ''s'' alice, ReReap ResumeWindow] (empty_log, ex_register) = Some (l, r) \<and>
     mset (lg_suspended l) = mset (lg_resumed l) + mset (lg_gone l) + mset (waiting r)"
  by (rule every_suspension_ends_once [OF ex_register_new])

text \<open>
  A reap reports, in the order they suspended, exactly the members whose window has passed,
  forgets those and keeps all others.
\<close>

theorem Reap_reports_the_overdue:
  assumes "res_reachable r"
  shows "\<exists>r'. Reap now r =
       Some (map (\<lambda>s. su_member (suspended r s)) (filter (overdue now r) (rs_order r)), r') \<and>
     rs_order r' = filter (\<lambda>s. \<not> overdue now r s) (rs_order r) \<and>
     (\<forall>s. map_of (rs_held r') s =
        (if Held s r \<and> \<not> overdue now r s then map_of (rs_held r) s else None))"
proof -
  have inv: "reg_inv r" by (rule res_reachable_inv [OF assms])
  then have order: "distinct (rs_order r)" "set (rs_order r) = dom (map_of (rs_held r))"
    by (simp_all add: reg_inv_def)
  let ?due = "filter (overdue now r) (rs_order r)"
  have "rs_order (fold forget ?due r) = filter (\<lambda>s. \<not> overdue now r s) (rs_order r)"
    unfolding fold_forget_order [OF order(1)] by (rule filter_cong) auto
  moreover have "map_of (rs_held (fold forget ?due r)) s =
      (if Held s r \<and> \<not> overdue now r s then map_of (rs_held r) s else None)" for s
    using order(2) by (auto simp: fold_forget_held Held_def)
  ultimately show ?thesis using Reap_eq [OF inv, of now] by blast
qed

theorem Reap_reports_the_overdue_witness:
  "\<exists>r'. Reap ResumeWindow ex_away = Some ([alice], r') \<and> rs_order r' = []"
  using Reap_reports_the_overdue [OF ex_away_reachable, of ResumeWindow]
  by (auto simp: ex_away_def ex_register_def suspended_def overdue_def)

subsection \<open>No suspension lasts\<close>

lemma run_res_snoc:
  "run_res (xs @ [ev]) st = (case run_res xs st of None \<Rightarrow> None | Some st' \<Rightarrow> res_do ev st')"
  by (induction xs arbitrary: st) (simp_all split: option.split)

text \<open>A suspension that an event leaves held keeps its deadline, and the event was no reap after it.\<close>

lemma still_held:
  assumes inv: "reg_inv r" and s: "map_of (rs_held r) session = Some s" and run: "res_do ev (l, r) = Some (l', r')"
    and held: "Held session r'"
  shows "\<exists>s'. map_of (rs_held r') session = Some s' \<and> su_grace s' = su_grace s \<and>
     (\<forall>now. ev = ReReap now \<longrightarrow> \<not> Expired now (su_grace s))"
proof (cases ev)
  case (RePublish chs)
  then show ?thesis using run s held_Published [of chs r session] by (auto split: if_splits)
next
  case (ReSuspend now k n)
  then show ?thesis
    using run s by (auto simp: Suspend_def Let_def split: sum.splits if_splits)
next
  case (ReResume now tk n)
  show ?thesis
  proof (cases "Resume now tk n r")
    case (Inl err)
    then show ?thesis using ReResume run s by simp
  next
    case (Inr a)
    then have "snd a = forget (tk_session tk) r"
      using Resume_accepts [of now tk n r "fst a" "snd a"] by auto
    then show ?thesis using ReResume Inr run s held by (cases a) (auto simp: Held_def split: if_splits)
  qed
next
  case (ReReap now)
  have "\<not> overdue now r session"
  proof
    assume due: "overdue now r session"
    have "session \<in> set (rs_order r)" using inv s by (auto simp: reg_inv_def)
    with due show False using ReReap run held by (auto simp: Reap_eq [OF inv] fold_forget_held Held_def)
  qed
  then show ?thesis
    using ReReap run s by (auto simp: Reap_eq [OF inv] fold_forget_held overdue_def suspended_def)
qed

lemma held_for_ever:
  assumes "reg_inv r" and "map_of (rs_held r) session = Some s"
    and "\<And>m l' r'. run_res (map evs [0..<m]) (l, r) = Some (l', r') \<Longrightarrow> Held session r'"
  shows "\<exists>l' r' s'. run_res (map evs [0..<m]) (l, r) = Some (l', r') \<and> reg_inv r' \<and>
     map_of (rs_held r') session = Some s' \<and> su_grace s' = su_grace s"
proof (induction m)
  case 0
  show ?case using assms(1,2) by simp
next
  case (Suc m)
  then obtain l' r' s' where h: "run_res (map evs [0..<m]) (l, r) = Some (l', r')" "reg_inv r'"
      "map_of (rs_held r') session = Some s'" "su_grace s' = su_grace s" by blast
  obtain l2 r2 where step: "res_do (evs m) (l', r') = Some (l2, r2)" "reg_inv r2"
    using res_do_total [OF h(2)] by blast
  have run: "run_res (map evs [0..<Suc m]) (l, r) = Some (l2, r2)"
    using h(1) step(1) by (simp add: run_res_snoc)
  show ?case using still_held [OF h(2,3) step(1) assms(3) [OF run]] run step(2) h(4) by auto
qed

text \<open>
  C30: No suspension lasts.  Whatever happens to a register, as long as it is reaped again and again at
  later and later readings of the clock, every session that is suspended is held no more at some later
  moment: resumed or reported gone.
\<close>

theorem every_suspension_ends:
  assumes "res_reachable r" and "Held session r"
    and "\<And>t n. \<exists>m \<ge> n. \<exists>now \<ge> t. evs m = ReReap now"
  shows "\<exists>m l' r'. run_res (map evs [0..<m]) (empty_log, r) = Some (l', r') \<and> \<not> Held session r'"
proof (rule ccontr)
  assume never: "\<nexists>m l' r'. run_res (map evs [0..<m]) (empty_log, r) = Some (l', r') \<and> \<not> Held session r'"
  obtain s where s: "map_of (rs_held r) session = Some s" using assms(2) by (auto simp: Held_def)
  note ever = held_for_ever [OF res_reachable_inv [OF assms(1)] s, of evs empty_log]
  obtain m now where m: "evs m = ReReap now" "deadline (su_grace s) \<le> now" using assms(3) by blast
  obtain l1 r1 s1 where one: "run_res (map evs [0..<m]) (empty_log, r) = Some (l1, r1)" "reg_inv r1"
      "map_of (rs_held r1) session = Some s1" "su_grace s1 = su_grace s"
    using ever never by blast
  obtain l2 r2 where two: "run_res (map evs [0..<Suc m]) (empty_log, r) = Some (l2, r2)" "Held session r2"
    using ever never by (metis (no_types, lifting))
  then have "res_do (evs m) (l1, r1) = Some (l2, r2)" using one(1) by (simp add: run_res_snoc)
  from still_held [OF one(2,3) this two(2)] have "\<not> Expired now (su_grace s)" using m(1) one(4) by auto
  with m(2) show False by (simp add: Expired_def)
qed

theorem every_suspension_ends_witness:
  "\<exists>m l' r'. run_res (map (\<lambda>i. ReReap (int i)) [0..<m]) (empty_log, ex_away) = Some (l', r') \<and> \<not> Held ''s'' r'"
proof (rule every_suspension_ends [OF ex_away_reachable])
  show "Held ''s'' ex_away" by (simp add: Held_def ex_away_def)
  fix t :: instant and n :: nat
  show "\<exists>m \<ge> n. \<exists>now \<ge> t. ReReap (int m) = ReReap now"
    by (intro exI [of _ "max n (nat t)"]) auto
qed

end
