(* ===== verification/Resume_View.thy ===== *)
theory Resume_View
  imports Presence_Hub Resume_Register
begin

text \<open>
  The hub and the register of one space side by side, as the comments on \<^verbatim>\<open>Published\<close> in
  \<^verbatim>\<open>internal/orchestration/resume.go\<close> have a server use them: after every flush the register is
  told the channels the flush moved, so that the answer to a resumption says which of the channels a client was
  showing it has to read again.  No server is in the tree, so what it makes of a flush is an argument,
  \<open>moved\<close>.  The theorems show which of those make the answer right, and exactly whom
  a flush tells what, which is why its messages do not name every channel that moved.
\<close>

subsection \<open>A server's calls on the two\<close>

datatype server_event =
    OnHub hub_event
  | OnRegister res_event

fun server_do ::
    "grantor option \<Rightarrow> (PresenceHub \<Rightarrow> PresenceDelivery list \<Rightarrow> ID list) \<Rightarrow> server_event \<Rightarrow>
     PresenceHub \<times> Resumptions \<Rightarrow> (PresenceHub \<times> Resumptions) option"
where
  "server_do g moved (OnHub ev) (h, r) =
     (case hub_do g ev h of
        None \<Rightarrow> None
      | Some (out, h') \<Rightarrow> Some (h', if ev = EvFlush then snd (Published (moved h out) r) else r))"
| "server_do g moved (OnRegister ev) (h, r) =
     (case res_do ev (empty_log, r) of None \<Rightarrow> None | Some (_, r') \<Rightarrow> Some (h, r'))"

fun server_run ::
    "grantor option \<Rightarrow> (PresenceHub \<Rightarrow> PresenceDelivery list \<Rightarrow> ID list) \<Rightarrow> server_event list \<Rightarrow>
     PresenceHub \<times> Resumptions \<Rightarrow> (PresenceHub \<times> Resumptions) option"
where
  "server_run g moved [] st = Some st"
| "server_run g moved (ev # evs) st =
     (case server_do g moved ev st of None \<Rightarrow> None | Some st' \<Rightarrow> server_run g moved evs st')"

text \<open>The channels that are in some message of a flush, in the order they are met.\<close>

definition told_channels :: "PresenceDelivery list \<Rightarrow> ID list" where
  "told_channels out = remdups (concat (map
     (\<lambda>d. map cu_channel (msg_counts (dl_message d)) @ map mu_channel (msg_members (dl_message d))) out))"

fun leaves_session :: "string \<Rightarrow> instant \<Rightarrow> server_event \<Rightarrow> bool" where
  "leaves_session session dl (OnRegister ev) \<longleftrightarrow> spares session dl ev"
| "leaves_session session dl (OnHub ev) \<longleftrightarrow> True"

text \<open>The channels the register is told of.\<close>

fun told_by ::
    "grantor option \<Rightarrow> (PresenceHub \<Rightarrow> PresenceDelivery list \<Rightarrow> ID list) \<Rightarrow> server_event \<Rightarrow> PresenceHub \<Rightarrow> ID set"
where
  "told_by g moved (OnHub EvFlush) h = (case Flush g h of None \<Rightarrow> {} | Some (out, h') \<Rightarrow> set (moved h out))"
| "told_by g moved (OnRegister ev) h = published_by ev"
| "told_by g moved _ h = {}"

fun told_in ::
    "grantor option \<Rightarrow> (PresenceHub \<Rightarrow> PresenceDelivery list \<Rightarrow> ID list) \<Rightarrow> server_event list \<Rightarrow>
     PresenceHub \<times> Resumptions \<Rightarrow> ID set"
where
  "told_in g moved [] st = {}"
| "told_in g moved (ev # evs) st = told_by g moved ev (fst st) \<union>
     (case server_do g moved ev st of None \<Rightarrow> {} | Some st' \<Rightarrow> told_in g moved evs st')"

lemma told_by_other: "hev \<noteq> EvFlush \<Longrightarrow> told_by g moved (OnHub hev) h = {}"
  by (cases hev) simp_all

lemma server_run_append:
  "server_run g moved (xs @ ys) st =
     (case server_run g moved xs st of None \<Rightarrow> None | Some st' \<Rightarrow> server_run g moved ys st')"
  by (induction xs arbitrary: st) (simp_all split: option.split)

lemma server_do_total:
  assumes "hub_inv h" and "reg_inv r"
  shows "\<exists>h' r'. server_do g moved ev (h, r) = Some (h', r') \<and> hub_inv h' \<and> reg_inv r'"
proof (cases ev)
  case (OnHub hev)
  obtain out h' where "hub_do g hev h = Some (out, h')" using hub_do_total [OF assms(1)] by blast
  then show ?thesis using OnHub hub_do_inv [OF assms(1)] Published_inv [OF assms(2)] assms(2) by simp
next
  case (OnRegister call)
  obtain l' r' where "res_do call (empty_log, r) = Some (l', r')" "reg_inv r'"
    using res_do_total [OF assms(2)] by blast
  then show ?thesis using OnRegister assms(1) by simp
qed

lemma res_do_breadth:
  assumes "reg_inv r" and "res_do call (l, r) = Some (l', r')"
  shows "rs_breadth r' = rs_breadth r"
proof (cases call)
  case (ReResume now t m)
  show ?thesis
  proof (cases "Resume now t m r")
    case (Inr a)
    then have "snd a = forget (tk_session t) r" using Resume_accepts [of now t m r "fst a" "snd a"] by auto
    then show ?thesis using ReResume Inr assms(2) by (cases a) auto
  qed (use ReResume assms(2) in auto)
qed (use assms in \<open>auto simp: Reap_eq Suspend_def Let_def split: sum.splits if_splits\<close>)

subsection \<open>A view that is not kept up\<close>

text \<open>
  What a view says of a channel is right, or a change of it is pending: its count and, where the
  client was showing it, its members.
\<close>

definition holds_still :: "client_view \<Rightarrow> bool \<Rightarrow> ID \<Rightarrow> PresenceHub \<Rightarrow> bool" where
  "holds_still cv shown ch h \<longleftrightarrow>
     (pend_count (hub_pending h) ch \<or> cv_counts cv ch = Some (Count ch (hub_projection h))) \<and>
     (shown \<longrightarrow> (\<forall>m. pend_of (hub_pending h) ch m \<noteq> None \<or> cv_members cv ch m = here ch m (hub_projection h)))"

lemma holds_still_cong:
  "hub_projection h' = hub_projection h \<Longrightarrow> hub_pending h' = hub_pending h \<Longrightarrow>
     holds_still cv shown ch h' = holds_still cv shown ch h"
  by (simp add: holds_still_def)

lemma holds_still_report:
  assumes inv: "hub_inv h" and nz: "\<not> IsZero ch" and ok: "holds_still cv shown ch h"
  shows "holds_still cv shown ch (snd (HubApply r h))"
proof -
  have p: "proj_inv (hub_projection h)" using inv by (simp add: hub_inv_def)
  show ?thesis
  proof (cases rule: HubApply_cases [of r h])
    case (silent q)
    have "here ch m q = here ch m (hub_projection h)" for m
      using Apply_silent [OF silent(1)] by (simp add: here_def)
    then show ?thesis using ok silent(2) Count_silent [OF p silent(1)] by (simp add: holds_still_def)
  next
    case (change chg q)
    let ?n = "note_change chg (hub_pending h)"
    have "pend_count ?n ch \<or> cv_counts cv ch = Some (Count ch q)"
      using ok nz note_change_complete(2) [OF p change(1), of ch "hub_pending h"]
      by (auto simp: holds_still_def pend_count_note_change)
    moreover have "pend_of ?n ch m \<noteq> None \<or> cv_members cv ch m = here ch m q" if shown for m
      using ok that note_change_complete(1) [OF p change(1), of ch m "hub_pending h"]
      by (auto simp: holds_still_def pend_of_note_change)
    ultimately show ?thesis using change(2) by (simp add: holds_still_def)
  qed
qed

lemma hub_do_other:
  assumes "hub_do g ev h = Some (out, h')" and "ev \<noteq> EvFlush" and "\<And>rep. ev \<noteq> EvReport rep"
  shows "hub_projection h' = hub_projection h \<and> hub_pending h' = hub_pending h"
  using assms
  by (cases ev)
    (auto simp: HubAddChannel_def Attach_def Detach_def Subscribe_def Unsubscribe_def Let_def
      split: sum.splits if_splits option.splits)

lemma hub_do_known:
  "hub_do g ev h = Some (out, h') \<Longrightarrow> hub_inv h \<Longrightarrow> flagged (hub_known h) ch \<Longrightarrow> flagged (hub_known h') ch"
  by (cases ev)
    (auto simp: HubAddChannel_def Attach_def Detach_def Subscribe_def Unsubscribe_def HubApply_def Let_def Flush_eq
      flagged_def split: sum.splits if_splits option.splits prod.splits)

text \<open>What the register is told of a flush leaves out no channel that moved.\<close>

definition tells_all :: "grantor option \<Rightarrow> (PresenceHub \<Rightarrow> PresenceDelivery list \<Rightarrow> ID list) \<Rightarrow> bool" where
  "tells_all g moved \<longleftrightarrow>
     (\<forall>h out h'. Flush g h = Some (out, h') \<longrightarrow> set (changed_channels h) \<subseteq> set (moved h out))"

text \<open>The invariant: what the register has not been told of has not moved.\<close>

definition up_to :: "client_view \<Rightarrow> (ID \<Rightarrow> bool) \<Rightarrow> ID set \<Rightarrow> ID set \<Rightarrow> PresenceHub \<Rightarrow> bool" where
  "up_to cv shown S U h \<longleftrightarrow>
     (\<forall>ch \<in> S. flagged (hub_known h) ch \<and> (ch \<notin> U \<longrightarrow> holds_still cv (shown ch) ch h))"

lemma up_to_mono: "up_to cv shown S U h \<Longrightarrow> U \<subseteq> U' \<Longrightarrow> up_to cv shown S U' h"
  by (auto simp: up_to_def)

lemma up_to_hub:
  assumes inv: "hub_inv h" and ok: "up_to cv shown S U h" and run: "hub_do g ev h = Some (out, h')"
    and told: "ev = EvFlush \<Longrightarrow> set (changed_channels h) \<subseteq> U'" and sub: "U \<subseteq> U'"
  shows "up_to cv shown S U' h'"
  unfolding up_to_def
proof (intro ballI conjI impI)
  fix ch
  assume ch: "ch \<in> S"
  have known: "flagged (hub_known h) ch" using ok ch by (simp add: up_to_def)
  then show "flagged (hub_known h') ch" by (rule hub_do_known [OF run inv])
  assume out: "ch \<notin> U'"
  then have still: "holds_still cv (shown ch) ch h" using ok ch sub by (auto simp: up_to_def)
  consider "ev = EvFlush" | rep where "ev = EvReport rep" | "ev \<noteq> EvFlush" "\<And>rep. ev \<noteq> EvReport rep" by blast
  then show "holds_still cv (shown ch) ch h'"
  proof cases
    case 1
    then have "\<not> gm_has (hub_pending h) ch" using told out known changed_iff [OF inv] by blast
    then have "\<not> pend_count (hub_pending h) ch" "pend_of (hub_pending h) ch m = None" for m
      using pend_has by blast+
    moreover have "h' = h\<lparr>hub_pending := []\<rparr>" using 1 run by (simp add: Flush_eq [OF inv])
    ultimately show ?thesis using still by (simp add: holds_still_def)
  next
    case 2
    have "\<not> IsZero ch" using inv known by (simp add: hub_inv_def)
    then show ?thesis using 2 run holds_still_report [OF inv _ still] by auto
  next
    case 3
    then show ?thesis using hub_do_other [OF run] holds_still_cong still by blast
  qed
qed

lemma server_keeps:
  assumes inv: "hub_inv h" "reg_inv r" and t: "tracks session m dl from U r" and ok: "up_to cv shown S U h"
    and sp: "leaves_session session dl ev" and run: "server_do g moved ev (h, r) = Some (h', r')"
    and covers: "tells_all g moved"
  shows "tracks session m dl from (U \<union> told_by g moved ev h) r' \<and> up_to cv shown S (U \<union> told_by g moved ev h) h'"
proof (cases ev)
  case (OnHub hev)
  then obtain out where s: "hub_do g hev h = Some (out, h')"
      "r' = (if hev = EvFlush then snd (Published (moved h out) r) else r)"
    using run by (auto split: option.splits)
  show ?thesis
  proof (cases "hev = EvFlush")
    case True
    then have told: "told_by g moved ev h = set (moved h out)" using OnHub s(1) by simp
    have "set (changed_channels h) \<subseteq> U \<union> set (moved h out)" using covers s(1) True by (auto simp: tells_all_def)
    then have "up_to cv shown S (U \<union> set (moved h out)) h'" by (intro up_to_hub [OF inv(1) ok s(1)]) auto
    moreover have "tracks session m dl from (U \<union> set (moved h out)) r'"
      using tracks_publish [OF inv(2) t] s(2) True by simp
    ultimately show ?thesis by (simp add: told)
  next
    case False
    then have "up_to cv shown S U h'" by (intro up_to_hub [OF inv(1) ok s(1)]) auto
    then show ?thesis using t s(2) False OnHub told_by_other [OF False] by simp
  qed
next
  case (OnRegister call)
  then obtain l' where s: "res_do call (empty_log, r) = Some (l', r')" "h' = h"
    using run by (auto split: option.splits)
  have "tracks session m dl from (U \<union> published_by call) r'"
    by (rule tracks_do [OF inv(2) t _ s(1)]) (use sp OnRegister in simp)
  moreover have "up_to cv shown S (U \<union> published_by call) h'"
    using up_to_mono [OF ok, of "U \<union> published_by call"] s(2) by simp
  ultimately show ?thesis by (simp add: OnRegister)
qed

lemma server_run_keeps:
  assumes covers: "tells_all g moved"
  shows "hub_inv h \<Longrightarrow> reg_inv r \<Longrightarrow> tracks session m dl from U r \<Longrightarrow> up_to cv shown S U h \<Longrightarrow>
     list_all (leaves_session session dl) evs \<Longrightarrow>
     \<exists>h' r'. server_run g moved evs (h, r) = Some (h', r') \<and> hub_inv h' \<and> reg_inv r' \<and>
       tracks session m dl from (U \<union> told_in g moved evs (h, r)) r' \<and>
       up_to cv shown S (U \<union> told_in g moved evs (h, r)) h'"
proof (induction evs arbitrary: h r U)
  case (Cons ev evs)
  obtain h1 r1 where s: "server_do g moved ev (h, r) = Some (h1, r1)" "hub_inv h1" "reg_inv r1"
    using server_do_total [OF Cons.prems(1,2)] by blast
  have u: "tracks session m dl from (U \<union> told_by g moved ev h) r1" "up_to cv shown S (U \<union> told_by g moved ev h) h1"
    using server_keeps [OF Cons.prems(1-4) _ s(1) covers] Cons.prems(5) by simp_all
  show ?case using Cons.IH [OF s(2,3) u] Cons.prems(5) s(1) by (simp add: Un_assoc)
qed simp

lemma server_breadth:
  assumes "hub_inv h" and "reg_inv r" and "server_run g moved evs (h, r) = Some (h', r')"
  shows "rs_breadth r' = rs_breadth r"
  using assms
proof (induction evs arbitrary: h r)
  case (Cons ev evs)
  obtain h1 r1 where s: "server_do g moved ev (h, r) = Some (h1, r1)" "hub_inv h1" "reg_inv r1"
    using server_do_total [OF Cons.prems(1,2)] by blast
  have "rs_breadth r1 = rs_breadth r"
  proof (cases ev)
    case (OnHub hev)
    then show ?thesis using s(1) by (auto split: option.splits)
  next
    case (OnRegister call)
    then obtain l1 where "res_do call (empty_log, r) = Some (l1, r1)" using s(1) by (auto split: option.splits)
    then show ?thesis by (rule res_do_breadth [OF Cons.prems(2)])
  qed
  then show ?case using Cons.IH [OF s(2,3)] Cons.prems(3) s(1) by simp
qed simp

subsection \<open>Properties\<close>

lemma suspended_tracks:
  assumes "reg_inv r" and "Suspend t0 session m r = Inr r'"
  shows "tracks session m (t0 + rs_window r) (rs_revision r) {} r'"
  using assms by (auto simp: Suspend_def Let_def tracks_def right_missed_def NewGrace_def reg_inv_def split: if_splits)

lemma resumed_answer:
  assumes "reg_inv r" and t: "tracks session m dl from U r" and "now < dl" and "folded \<le> Revision r"
  shows "\<exists>answer r'. Resume now \<lparr>tk_session = session, tk_folded = folded\<rparr> m r = Inr (answer, r') \<and>
     (ra_full answer \<longleftrightarrow> folded < from \<or> rs_breadth r < int (card U)) \<and>
     set (ra_missed answer) = (if ra_full answer then {} else U)"
proof -
  obtain s where s: "map_of (rs_held r) session = Some s" "su_member s = m" "su_grace s = \<lparr>deadline = dl\<rparr>" "su_from s = from"
      and missed: "right_missed (rs_breadth r) U (su_missed s)"
    using t by (auto simp: tracks_def)
  have "set (sortedIDs ids) = U" if "su_missed s = Some ids" for ids
    using missed that by (simp add: right_missed_def sortedIDs_def)
  then show ?thesis
    using s missed assms(3,4)
    by (cases "su_missed s") (auto simp: Resume_def Let_def Revision_def Expired_def right_missed_def)
qed

text \<open>
  C7: A resumption's difference is complete.  A client attaches, folds every message it is sent,
  loses its connection and is suspended.  Whatever then happens to the hub and the register short of ending the
  suspension, as long as the register is told of every channel a flush moved, a ticket presented after a flush
  and inside the window is accepted.  The answer says that everything follows exactly where the ticket is older
  than the suspension or more channels were told of than the register names; otherwise the client's old view is
  still exact, in the count and, where the client was showing it, in the members, for every channel its viewer
  could see when it dropped that the answer does not name.
\<close>

theorem resumed_view_is_current_but_for_the_missed:
  assumes "hub_reachable h" and "Attach g i v h = Inr (msg, h0)" and "list_all (keeps_client i) before"
    and "run_hub g before h0 = Some (out, h1)" and "cv = learn_all i out (learn msg new_view)"
    and "res_reachable r" and "Suspend t0 session m r = Inr r1"
    and "list_all (leaves_session session (t0 + rs_window r)) away" and "tells_all g moved"
    and "now < t0 + rs_window r"
  shows "\<exists>h2 r2. server_run g moved (away @ [OnHub EvFlush]) (Detach i h1, r1) = Some (h2, r2) \<and>
     (\<forall>folded \<le> Revision r2. \<exists>answer r3.
        Resume now \<lparr>tk_session = session, tk_folded = folded\<rparr> m r2 = Inr (answer, r3) \<and>
        (if folded < Revision r \<or>
            rs_breadth r < int (card (told_in g moved (away @ [OnHub EvFlush]) (Detach i h1, r1)))
         then ra_full answer \<and> ra_missed answer = []
         else \<not> ra_full answer \<and>
           (\<forall>ch. may_see g h1 v ch \<and> ch \<notin> set (ra_missed answer) \<longrightarrow>
              cv_counts cv ch = Some (Count ch (hub_projection h2)) \<and>
              (showing h1 i ch \<longrightarrow> cv_members cv ch = (\<lambda>m. here ch m (hub_projection h2))))))"
proof -
  note inv = hub_reachable_inv [OF assms(1)]
  have inv0: "hub_inv h0" by (rule hub_inv_Attach [OF inv assms(2)])
  have inv1: "hub_inv (Detach i h1)" by (rule hub_inv_Detach [OF run_hub_inv [OF inv0 assms(4)]])
  have rinv: "reg_inv r" by (rule res_reachable_inv [OF assms(6)])
  have rinv1: "reg_inv r1" by (rule Suspend_inv [OF rinv assms(7)])
  have ok: "view_ok g i v h1 cv"
    unfolding assms(5) by (rule view_ok_run [OF inv0 view_ok_attach [OF inv assms(2)] assms(3,4)])
  have det: "hub_projection (Detach i h1) = hub_projection h1" "hub_pending (Detach i h1) = hub_pending h1"
      "hub_known (Detach i h1) = hub_known h1"
    by (simp_all add: Detach_def)
  let ?S = "{ch. may_see g h1 v ch}" and ?evs = "away @ [OnHub EvFlush]"
  let ?U = "told_in g moved ?evs (Detach i h1, r1)"
  have "holds_still cv (showing h1 i ch) ch h1 \<and> flagged (hub_known h1) ch" if "may_see g h1 v ch" for ch
    using ok that by (auto simp: view_ok_def holds_still_def may_see_def)
  then have up: "up_to cv (showing h1 i) ?S {} (Detach i h1)"
    using holds_still_cong [OF det(1,2)] by (simp add: up_to_def det(3))
  note keeps = server_run_keeps [OF assms(9) inv1 rinv1 suspended_tracks [OF rinv assms(7)] up]
  obtain h2 r2 where run: "server_run g moved ?evs (Detach i h1, r1) = Some (h2, r2)"
      and inv2: "hub_inv h2" "reg_inv r2"
      and after: "tracks session m (t0 + rs_window r) (rs_revision r) ?U r2" "up_to cv (showing h1 i) ?S ?U h2"
    using keeps [of ?evs] assms(8) by auto
  have "rs_breadth r2 = rs_breadth r"
    using server_breadth [OF inv1 rinv1 run] assms(7) by (auto simp: Suspend_def Let_def split: if_splits)
  note answers = resumed_answer [OF inv2(2) after(1) assms(10), unfolded this]
  have empty: "hub_pending h2 = []"
  proof -
    obtain ha ra where "server_run g moved away (Detach i h1, r1) = Some (ha, ra)" "hub_inv ha"
      using keeps [OF assms(8)] by blast
    then show ?thesis using run by (auto simp: server_run_append Flush_eq)
  qed
  have current: "cv_counts cv ch = Some (Count ch (hub_projection h2)) \<and>
      (showing h1 i ch \<longrightarrow> cv_members cv ch = (\<lambda>m. here ch m (hub_projection h2)))"
    if "may_see g h1 v ch \<and> ch \<notin> ?U" for ch
    using after(2) that by (auto simp: up_to_def holds_still_def empty)
  let ?right = "\<lambda>folded answer.
     if folded < Revision r \<or> rs_breadth r < int (card ?U) then ra_full answer \<and> ra_missed answer = []
     else \<not> ra_full answer \<and>
       (\<forall>ch. may_see g h1 v ch \<and> ch \<notin> set (ra_missed answer) \<longrightarrow>
          cv_counts cv ch = Some (Count ch (hub_projection h2)) \<and>
          (showing h1 i ch \<longrightarrow> cv_members cv ch = (\<lambda>m. here ch m (hub_projection h2))))"
  have "\<exists>answer r3. Resume now \<lparr>tk_session = session, tk_folded = folded\<rparr> m r2 = Inr (answer, r3) \<and> ?right folded answer"
    if le: "folded \<le> Revision r2" for folded
  proof -
    from answers [OF le] obtain answer r3 where a:
        "Resume now \<lparr>tk_session = session, tk_folded = folded\<rparr> m r2 = Inr (answer, r3)"
        "ra_full answer \<longleftrightarrow> folded < rs_revision r \<or> rs_breadth r < int (card ?U)"
        "set (ra_missed answer) = (if ra_full answer then {} else ?U)"
      by blast
    have "?right folded answer"
    proof (cases "ra_full answer")
      case True
      then show ?thesis using a(2,3) by (simp add: Revision_def)
    next
      case False
      then have "set (ra_missed answer) = ?U" using a(3) by simp
      then show ?thesis using a(2) False current by (simp add: Revision_def)
    qed
    with a(1) show ?thesis by blast
  qed
  with run show ?thesis by blast
qed

subsection \<open>Concrete runs\<close>

lemma changed_channels_tells_all: "tells_all g (\<lambda>h out. changed_channels h)"
  by (simp add: tells_all_def)

definition bob_enters :: PresenceReport where
  "bob_enters = \<lparr>rep_member = bob, rep_seq = 1, rep_channel = lobby, rep_since = 0, rep_muted = False\<rparr>"

theorem resumed_view_is_current_but_for_the_missed_witness:
  "\<exists>h2 r2. server_run (Some ex_grants) (\<lambda>h out. changed_channels h) ([OnHub (EvReport bob_enters)] @ [OnHub EvFlush])
       (Detach ex_client ex_attached, ex_away) = Some (h2, r2) \<and>
     (\<exists>answer r3. Resume 1 \<lparr>tk_session = ''s'', tk_folded = Revision r2\<rparr> alice r2 = Inr (answer, r3))"
proof -
  have "1 < 0 + rs_window ex_register"
    by (simp add: ex_register_def ResumeWindow_def Second_def)
  from resumed_view_is_current_but_for_the_missed [OF ex_hub_reachable ex_Attach _ _ refl ex_register_reachable
      ex_Suspend _ changed_channels_tells_all this, of "[]" "[]" _ "[OnHub (EvReport bob_enters)]"]
  show ?thesis by fastforce
qed

text \<open>What is sure of a hub that has nothing pending, and the calls that follow short of a flush.\<close>

definition view_of :: "PresenceHub \<Rightarrow> client_view" where
  "view_of h = \<lparr>cv_counts = (\<lambda>ch. Some (Count ch (hub_projection h))),
     cv_members = (\<lambda>ch m. here ch m (hub_projection h))\<rparr>"

lemma holds_still_run:
  assumes "list_all (\<lambda>ev. ev \<noteq> EvFlush) evs" and "run_hub g evs h = Some (out, h')" and "hub_inv h" and "\<not> IsZero ch"
    and "holds_still cv shown ch h"
  shows "holds_still cv shown ch h'"
  using assms
proof (induction evs arbitrary: h out)
  case (Cons ev evs)
  obtain out1 h1 out2 where s: "hub_do g ev h = Some (out1, h1)" "run_hub g evs h1 = Some (out2, h')"
    using Cons.prems(2) by (auto split: option.splits)
  have "holds_still cv shown ch h1"
  proof (cases "\<exists>rep. ev = EvReport rep")
    case True
    then show ?thesis using s(1) holds_still_report [OF Cons.prems(3-5)] by auto
  next
    case False
    then have "hub_projection h1 = hub_projection h \<and> hub_pending h1 = hub_pending h"
      using hub_do_other [OF s(1)] Cons.prems(1) by simp
    then show ?thesis using holds_still_cong Cons.prems(5) by blast
  qed
  then show ?case using Cons.IH [OF _ s(2) hub_do_inv [OF Cons.prems(3) s(1)] Cons.prems(4)] Cons.prems(1) by simp
qed simp

lemma delivered_iff:
  assumes "hub_inv h" and "Flush g h = Some (out, h')" and "map_of (hub_clients h) i = Some c"
  shows "d \<in> set out \<and> dl_client d = i \<longleftrightarrow> d = delivery_for g h i \<and> \<not> Empty (dl_message d)"
proof -
  have "i \<in> set (hub_attached h)" using assms(1,3) by (auto simp: hub_inv_def)
  moreover have "dl_client (delivery_for g h j) = j" for j by (simp add: delivery_for_def)
  ultimately show ?thesis using assms(2) by (auto simp: Flush_eq [OF assms(1)])
qed

lemma delivered_some:
  assumes "hub_inv h" and "Flush g h = Some (out, h')" and "map_of (hub_clients h) i = Some c"
    and "\<And>msg. P msg \<Longrightarrow> \<not> Empty msg"
  shows "(\<exists>d \<in> set out. dl_client d = i \<and> P (dl_message d)) \<longleftrightarrow> P (dl_message (delivery_for g h i))"
  using delivered_iff [OF assms(1-3)] assms(4) by metis

lemma flush_counts_iff:
  assumes "hub_inv h" and "Flush g h = Some (out, h')" and "map_of (hub_clients h) i = Some c"
  shows "(\<exists>d \<in> set out. dl_client d = i \<and> ch \<in> cu_channel ` set (msg_counts (dl_message d))) \<longleftrightarrow>
     may_see g h (cl_viewer c) ch \<and> pend_count (hub_pending h) ch"
proof -
  have "(\<exists>d \<in> set out. dl_client d = i \<and> ch \<in> cu_channel ` set (msg_counts (dl_message d))) \<longleftrightarrow>
      ch \<in> cu_channel ` set (msg_counts (dl_message (delivery_for g h i)))"
    by (rule delivered_some [OF assms]) (auto simp: Empty_def)
  also have "\<dots> \<longleftrightarrow> may_see g h (cl_viewer c) ch \<and> pend_count (hub_pending h) ch"
    unfolding delivery_counts [OF assms(1,3)] visible_may_see by force
  finally show ?thesis .
qed

lemma flush_members_iff:
  assumes "hub_inv h" and "Flush g h = Some (out, h')" and "map_of (hub_clients h) i = Some c"
  shows "(\<exists>d \<in> set out. dl_client d = i \<and>
       (\<exists>u \<in> set (msg_members (dl_message d)). mu_channel u = ch \<and> mu_member u = m)) \<longleftrightarrow>
     may_see g h (cl_viewer c) ch \<and> flagged (cl_subscribed c) ch \<and> pend_of (hub_pending h) ch m \<noteq> None"
proof -
  have truth: "pend_truth (hub_pending h) (hub_projection h)" using assms(1) by (simp add: hub_inv_def)
  have "(\<exists>d \<in> set out. dl_client d = i \<and>
        (\<exists>u \<in> set (msg_members (dl_message d)). mu_channel u = ch \<and> mu_member u = m)) \<longleftrightarrow>
      (\<exists>u \<in> set (msg_members (dl_message (delivery_for g h i))). mu_channel u = ch \<and> mu_member u = m)"
    by (rule delivered_some [OF assms]) (auto simp: Empty_def)
  also have "\<dots> \<longleftrightarrow>
      may_see g h (cl_viewer c) ch \<and> flagged (cl_subscribed c) ch \<and> pend_of (hub_pending h) ch m \<noteq> None"
    using truth by (auto simp: Bex_def delivery_members [OF assms(1,3)] visible_may_see pend_truth_def)
  finally show ?thesis .
qed

text \<open>
  C39: A flush tells everybody it must, and nobody else.  Start from a hub with nothing pending and let reports
  come in and clients come and go until the next flush.  Where the count of a channel has moved since, the flush
  tells it to a client exactly where the client's viewer may see the channel; where what is known of a member in a
  channel has moved, it tells that exactly where the client has also subscribed to the channel.  So a channel no
  attached client may see is in no message at all, however it moved, and nothing of it is left pending for a
  later one.
\<close>

theorem flush_tells_exactly_those_who_may_see:
  assumes "hub_reachable h" and "hub_pending h = []" and "list_all (\<lambda>ev. ev \<noteq> EvFlush) evs"
    and "run_hub g evs h = Some (out0, h1)" and "Flush g h1 = Some (out, h2)"
  shows "(\<forall>i c. map_of (hub_clients h1) i = Some c \<longrightarrow>
       (Count ch (hub_projection h1) \<noteq> Count ch (hub_projection h) \<longrightarrow>
          ((\<exists>d \<in> set out. dl_client d = i \<and> ch \<in> cu_channel ` set (msg_counts (dl_message d))) \<longleftrightarrow>
           may_see g h1 (cl_viewer c) ch)) \<and>
       (here ch m (hub_projection h1) \<noteq> here ch m (hub_projection h) \<longrightarrow>
          ((\<exists>d \<in> set out. dl_client d = i \<and>
              (\<exists>u \<in> set (msg_members (dl_message d)). mu_channel u = ch \<and> mu_member u = m)) \<longleftrightarrow>
           may_see g h1 (cl_viewer c) ch \<and> flagged (cl_subscribed c) ch))) \<and>
     ((\<forall>i c. map_of (hub_clients h1) i = Some c \<longrightarrow> \<not> may_see g h1 (cl_viewer c) ch) \<longrightarrow>
        (\<forall>d \<in> set out. ch \<notin> told_of (dl_message d))) \<and>
     hub_pending h2 = []"
proof -
  note inv = hub_reachable_inv [OF assms(1)]
  have inv1: "hub_inv h1" by (rule run_hub_inv [OF inv assms(4)])
  have start: "holds_still (view_of h) True ch h" by (simp add: holds_still_def view_of_def)
  have moved: "pend_count (hub_pending h1) ch \<or> Count ch (hub_projection h1) = Count ch (hub_projection h)"
      "pend_of (hub_pending h1) ch m \<noteq> None \<or> here ch m (hub_projection h1) = here ch m (hub_projection h)"
    if "\<not> IsZero ch"
    using holds_still_run [OF assms(3,4) inv that start] by (auto simp: holds_still_def view_of_def)
  have known: "\<not> IsZero ch" if "may_see g h1 v ch" for v
    using that inv1 by (auto simp: may_see_def hub_inv_def)
  note counts = flush_counts_iff [OF inv1 assms(5)] and members = flush_members_iff [OF inv1 assms(5)]
  have hidden: "ch \<notin> told_of (dl_message d)" if "d \<in> set out"
    and "\<And>i c. map_of (hub_clients h1) i = Some c \<Longrightarrow> \<not> may_see g h1 (cl_viewer c) ch" for d
  proof -
    from delivered [OF inv1 assms(5) that(1)] obtain c
      where "map_of (hub_clients h1) (dl_client d) = Some c" "d = delivery_for g h1 (dl_client d)"
      by blast
    then show ?thesis using that(2) told_of_visible [OF inv1, of "dl_client d" c ch g] by (auto simp: visible_may_see)
  qed
  have "hub_pending h2 = []" using assms(5) by (auto simp: Flush_eq [OF inv1])
  have told: "(\<exists>d \<in> set out. dl_client d = i \<and> ch \<in> cu_channel ` set (msg_counts (dl_message d))) \<longleftrightarrow>
      may_see g h1 (cl_viewer c) ch"
    if "map_of (hub_clients h1) i = Some c" "Count ch (hub_projection h1) \<noteq> Count ch (hub_projection h)" for i c
    using counts [OF that(1)] moved(1) known that(2) by metis
  have shown: "(\<exists>d \<in> set out. dl_client d = i \<and>
        (\<exists>u \<in> set (msg_members (dl_message d)). mu_channel u = ch \<and> mu_member u = m)) \<longleftrightarrow>
      may_see g h1 (cl_viewer c) ch \<and> flagged (cl_subscribed c) ch"
    if "map_of (hub_clients h1) i = Some c" "here ch m (hub_projection h1) \<noteq> here ch m (hub_projection h)" for i c
    using members [OF that(1)] moved(2) known that(2) by metis
  show ?thesis
  proof (intro conjI allI impI ballI)
    show "hub_pending h2 = []" by fact
    show "ch \<notin> told_of (dl_message d)"
      if "\<forall>i c. map_of (hub_clients h1) i = Some c \<longrightarrow> \<not> may_see g h1 (cl_viewer c) ch" and "d \<in> set out" for d
      using that(1) by (intro hidden [OF that(2)]) simp
  qed (rule told shown; assumption)+
qed

theorem flush_tells_exactly_those_who_may_see_witness:
  "(\<exists>d \<in> set [ex_delivery]. dl_client d = ex_client \<and> lobby \<in> cu_channel ` set (msg_counts (dl_message d))) \<longleftrightarrow>
     may_see (Some ex_grants) ex_busy (Person alice) lobby"
proof -
  have e: "hub_pending ex_attached = []" "Count lobby (hub_projection ex_attached) = 0"
    by (simp_all add: ex_attached_def ex_hub_def Count_def NewPresenceProjection_def)
  have r: "run_hub (Some ex_grants) [EvReport alice_joins] ex_attached = Some ([], ex_busy)"
    by (simp add: ex_busy_def)
  have b: "Count lobby (hub_projection ex_busy) = 1" "map_of (hub_clients ex_busy) ex_client =
      Some \<lparr>cl_viewer = Person alice, cl_subscribed = []\<rparr>"
    by (simp_all add: ex_busy_eq ex_attached_def Apply_def alice_joins_def NewPresenceProjection_def Let_def Count_def)
  from flush_tells_exactly_those_who_may_see [OF ex_attached_reachable e(1) _ r ex_busy_flush, of lobby] b e(2)
  show ?thesis by fastforce
qed

text \<open>
  So the messages of a flush do not say what the register has to be told, which has to be every channel that moved.
  Here the only client is suspended, another member enters the channel it shows the count of, the hub is flushed and
  the register told of the channels in the messages; the resumption then answers, not as a full transfer, that
  nothing was missed, although the count has moved.
\<close>

theorem messages_alone_hide_a_move:
  "\<exists>h2 r2 answer r3. server_run (Some ex_grants) (\<lambda>h out. told_channels out) [OnHub (EvReport bob_enters), OnHub EvFlush]
       (Detach ex_client ex_attached, ex_away) = Some (h2, r2) \<and>
     Resume 1 \<lparr>tk_session = ''s'', tk_folded = Revision ex_away\<rparr> alice r2 = Inr (answer, r3) \<and>
     \<not> ra_full answer \<and> ra_missed answer = [] \<and> may_see (Some ex_grants) ex_attached (Person alice) lobby \<and>
     cv_counts (learn ex_attach_msg new_view) lobby = Some 0 \<and> Count lobby (hub_projection h2) = 1"
proof -
  let ?h1 = "snd (HubApply bob_enters (Detach ex_client ex_attached))"
  let ?h2 = "?h1\<lparr>hub_pending := []\<rparr>"
  have "hub_inv (Detach ex_client ex_attached)"
    by (rule hub_inv_Detach [OF hub_reachable_inv [OF ex_attached_reachable]])
  then have inv: "hub_inv ?h1" by (rule hub_inv_HubApply)
  have att: "hub_attached ?h1 = []"
    by (simp add: HubApply_def Detach_def ex_attached_def split: prod.split option.split)
  have "Flush (Some ex_grants) ?h1 = Some ([], ?h2)" by (simp add: Flush_eq [OF inv] att)
  then have run: "server_run (Some ex_grants) (\<lambda>h out. told_channels out) [OnHub (EvReport bob_enters), OnHub EvFlush]
       (Detach ex_client ex_attached, ex_away) = Some (?h2, ex_away)"
    by (simp add: told_channels_def Published_def)
  have count: "Count lobby (hub_projection ?h2) = 1"
    by (simp add: HubApply_def Detach_def ex_attached_def ex_hub_def Apply_def bob_enters_def NewPresenceProjection_def
        Count_def Let_def IsZero_def)
  have see: "may_see (Some ex_grants) ex_attached (Person alice) lobby"
    using ex_sees by (simp add: may_see_def ex_attached_def ex_hub_def flagged_def)
  have old: "cv_counts (learn ex_attach_msg new_view) lobby = Some 0"
    by (simp add: learn_def learn_count_def ex_attach_msg_def)
  have "Resume 1 \<lparr>tk_session = ''s'', tk_folded = Revision ex_away\<rparr> alice ex_away =
      Inr (\<lparr>ra_member = alice, ra_missed = [], ra_full = False\<rparr>, forget ''s'' ex_away)"
    by (simp add: Resume_def ex_away_def ex_register_def Revision_def Let_def sortedIDs_def ResumeWindow_def Second_def)
  with run count see old show ?thesis by (metis (no_types, lifting) ResumeAnswer.select_convs(2,3))
qed

end
