(* ===== verification/Wire_Frame.thy ===== *)
theory Wire_Frame
  imports Go_Prelude
begin

text \<open>
  The framing of \<^verbatim>\<open>internal/signalling/frame.go\<close> over a byte stream.

  The stream is the \<^verbatim>\<open>io.ReadWriter\<close> the code is handed: the bytes it will still yield, what
  it answers when they run out, the bytes written to it and how many more it takes before a write
  fails.  A frame is written as one write; how much of a failing write reaches the peer is the
  stream's affair and is modelled as any prefix it has room for.
\<close>

subsection \<open>Bytes\<close>

type_synonym byte = "8 word"

definition be_nat :: "byte list \<Rightarrow> nat" where
  "be_nat bs = foldl (\<lambda>a b. a * 256 + unat b) 0 bs"

definition Uint32 :: "byte list \<Rightarrow> 32 word" where
  "Uint32 bs = of_nat (be_nat bs)"

definition Uint16 :: "byte list \<Rightarrow> 16 word" where
  "Uint16 bs = of_nat (be_nat bs)"

definition PutUint32 :: "32 word \<Rightarrow> byte list" where
  "PutUint32 v = [of_nat (unat v div 16777216), of_nat (unat v div 65536),
                  of_nat (unat v div 256), of_nat (unat v)]"

definition PutUint16 :: "16 word \<Rightarrow> byte list" where
  "PutUint16 v = [of_nat (unat v div 256), of_nat (unat v)]"

lemma length_Put [simp]: "length (PutUint32 v) = 4" "length (PutUint16 w) = 2"
  by (simp_all add: PutUint32_def PutUint16_def)

lemma unat_byte: "unat (of_nat n :: byte) = n mod 256"
  by (simp add: unat_of_nat)

lemma unat_byte_less: "unat (b :: byte) < 256"
  using unsigned_less [of b] by simp

lemma unat_small: "n < 65536 \<Longrightarrow> unat (of_nat n :: 16 word) = n" "m < 4294967296 \<Longrightarrow> unat (of_nat m :: 32 word) = m"
  by (simp_all add: unat_of_nat)

lemma byte_of: "(of_nat (k * 256 + unat x) :: byte) = x"
  by (rule word_unat_eq_iff [THEN iffD2]) (use unat_byte_less [of x] in \<open>simp only: unat_byte mod_mult_self3 mod_less\<close>)

lemma be_nat_simps:
  "be_nat [a, b] = unat a * 256 + unat b"
  "be_nat [a, b, c, d] = ((unat a * 256 + unat b) * 256 + unat c) * 256 + unat d"
  by (simp_all add: be_nat_def)

lemma Uint16_Put [simp]: "Uint16 (PutUint16 v) = v"
proof -
  have v: "unat v < 65536" using unsigned_less [of v] by simp
  then have "unat v div 256 mod 256 * 256 + unat v mod 256 = unat v" by simp
  then have "be_nat (PutUint16 v) = unat v"
    by (simp only: PutUint16_def be_nat_simps unat_byte)
  then show ?thesis by (simp add: Uint16_def)
qed

lemma Uint32_Put [simp]: "Uint32 (PutUint32 v) = v"
proof -
  let ?n = "unat v"
  have v: "?n < 4294967296" using unsigned_less [of v] by simp
  have "?n div 16777216 mod 256 = ?n div 16777216" using v by simp
  moreover have "?n div 16777216 * 256 + ?n div 65536 mod 256 = ?n div 65536"
    using div_mult_mod_eq [of "?n div 65536" 256] by (simp add: div_mult2_eq [symmetric])
  moreover have "?n div 65536 * 256 + ?n div 256 mod 256 = ?n div 256"
    using div_mult_mod_eq [of "?n div 256" 256] by (simp add: div_mult2_eq [symmetric])
  moreover have "?n div 256 * 256 + ?n mod 256 = ?n" by simp
  ultimately have "be_nat (PutUint32 v) = ?n"
    by (simp only: PutUint32_def be_nat_simps unat_byte)
  then show ?thesis by (simp add: Uint32_def)
qed

lemma list_two: "length bs = 2 \<Longrightarrow> \<exists>a b. bs = [a, b]"
  by (metis Suc_1 length_0_conv length_Suc_conv One_nat_def)

lemma list_four: "length bs = 4 \<Longrightarrow> \<exists>a b c d. bs = [a, b, c, d]"
  by (auto simp: numeral_eq_Suc length_Suc_conv)

lemma Put_Uint16: "length bs = 2 \<Longrightarrow> PutUint16 (Uint16 bs) = bs"
proof -
  assume "length bs = 2"
  then obtain a b where bs: "bs = [a, b]" using list_two by blast
  have ab: "unat a < 256" "unat b < 256" by (rule unat_byte_less)+
  then have u: "unat (of_nat (unat a * 256 + unat b) :: 16 word) = unat a * 256 + unat b"
    by (intro unat_small) simp
  have d: "(unat a * 256 + unat b) div 256 = unat a" using ab by simp
  have "Uint16 bs = of_nat (unat a * 256 + unat b)"
    by (simp add: bs Uint16_def be_nat_def)
  then show ?thesis
    unfolding PutUint16_def using u d byte_of [of "unat a" b] by (simp only: bs of_nat_unat ucast_id)
qed

lemma Put_Uint32: "length bs = 4 \<Longrightarrow> PutUint32 (Uint32 bs) = bs"
proof -
  assume "length bs = 4"
  then obtain a b c d where bs: "bs = [a, b, c, d]" using list_four by blast
  have ab: "unat a < 256" "unat b < 256" "unat c < 256" "unat d < 256" by (rule unat_byte_less)+
  let ?n = "((unat a * 256 + unat b) * 256 + unat c) * 256 + unat d"
  have n: "?n < 4294967296" using ab by simp
  have u: "unat (of_nat ?n :: 32 word) = ?n"
    by (rule unat_small(2) [OF n])
  have d3: "?n div 256 = (unat a * 256 + unat b) * 256 + unat c" using ab by simp
  have d2: "?n div 65536 = unat a * 256 + unat b" using ab by simp
  have d1: "?n div 16777216 = unat a" using ab by simp
  have "Uint32 bs = of_nat ?n"
    by (simp add: bs Uint32_def be_nat_def)
  then show ?thesis
    unfolding PutUint32_def using u d1 d2 d3 byte_of [of "unat a" b]
      byte_of [of "unat a * 256 + unat b" c] byte_of [of "(unat a * 256 + unat b) * 256 + unat c" d]
    by (simp only: bs of_nat_unat ucast_id)
qed

subsection \<open>Streams\<close>

datatype read_error = EOF | UnexpectedEOF | ReadFailure string

record stream =
  st_in :: "byte list"
  st_end :: read_error
  st_out :: "byte list"
  st_room :: nat

text \<open>
  \<^verbatim>\<open>io.ReadFull\<close>: all of the bytes asked for, or an error.  Running out after some bytes turns an
  end of file into an unexpected one; any other error of the stream is passed on.
\<close>

definition ReadFull :: "nat \<Rightarrow> stream \<Rightarrow> (read_error + byte list) \<times> stream" where
  "ReadFull n s =
     (if n \<le> length (st_in s)
      then (Inr (take n (st_in s)), s\<lparr>st_in := drop n (st_in s)\<rparr>)
      else (Inl (if st_in s \<noteq> [] \<and> st_end s = EOF then UnexpectedEOF else st_end s), s\<lparr>st_in := []\<rparr>))"

text \<open>\<^verbatim>\<open>Write\<close>: whether the whole buffer was taken, and the stream afterwards.\<close>

definition Write :: "byte list \<Rightarrow> stream \<Rightarrow> bool \<times> stream" where
  "Write buf s =
     (length buf \<le> st_room s,
      s\<lparr>st_out := st_out s @ take (st_room s) buf, st_room := st_room s - length buf\<rparr>)"

subsection \<open>Frames\<close>

type_synonym Kind = "8 word"

definition KindReserved :: Kind where "KindReserved = 0"

definition KindAuthenticate :: Kind where "KindAuthenticate = 1"

definition KindSpaceState :: Kind where "KindSpaceState = 2"

definition MaxPayloadSize :: nat where "MaxPayloadSize = 64 * 1024"

definition headerSize :: nat where "headerSize = 5"

record Frame =
  frame_kind :: Kind
  frame_payload :: "byte list"

datatype malformed =
    TrailingBytes nat
  | FieldOverrun "16 word" nat nat
  | VersionWidth "16 word" nat
  | FieldAbsent "16 word"
  | NotAcceptance Kind
  | NotRefusal Kind

datatype wire_error =
    ReadingHeader read_error
  | ReadingPayload "32 word" read_error
  | ErrFrameTooLarge nat
  | ErrKindReserved nat
  | WritingFrame nat
  | ErrUnauthenticated Kind
  | ErrUnknownMessage Kind
  | ErrHelloExpected Kind
  | ErrMalformedMessage malformed
  | ErrVersionUnsupported "16 word"

definition Decode :: "stream \<Rightarrow> (wire_error + Frame) \<times> stream" where
  "Decode s =
     (case ReadFull headerSize s of
        (Inl err, s1) \<Rightarrow> (Inl (ReadingHeader err), s1)
      | (Inr header, s1) \<Rightarrow>
          let declared = Uint32 (take 4 header) in
          if declared > of_nat MaxPayloadSize then (Inl (ErrFrameTooLarge (unat declared)), s1)
          else
            let kind = header ! 4 in
            if kind = KindReserved then (Inl (ErrKindReserved (unat declared)), s1)
            else
              (case ReadFull (unat declared) s1 of
                 (Inl err, s2) \<Rightarrow> (Inl (ReadingPayload declared err), s2)
               | (Inr payload, s2) \<Rightarrow> (Inr \<lparr>frame_kind = kind, frame_payload = payload\<rparr>, s2)))"

definition Encode :: "Frame \<Rightarrow> stream \<Rightarrow> wire_error option \<times> stream" where
  "Encode f s =
     (if length (frame_payload f) > MaxPayloadSize then
        (Some (ErrFrameTooLarge (length (frame_payload f))), s)
      else if frame_kind f = KindReserved then
        (Some (ErrKindReserved (length (frame_payload f))), s)
      else
        let buf = PutUint32 (of_nat (length (frame_payload f))) @ [frame_kind f] @ frame_payload f in
        (case Write buf s of
           (written, s1) \<Rightarrow>
             (if \<not> written then Some (WritingFrame (length buf)) else None, s1)))"

subsection \<open>The bytes of a frame\<close>

definition frame_bytes :: "Frame \<Rightarrow> byte list" where
  "frame_bytes f = PutUint32 (of_nat (length (frame_payload f))) @ [frame_kind f] @ frame_payload f"

definition frame_ok :: "Frame \<Rightarrow> bool" where
  "frame_ok f \<longleftrightarrow> length (frame_payload f) \<le> MaxPayloadSize \<and> frame_kind f \<noteq> KindReserved"

lemma length_frame_bytes [simp]: "length (frame_bytes f) = headerSize + length (frame_payload f)"
  by (simp add: frame_bytes_def headerSize_def)

lemma Encode_ok:
  "frame_ok f \<Longrightarrow> Encode f s =
     (if headerSize + length (frame_payload f) \<le> st_room s then None
      else Some (WritingFrame (headerSize + length (frame_payload f))),
      snd (Write (frame_bytes f) s))"
  by (simp add: Encode_def frame_ok_def Write_def frame_bytes_def headerSize_def Let_def)

lemma Encode_refused: "\<not> frame_ok f \<Longrightarrow> \<exists>err. Encode f s = (Some err, s)"
  by (auto simp: Encode_def frame_ok_def)

lemma Encode_None:
  assumes "Encode f s = (None, s')"
  shows "frame_ok f \<and> st_out s' = st_out s @ frame_bytes f \<and> st_in s' = st_in s"
proof -
  have ok: "frame_ok f" using assms Encode_refused [of f s] by auto
  then show ?thesis
    using assms by (auto simp: Encode_ok Write_def split: if_splits)
qed

lemma declared_length:
  "length p \<le> MaxPayloadSize \<Longrightarrow> unat (of_nat (length p) :: 32 word) = length p"
  by (simp add: unat_of_nat MaxPayloadSize_def)

lemma declared_small:
  "(of_nat MaxPayloadSize :: 32 word) < d \<longleftrightarrow> MaxPayloadSize < unat d"
  by (simp add: word_less_nat_alt MaxPayloadSize_def)

lemma Decode_frame_bytes:
  assumes "frame_ok f"
  shows "Decode (s\<lparr>st_in := frame_bytes f @ rest\<rparr>) = (Inr f, s\<lparr>st_in := rest\<rparr>)"
proof -
  let ?h = "PutUint32 (of_nat (length (frame_payload f))) @ [frame_kind f]"
  let ?n = "length (frame_payload f)"
  have h: "length ?h = headerSize" by (simp add: headerSize_def)
  have "ReadFull headerSize (s\<lparr>st_in := ?h @ frame_payload f @ rest\<rparr>) =
      (Inr ?h, s\<lparr>st_in := frame_payload f @ rest\<rparr>)"
    using h by (simp add: ReadFull_def del: append.simps)
  moreover have "Uint32 (take 4 ?h) = of_nat ?n" "?h ! 4 = frame_kind f"
    by (simp_all add: nth_append)
  moreover have "unat (of_nat ?n :: 32 word) = ?n"
    using assms by (intro declared_length) (simp add: frame_ok_def)
  moreover have "ReadFull ?n (s\<lparr>st_in := frame_payload f @ rest\<rparr>) = (Inr (frame_payload f), s\<lparr>st_in := rest\<rparr>)"
    by (simp add: ReadFull_def)
  ultimately show ?thesis
    using assms by (simp add: Decode_def frame_bytes_def Let_def declared_small frame_ok_def)
qed

subsection \<open>What a decode takes from the stream\<close>

lemma ReadFull_in: "ReadFull n s = (Inr bs, s') \<Longrightarrow> length bs = n \<and> st_in s = bs @ st_in s' \<and> s' = s\<lparr>st_in := st_in s'\<rparr>"
  by (auto simp: ReadFull_def split: if_splits)

lemma ReadFull_short: "ReadFull n s = (Inl err, s') \<Longrightarrow> length (st_in s) < n \<and> s' = s\<lparr>st_in := []\<rparr>"
  by (auto simp: ReadFull_def split: if_splits)

lemma header_bytes: "length h = headerSize \<Longrightarrow> h = take 4 h @ [h ! 4] \<and> length (take 4 h) = 4"
proof -
  assume h: "length h = headerSize"
  then have "take (Suc 4) h = take 4 h @ [h ! 4]"
    by (intro take_Suc_conv_app_nth) (simp add: headerSize_def)
  with h show ?thesis by (simp add: headerSize_def)
qed

text \<open>The four ways a decode ends.\<close>

lemma Decode_cases [case_names header too_large reserved payload frame]:
  assumes "\<And>err. length (st_in s) < headerSize \<Longrightarrow> Decode s = (Inl (ReadingHeader err), s\<lparr>st_in := []\<rparr>) \<Longrightarrow> P"
    and "\<And>d k rest. st_in s = PutUint32 d @ [k] @ rest \<Longrightarrow> MaxPayloadSize < unat d \<Longrightarrow>
      Decode s = (Inl (ErrFrameTooLarge (unat d)), s\<lparr>st_in := rest\<rparr>) \<Longrightarrow> P"
    and "\<And>d rest. st_in s = PutUint32 d @ [KindReserved] @ rest \<Longrightarrow> unat d \<le> MaxPayloadSize \<Longrightarrow>
      Decode s = (Inl (ErrKindReserved (unat d)), s\<lparr>st_in := rest\<rparr>) \<Longrightarrow> P"
    and "\<And>d k rest err. st_in s = PutUint32 d @ [k] @ rest \<Longrightarrow> unat d \<le> MaxPayloadSize \<Longrightarrow>
      length rest < unat d \<Longrightarrow> Decode s = (Inl (ReadingPayload d err), s\<lparr>st_in := []\<rparr>) \<Longrightarrow> P"
    and "\<And>f rest. frame_ok f \<Longrightarrow> st_in s = frame_bytes f @ rest \<Longrightarrow>
      Decode s = (Inr f, s\<lparr>st_in := rest\<rparr>) \<Longrightarrow> P"
  shows P
proof (cases "ReadFull headerSize s")
  case (Pair res s1)
  show P
  proof (cases res)
    case (Inl err)
    then show P
      using Pair ReadFull_short [of headerSize s err s1] assms(1) [of err] by (simp add: Decode_def)
  next
    case (Inr h)
    then have h: "length h = headerSize" and s1: "st_in s = h @ st_in s1" "s1 = s\<lparr>st_in := st_in s1\<rparr>"
      using Pair ReadFull_in by blast+
    let ?d = "Uint32 (take 4 h)" and ?k = "h ! 4"
    have hb: "h = PutUint32 ?d @ [?k]" using header_bytes [OF h] Put_Uint32 by metis
    have whole: "st_in s = PutUint32 ?d @ [?k] @ st_in s1" using s1(1) hb by (metis append_assoc)
    show P
    proof (cases "MaxPayloadSize < unat ?d")
      case True
      then have "Decode s = (Inl (ErrFrameTooLarge (unat ?d)), s1)"
        using Pair Inr by (simp add: Decode_def Let_def declared_small)
      then show P using assms(2) [OF whole True] s1(2) by simp
    next
      case small: False
      show P
      proof (cases "?k = KindReserved")
        case True
        then have "Decode s = (Inl (ErrKindReserved (unat ?d)), s1)"
          using Pair Inr small by (simp add: Decode_def Let_def declared_small)
        then show P using assms(3) [of ?d "st_in s1"] whole True small s1(2) by simp
      next
        case False
        show P
        proof (cases "ReadFull (unat ?d) s1")
          case p: (Pair res2 s2)
          show P
          proof (cases res2)
            case (Inl err)
            then have "length (st_in s1) < unat ?d" "s2 = s1\<lparr>st_in := []\<rparr>"
              using p ReadFull_short by blast+
            moreover have "Decode s = (Inl (ReadingPayload ?d err), s2)"
              using Pair Inr small False p Inl by (simp add: Decode_def Let_def declared_small)
            moreover have "s1\<lparr>st_in := []\<rparr> = s\<lparr>st_in := []\<rparr>"
              by (subst s1(2)) simp
            ultimately show P using assms(4) [OF whole] small by simp
          next
            case r2: (Inr pl)
            then have pl: "length pl = unat ?d" "st_in s1 = pl @ st_in s2" "s2 = s1\<lparr>st_in := st_in s2\<rparr>"
              using p ReadFull_in by blast+
            let ?f = "\<lparr>frame_kind = ?k, frame_payload = pl\<rparr>"
            have "Decode s = (Inr ?f, s2)"
              using Pair Inr small False p r2 by (simp add: Decode_def Let_def declared_small)
            moreover have "s2 = s\<lparr>st_in := st_in s2\<rparr>"
              by (subst pl(3), subst s1(2)) simp
            moreover have "frame_ok ?f" using small False pl(1) by (simp add: frame_ok_def)
            moreover have "st_in s = frame_bytes ?f @ st_in s2"
              using whole pl(1,2) by (simp add: frame_bytes_def)
            ultimately show P using assms(5) [of ?f "st_in s2"] by simp
          qed
        qed
      qed
    qed
  qed
qed

lemma frame_bytes_inject:
  assumes "frame_ok f" "frame_ok g" "frame_bytes f @ r = frame_bytes g @ r'"
  shows "f = g \<and> r = r'"
proof -
  fix s :: stream
  have "(Inr f, s\<lparr>st_in := r\<rparr>) = (Inr g :: wire_error + Frame, s\<lparr>st_in := r'\<rparr>)"
    using Decode_frame_bytes [OF assms(1), where s = s and rest = r] Decode_frame_bytes [OF assms(2), where s = s and rest = r'] assms(3)
    by simp
  then have "f = g" and "st_in (s\<lparr>st_in := r\<rparr>) = st_in (s\<lparr>st_in := r'\<rparr>)" by (blast, metis Pair_inject)
  then show ?thesis by simp
qed

subsection \<open>Properties\<close>

fun send_all :: "Frame list \<Rightarrow> stream \<Rightarrow> wire_error option \<times> stream" where
  "send_all [] s = (None, s)"
| "send_all (f # fs) s =
     (case Encode f s of (Some err, s') \<Rightarrow> (Some err, s') | (None, s') \<Rightarrow> send_all fs s')"

fun receive :: "nat \<Rightarrow> stream \<Rightarrow> (wire_error + Frame) list \<times> stream" where
  "receive 0 s = ([], s)"
| "receive (Suc n) s =
     (case Decode s of (r, s') \<Rightarrow> (case receive n s' of (rs, s'') \<Rightarrow> (r # rs, s'')))"

lemma send_all_bytes:
  "send_all fs s = (None, s') \<Longrightarrow>
     list_all frame_ok fs \<and> st_out s' = st_out s @ concat (map frame_bytes fs)"
proof (induction fs arbitrary: s)
  case (Cons f fs)
  then obtain s1 where step: "Encode f s = (None, s1)" "send_all fs s1 = (None, s')"
    by (auto split: prod.splits option.splits)
  then show ?case using Cons.IH [OF step(2)] Encode_None [OF step(1)] by simp
qed simp

lemma receive_bytes:
  "list_all frame_ok fs \<Longrightarrow>
     receive (length fs) (s\<lparr>st_in := concat (map frame_bytes fs) @ rest\<rparr>) = (map Inr fs, s\<lparr>st_in := rest\<rparr>)"
  by (induction fs) (simp_all add: Decode_frame_bytes)

text \<open>
  C24: Frames arrive as they were sent.  Whatever frames a writer encodes without an error, a reader
  of the bytes written decodes exactly those frames in that order, and stops right behind the last.
\<close>

theorem frames_arrive_as_sent:
  assumes "send_all fs s = (None, s')"
  shows "\<exists>bytes. st_out s' = st_out s @ bytes \<and>
     receive (length fs) (t\<lparr>st_in := bytes @ rest\<rparr>) = (map Inr fs, t\<lparr>st_in := rest\<rparr>)"
  using send_all_bytes [OF assms] receive_bytes by blast

definition ex_stream :: stream where
  "ex_stream = \<lparr>st_in = [], st_end = EOF, st_out = [], st_room = 1000\<rparr>"

theorem frames_arrive_as_sent_witness:
  "\<exists>bytes. st_out (snd (send_all [\<lparr>frame_kind = 1, frame_payload = [7, 8]\<rparr>] ex_stream)) = bytes \<and>
     receive 1 (ex_stream\<lparr>st_in := bytes @ []\<rparr>) =
       ([Inr \<lparr>frame_kind = 1, frame_payload = [7, 8]\<rparr>], ex_stream\<lparr>st_in := []\<rparr>)"
proof -
  let ?f = "\<lparr>frame_kind = 1, frame_payload = [7, 8]\<rparr> :: Frame"
  have "frame_ok ?f" by (simp add: frame_ok_def MaxPayloadSize_def KindReserved_def)
  then have "send_all [?f] ex_stream = (None, snd (send_all [?f] ex_stream))"
    by (simp add: Encode_ok headerSize_def ex_stream_def)
  from frames_arrive_as_sent [OF this, where t = ex_stream and rest = "[]"] show ?thesis
    by (simp add: ex_stream_def)
qed

text \<open>
  C37: A decode is bounded and exact.  It takes at most a header and \<open>MaxPayloadSize\<close> bytes; a
  header that declares more costs its five bytes; and the bytes a decoded frame was read from are
  the very bytes the encoder writes for it, so no two byte strings decode to one frame.
\<close>

theorem Decode_is_bounded:
  "\<exists>taken. st_in s = taken @ st_in (snd (Decode s)) \<and>
     length taken \<le> headerSize + MaxPayloadSize \<and>
     snd (Decode s) = s\<lparr>st_in := st_in (snd (Decode s))\<rparr> \<and>
     (case fst (Decode s) of
        Inr f \<Rightarrow> frame_ok f \<and> taken = frame_bytes f
      | Inl (ErrFrameTooLarge n) \<Rightarrow> MaxPayloadSize < n \<and> length taken = headerSize
      | Inl (ErrKindReserved n) \<Rightarrow> n \<le> MaxPayloadSize \<and> length taken = headerSize
      | Inl (ReadingHeader err) \<Rightarrow> taken = st_in s \<and> length taken < headerSize
      | Inl (ReadingPayload d err) \<Rightarrow> taken = st_in s \<and> unat d \<le> MaxPayloadSize
      | Inl _ \<Rightarrow> False)"
proof (cases rule: Decode_cases [of s])
  case (header err)
  then show ?thesis by (intro exI [of _ "st_in s"]) simp
next
  case (too_large d k rest)
  then show ?thesis by (intro exI [of _ "PutUint32 d @ [k]"]) (simp add: headerSize_def)
next
  case (reserved d rest)
  then show ?thesis by (intro exI [of _ "PutUint32 d @ [KindReserved]"]) (simp add: headerSize_def)
next
  case (payload d k rest err)
  then show ?thesis by (intro exI [of _ "st_in s"]) (simp add: headerSize_def)
next
  case (frame f rest)
  then show ?thesis by (intro exI [of _ "frame_bytes f"]) (simp add: frame_ok_def)
qed

text \<open>
  \<open>Encode\<close> writes a frame whole or reports an error; it writes exactly the frames
  \<open>Decode\<close> accepts, and a frame it refuses leaves the stream untouched.
\<close>

theorem Encode_writes_what_Decode_reads:
  "if frame_ok f
   then Encode f s = (if length (frame_bytes f) \<le> st_room s then None else Some (WritingFrame (length (frame_bytes f))),
          snd (Write (frame_bytes f) s)) \<and>
        Decode (t\<lparr>st_in := frame_bytes f @ rest\<rparr>) = (Inr f, t\<lparr>st_in := rest\<rparr>)
   else (\<exists>err. Encode f s = (Some err, s)) \<and> (\<forall>s s'. Decode s \<noteq> (Inr f, s'))"
proof -
  have "frame_ok f" if "Decode s = (Inr f, s')" for s s'
    using that by (cases rule: Decode_cases [of s]) auto
  then show ?thesis
    using Encode_ok [of f s] Decode_frame_bytes [where f = f and s = t and rest = rest] Encode_refused [of f s] by auto
qed

end
