(* ===== verification/Go_Encoding.thy ===== *)
theory Go_Encoding
  imports Wire_Frame
begin

text \<open>
  What the server uses of Go's \<^verbatim>\<open>encoding/base64\<close> (standard alphabet, no padding) and
  \<^verbatim>\<open>crypto/sha256\<close>, as executable functions on bytes, with the one fact the components need
  of the encoding: it loses nothing.  Nothing is assumed about collisions of the digest here; a
  statement that needs two digests to differ says so.
\<close>

unbundle bit_operations_syntax

subsection \<open>Base64\<close>

definition b64_alphabet :: string where
  "b64_alphabet = ''ABCDEFGHIJKLMNOPQRSTUVWXYZabcdefghijklmnopqrstuvwxyz0123456789+/''"

definition b64_char :: "nat \<Rightarrow> char" where
  "b64_char n = b64_alphabet ! n"

fun b64_encode :: "byte list \<Rightarrow> string" where
  "b64_encode [] = []"
| "b64_encode [a] = [b64_char (unat a div 4), b64_char (unat a mod 4 * 16)]"
| "b64_encode [a, b] =
     [b64_char (unat a div 4), b64_char (unat a mod 4 * 16 + unat b div 16),
      b64_char (unat b mod 16 * 4)]"
| "b64_encode (a # b # c # rest) =
     b64_char (unat a div 4) # b64_char (unat a mod 4 * 16 + unat b div 16) #
     b64_char (unat b mod 16 * 4 + unat c div 64) # b64_char (unat c mod 64) # b64_encode rest"

lemma length_b64_alphabet: "length b64_alphabet = 64"
  by (simp add: b64_alphabet_def)

lemma distinct_b64_alphabet: "distinct b64_alphabet"
  by (simp add: b64_alphabet_def)

lemma b64_char_inject: "m < 64 \<Longrightarrow> n < 64 \<Longrightarrow> b64_char m = b64_char n \<longleftrightarrow> m = n"
  unfolding b64_char_def
  by (rule nth_eq_iff_index_eq) (simp_all add: length_b64_alphabet distinct_b64_alphabet)

lemma byte_ext: "unat a = unat b \<Longrightarrow> a = (b :: byte)"
  by (simp add: word_unat_eq_iff)

lemma sextets:
  fixes a b c :: byte
  shows "unat a div 4 < 64" "unat a mod 4 * 16 < 64" "unat a mod 4 * 16 + unat b div 16 < 64"
    "unat b mod 16 * 4 < 64" "unat b mod 16 * 4 + unat c div 64 < 64" "unat c mod 64 < 64"
  using unat_byte_less [of a] unat_byte_less [of b] unat_byte_less [of c] by simp_all

lemma split_eq:
  fixes x y k :: nat
  assumes "x div k = y div k" and "x mod k = y mod k"
  shows "x = y"
  by (metis assms div_mult_mod_eq)

lemma mul_add_eq:
  fixes p q x y k :: nat
  assumes "p * k + x = q * k + y" and "x < k" and "y < k"
  shows "p = q \<and> x = y"
proof -
  have "(p * k + x) div k = p" "(p * k + x) mod k = x" "(q * k + y) div k = q" "(q * k + y) mod k = y"
    using assms(2,3) by simp_all
  then show ?thesis using assms(1) by metis
qed

lemma length_b64_encode: "length (b64_encode bs) \<le> 2 * length bs"
  by (induction bs rule: b64_encode.induct) simp_all

lemma b64_encode_inject_length:
  "length xs = length ys \<Longrightarrow> b64_encode xs = b64_encode ys \<Longrightarrow> xs = ys"
proof (induction xs arbitrary: ys rule: b64_encode.induct)
  case (2 a)
  then obtain a' where ys: "ys = [a']" by (auto simp: length_Suc_conv Suc_length_conv)
  with "2.prems" have "unat a div 4 = unat a' div 4" "unat a mod 4 * 16 = unat a' mod 4 * 16"
    by (simp_all add: b64_char_inject sextets)
  then have "unat a = unat a'" by (auto intro: split_eq [of "unat a" 4 "unat a'"])
  then show ?case using ys byte_ext by simp
next
  case (3 a b)
  then obtain a' b' where ys: "ys = [a', b']" by (auto simp: length_Suc_conv Suc_length_conv)
  with "3.prems" have e: "unat a div 4 = unat a' div 4"
      "unat a mod 4 * 16 + unat b div 16 = unat a' mod 4 * 16 + unat b' div 16"
      "unat b mod 16 * 4 = unat b' mod 16 * 4"
    by (simp_all add: b64_char_inject sextets)
  have "unat b div 16 < 16" "unat b' div 16 < 16"
    using unat_byte_less [of b] unat_byte_less [of b'] by simp_all
  with mul_add_eq [OF e(2)] have "unat a mod 4 = unat a' mod 4" "unat b div 16 = unat b' div 16" by simp_all
  then have "unat a = unat a'" "unat b = unat b'"
    using e split_eq [of "unat a" 4 "unat a'"] split_eq [of "unat b" 16 "unat b'"] by simp_all
  then show ?case using ys byte_ext by simp
next
  case (4 a b c rest)
  then obtain a' b' c' rest' where ys: "ys = a' # b' # c' # rest'" "length rest = length rest'"
    by (auto simp: length_Suc_conv Suc_length_conv)
  with "4.prems" have e: "unat a div 4 = unat a' div 4"
      "unat a mod 4 * 16 + unat b div 16 = unat a' mod 4 * 16 + unat b' div 16"
      "unat b mod 16 * 4 + unat c div 64 = unat b' mod 16 * 4 + unat c' div 64"
      "unat c mod 64 = unat c' mod 64" and rest: "b64_encode rest = b64_encode rest'"
    by (simp_all add: b64_char_inject sextets)
  have "unat b div 16 < 16" "unat b' div 16 < 16" "unat c div 64 < 4" "unat c' div 64 < 4"
    using unat_byte_less [of b] unat_byte_less [of b'] unat_byte_less [of c] unat_byte_less [of c'] by simp_all
  with mul_add_eq [OF e(2)] mul_add_eq [OF e(3)]
  have "unat a mod 4 = unat a' mod 4" "unat b div 16 = unat b' div 16"
      "unat b mod 16 = unat b' mod 16" "unat c div 64 = unat c' div 64" by simp_all
  then have "unat a = unat a'" "unat b = unat b'" "unat c = unat c'"
    using e split_eq [of "unat a" 4 "unat a'"] split_eq [of "unat b" 16 "unat b'"]
      split_eq [of "unat c" 64 "unat c'"] by simp_all
  then show ?case using ys rest "4.IH" byte_ext by simp
qed simp

text \<open>
  Decoding, as lenient as the code's encoding object is: line ends are skipped, any other character
  outside the alphabet fails, a lone last character fails, and the bits of a last character that
  reach past the last whole byte are ignored.
\<close>

fun index_of :: "char \<Rightarrow> string \<Rightarrow> nat option" where
  "index_of c [] = None"
| "index_of c (x # xs) = (if x = c then Some 0 else map_option Suc (index_of c xs))"

fun b64_values :: "string \<Rightarrow> nat list option" where
  "b64_values [] = Some []"
| "b64_values (c # cs) =
     (case (index_of c b64_alphabet, b64_values cs) of
        (Some v, Some vs) \<Rightarrow> Some (v # vs)
      | _ \<Rightarrow> None)"

fun b64_bytes :: "nat list \<Rightarrow> byte list option" where
  "b64_bytes [] = Some []"
| "b64_bytes [p] = None"
| "b64_bytes [p, q] = Some [of_nat (p * 4 + q div 16)]"
| "b64_bytes [p, q, r] = Some [of_nat (p * 4 + q div 16), of_nat (q mod 16 * 16 + r div 4)]"
| "b64_bytes (p # q # r # t # rest) =
     (case b64_bytes rest of
        None \<Rightarrow> None
      | Some bs \<Rightarrow>
          Some (of_nat (p * 4 + q div 16) # of_nat (q mod 16 * 16 + r div 4) #
                of_nat (r mod 4 * 64 + t) # bs))"

definition b64_decode :: "string \<Rightarrow> byte list option" where
  "b64_decode s =
     (case b64_values (filter (\<lambda>c. c \<noteq> CHR 0x0A \<and> c \<noteq> CHR 0x0D) s) of
        None \<Rightarrow> None
      | Some vs \<Rightarrow> b64_bytes vs)"

lemma index_of_nth: "distinct s \<Longrightarrow> i < length s \<Longrightarrow> index_of (s ! i) s = Some i"
proof (induction s arbitrary: i)
  case (Cons x xs)
  then show ?case by (cases i) auto
qed simp

lemma index_of_b64_char: "i < 64 \<Longrightarrow> index_of (b64_char i) b64_alphabet = Some i"
  unfolding b64_char_def
  by (rule index_of_nth) (simp_all add: length_b64_alphabet distinct_b64_alphabet)

lemma b64_char_alphabet: "i < 64 \<Longrightarrow> b64_char i \<in> set b64_alphabet"
  unfolding b64_char_def by (rule nth_mem) (simp add: length_b64_alphabet)

lemma b64_encode_alphabet: "set (b64_encode bs) \<subseteq> set b64_alphabet"
  by (induction bs rule: b64_encode.induct) (auto simp: b64_char_alphabet sextets)

lemma b64_no: "c \<notin> set b64_alphabet \<Longrightarrow> c \<notin> set (b64_encode bs)"
  using b64_encode_alphabet by blast

lemma b64_encode_no_line_end: "filter (\<lambda>c. c \<noteq> CHR 0x0A \<and> c \<noteq> CHR 0x0D) (b64_encode bs) = b64_encode bs"
proof -
  have "CHR 0x0A \<notin> set (b64_encode bs)" "CHR 0x0D \<notin> set (b64_encode bs)"
    by (rule b64_no; simp add: b64_alphabet_def)+
  then show ?thesis by (intro filter_True) auto
qed

fun sextets_of :: "byte list \<Rightarrow> nat list" where
  "sextets_of [] = []"
| "sextets_of [a] = [unat a div 4, unat a mod 4 * 16]"
| "sextets_of [a, b] = [unat a div 4, unat a mod 4 * 16 + unat b div 16, unat b mod 16 * 4]"
| "sextets_of (a # b # c # rest) =
     unat a div 4 # (unat a mod 4 * 16 + unat b div 16) #
     (unat b mod 16 * 4 + unat c div 64) # unat c mod 64 # sextets_of rest"

lemma b64_values_encode: "b64_values (b64_encode bs) = Some (sextets_of bs)"
  by (induction bs rule: b64_encode.induct) (simp_all add: index_of_b64_char sextets)

lemma sextets_join:
  fixes a b c :: byte
  shows "of_nat (unat a div 4 * 4 + (unat a mod 4 * 16 + unat b div 16) div 16) = a"
    and "of_nat (unat a div 4 * 4 + unat a mod 4 * 16 div 16) = a"
    and "of_nat ((unat a mod 4 * 16 + unat b div 16) mod 16 * 16 + (unat b mod 16 * 4 + unat c div 64) div 4) = b"
    and "of_nat ((unat a mod 4 * 16 + unat b div 16) mod 16 * 16 + unat b mod 16 * 4 div 4) = b"
    and "of_nat ((unat b mod 16 * 4 + unat c div 64) mod 4 * 64 + unat c mod 64) = c"
proof -
  have small: "unat b div 16 < 16" "unat c div 64 < 4"
    using unat_byte_less [of b] unat_byte_less [of c] by simp_all
  have n: "unat a div 4 * 4 + (unat a mod 4 * 16 + unat b div 16) div 16 = unat a"
    "unat a div 4 * 4 + unat a mod 4 * 16 div 16 = unat a"
    "(unat a mod 4 * 16 + unat b div 16) mod 16 * 16 + (unat b mod 16 * 4 + unat c div 64) div 4 = unat b"
    "(unat a mod 4 * 16 + unat b div 16) mod 16 * 16 + unat b mod 16 * 4 div 4 = unat b"
    "(unat b mod 16 * 4 + unat c div 64) mod 4 * 64 + unat c mod 64 = unat c"
    using small by simp_all
  show "of_nat (unat a div 4 * 4 + (unat a mod 4 * 16 + unat b div 16) div 16) = a"
    and "of_nat (unat a div 4 * 4 + unat a mod 4 * 16 div 16) = a"
    and "of_nat ((unat a mod 4 * 16 + unat b div 16) mod 16 * 16 + (unat b mod 16 * 4 + unat c div 64) div 4) = b"
    and "of_nat ((unat a mod 4 * 16 + unat b div 16) mod 16 * 16 + unat b mod 16 * 4 div 4) = b"
    and "of_nat ((unat b mod 16 * 4 + unat c div 64) mod 4 * 64 + unat c mod 64) = c"
    unfolding n by simp_all
qed

lemma b64_bytes_sextets: "b64_bytes (sextets_of bs) = Some bs"
  by (induction bs rule: sextets_of.induct) (simp_all only: sextets_of.simps b64_bytes.simps sextets_join option.case)

lemma b64_decode_encode [simp]: "b64_decode (b64_encode bs) = Some bs"
  by (simp add: b64_decode_def b64_encode_no_line_end b64_values_encode b64_bytes_sextets)

subsection \<open>SHA-256\<close>

text \<open>
  The initial state and the round constants of the standard, the fractional parts of the square
  and cube roots of the first primes, are written in decimal.
\<close>

definition sha_init :: "32 word list" where
  "sha_init =
     [1779033703, 3144134277, 1013904242, 2773480762, 1359893119, 2600822924, 528734635, 1541459225]"

definition sha_K :: "32 word list" where
  "sha_K =
     [1116352408, 1899447441, 3049323471, 3921009573, 961987163, 1508970993, 2453635748, 2870763221,
      3624381080, 310598401, 607225278, 1426881987, 1925078388, 2162078206, 2614888103, 3248222580,
      3835390401, 4022224774, 264347078, 604807628, 770255983, 1249150122, 1555081692, 1996064986,
      2554220882, 2821834349, 2952996808, 3210313671, 3336571891, 3584528711, 113926993, 338241895,
      666307205, 773529912, 1294757372, 1396182291, 1695183700, 1986661051, 2177026350, 2456956037,
      2730485921, 2820302411, 3259730800, 3345764771, 3516065817, 3600352804, 4094571909, 275423344,
      430227734, 506948616, 659060556, 883997877, 958139571, 1322822218, 1537002063, 1747873779,
      1955562222, 2024104815, 2227730452, 2361852424, 2428436474, 2756734187, 3204031479, 3329325298]"

definition sha_pad :: "byte list \<Rightarrow> byte list" where
  "sha_pad msg =
     msg @ [0x80] @ replicate ((119 - length msg mod 64) mod 64) 0 @
     PutUint32 (of_nat (8 * length msg div 2 ^ 32)) @ PutUint32 (of_nat (8 * length msg))"

fun sha_words :: "byte list \<Rightarrow> 32 word list" where
  "sha_words (a # b # c # d # rest) = Uint32 [a, b, c, d] # sha_words rest"
| "sha_words _ = []"

definition sha_extend :: "32 word list \<Rightarrow> 32 word list" where
  "sha_extend w =
     (let n = length w; x = w ! (n - 15); y = w ! (n - 2);
          s0 = word_rotr 7 x XOR word_rotr 18 x XOR drop_bit 3 x;
          s1 = word_rotr 17 y XOR word_rotr 19 y XOR drop_bit 10 y
      in w @ [w ! (n - 16) + s0 + w ! (n - 7) + s1])"

definition sha_round :: "32 word \<times> 32 word \<Rightarrow> 32 word list \<Rightarrow> 32 word list" where
  "sha_round kw st =
     (let a = st ! 0; b = st ! 1; c = st ! 2; d = st ! 3; e = st ! 4; f = st ! 5; g = st ! 6; h = st ! 7;
          s1 = word_rotr 6 e XOR word_rotr 11 e XOR word_rotr 25 e;
          ch = (e AND f) XOR (NOT e AND g);
          t1 = h + s1 + ch + fst kw + snd kw;
          s0 = word_rotr 2 a XOR word_rotr 13 a XOR word_rotr 22 a;
          maj = (a AND b) XOR (a AND c) XOR (b AND c)
      in [t1 + (s0 + maj), a, b, c, d + t1, e, f, g])"

definition sha_block :: "32 word list \<Rightarrow> 32 word list \<Rightarrow> 32 word list" where
  "sha_block st block =
     map2 (+) st (fold sha_round (zip sha_K ((sha_extend ^^ 48) block)) st)"

fun sha_blocks :: "nat \<Rightarrow> 32 word list \<Rightarrow> 32 word list \<Rightarrow> 32 word list" where
  "sha_blocks 0 st ws = st"
| "sha_blocks (Suc n) st ws = sha_blocks n (sha_block st (take 16 ws)) (drop 16 ws)"

definition Sum256 :: "byte list \<Rightarrow> byte list" where
  "Sum256 msg =
     (let ws = sha_words (sha_pad msg)
      in concat (map PutUint32 (sha_blocks (length ws div 16) sha_init ws)))"

end
