(* ===== verification/Wire_Negotiation.thy ===== *)
theory Wire_Negotiation
  imports Wire_Frame
begin

text \<open>
  The message fields and the version negotiation's frames of
  \<^verbatim>\<open>internal/signalling/negotiation.go\<close>.  The server's half that runs on a connection,
  \<open>Negotiate\<close>, is in the theory of the connection.
\<close>

subsection \<open>Versions and kinds\<close>

type_synonym Version = "16 word"

definition MinSupportedVersion :: Version where "MinSupportedVersion = 1"

definition MaxSupportedVersion :: Version where "MaxSupportedVersion = 1"

definition KindHello :: Kind where "KindHello = 3"

definition KindVersionAgreed :: Kind where "KindVersionAgreed = 4"

definition KindVersionRefused :: Kind where "KindVersionRefused = 5"

lemmas kind_defs =
  KindReserved_def KindAuthenticate_def KindSpaceState_def KindHello_def KindVersionAgreed_def
  KindVersionRefused_def

definition Known :: "Kind \<Rightarrow> bool" where
  "Known k \<longleftrightarrow>
     k = KindAuthenticate \<or> k = KindSpaceState \<or> k = KindHello \<or> k = KindVersionAgreed \<or>
     k = KindVersionRefused"

lemma Known_not_reserved: "Known k \<Longrightarrow> k \<noteq> KindReserved"
  by (auto simp: Known_def kind_defs)

subsection \<open>Fields\<close>

definition fieldProposedVersion :: "16 word" where "fieldProposedVersion = 1"

definition fieldAgreedVersion :: "16 word" where "fieldAgreedVersion = 1"

definition fieldLowestSupported :: "16 word" where "fieldLowestSupported = 1"

definition fieldHighestSupported :: "16 word" where "fieldHighestSupported = 2"

definition fieldReason :: "16 word" where "fieldReason = 3"

lemmas field_defs =
  fieldProposedVersion_def fieldAgreedVersion_def fieldLowestSupported_def
  fieldHighestSupported_def fieldReason_def

definition fieldHeaderSize :: nat where "fieldHeaderSize = 4"

record field =
  fld_id :: "16 word"
  fld_value :: "byte list"

text \<open>The length written is the low sixteen bits of the value's length.\<close>

definition field_bytes :: "field \<Rightarrow> byte list" where
  "field_bytes f = PutUint16 (fld_id f) @ PutUint16 (of_nat (length (fld_value f))) @ fld_value f"

definition encodeFields :: "field list \<Rightarrow> byte list" where
  "encodeFields fds = foldl (\<lambda>out f. out @ field_bytes f) [] fds"

function decodeFields :: "byte list \<Rightarrow> wire_error + field list" where
  "decodeFields payload =
     (if payload = [] then Inr []
      else if length payload < fieldHeaderSize then
        Inl (ErrMalformedMessage (TrailingBytes (length payload)))
      else
        let i = Uint16 (take 2 payload);
            len = unat (Uint16 (take 2 (drop 2 payload)));
            rest = drop fieldHeaderSize payload
        in
        if length rest < len then Inl (ErrMalformedMessage (FieldOverrun i len (length rest)))
        else
          (case decodeFields (drop len rest) of
             Inl err \<Rightarrow> Inl err
           | Inr fds \<Rightarrow> Inr (\<lparr>fld_id = i, fld_value = take len rest\<rparr> # fds)))"
  by pat_completeness auto

termination
  by (relation "measure length") (auto simp: fieldHeaderSize_def)

declare decodeFields.simps [simp del]

fun versionField :: "field list \<Rightarrow> 16 word \<Rightarrow> wire_error + Version" where
  "versionField [] i = Inl (ErrMalformedMessage (FieldAbsent i))"
| "versionField (f # rest) i =
     (if fld_id f \<noteq> i then versionField rest i
      else if length (fld_value f) \<noteq> 2 then
        Inl (ErrMalformedMessage (VersionWidth i (length (fld_value f))))
      else Inr (Uint16 (fld_value f)))"

fun reasonField :: "field list \<Rightarrow> wire_error + byte list" where
  "reasonField [] = Inl (ErrMalformedMessage (FieldAbsent fieldReason))"
| "reasonField (f # rest) = (if fld_id f = fieldReason then Inr (fld_value f) else reasonField rest)"

subsection \<open>The frames\<close>

definition Hello :: "Version \<Rightarrow> Frame" where
  "Hello proposed =
     \<lparr>frame_kind = KindHello,
      frame_payload =
        encodeFields [\<lparr>fld_id = fieldProposedVersion, fld_value = PutUint16 proposed\<rparr>]\<rparr>"

definition AgreedVersion :: "Frame \<Rightarrow> wire_error + Version" where
  "AgreedVersion f =
     (if frame_kind f \<noteq> KindVersionAgreed then
        Inl (ErrMalformedMessage (NotAcceptance (frame_kind f)))
      else
        (case decodeFields (frame_payload f) of
           Inl err \<Rightarrow> Inl err
         | Inr fds \<Rightarrow> versionField fds fieldAgreedVersion))"

definition RefusedVersions :: "Frame \<Rightarrow> wire_error + (Version \<times> Version \<times> byte list)" where
  "RefusedVersions f =
     (if frame_kind f \<noteq> KindVersionRefused then
        Inl (ErrMalformedMessage (NotRefusal (frame_kind f)))
      else
        (case decodeFields (frame_payload f) of
           Inl err \<Rightarrow> Inl err
         | Inr fds \<Rightarrow>
             (case versionField fds fieldLowestSupported of
                Inl err \<Rightarrow> Inl err
              | Inr lowest \<Rightarrow>
                  (case versionField fds fieldHighestSupported of
                     Inl err \<Rightarrow> Inl err
                   | Inr highest \<Rightarrow>
                       (case reasonField fds of
                          Inl err \<Rightarrow> Inl err
                        | Inr reason \<Rightarrow> Inr (lowest, highest, reason))))))"

definition string_bytes :: "string \<Rightarrow> byte list" where
  "string_bytes s = map of_char s"

definition refusal_reason :: string where
  "refusal_reason =
     ''this server speaks protocol versions '' @ dec_nat (unat MinSupportedVersion) @ '' to '' @
     dec_nat (unat MaxSupportedVersion)"

definition refusal :: Frame where
  "refusal =
     \<lparr>frame_kind = KindVersionRefused,
      frame_payload = encodeFields
        [\<lparr>fld_id = fieldLowestSupported, fld_value = PutUint16 MinSupportedVersion\<rparr>,
         \<lparr>fld_id = fieldHighestSupported, fld_value = PutUint16 MaxSupportedVersion\<rparr>,
         \<lparr>fld_id = fieldReason, fld_value = string_bytes refusal_reason\<rparr>]\<rparr>"

definition agreement :: "Version \<Rightarrow> Frame" where
  "agreement agreed =
     \<lparr>frame_kind = KindVersionAgreed,
      frame_payload =
        encodeFields [\<lparr>fld_id = fieldAgreedVersion, fld_value = PutUint16 agreed\<rparr>]\<rparr>"

subsection \<open>Fields round trip\<close>

definition field_ok :: "field \<Rightarrow> bool" where
  "field_ok f \<longleftrightarrow> length (fld_value f) < 65536"

lemma encodeFields_concat: "encodeFields fds = concat (map field_bytes fds)"
proof -
  have "foldl (\<lambda>out f. out @ field_bytes f) acc fds = acc @ concat (map field_bytes fds)" for acc
    by (induction fds arbitrary: acc) simp_all
  then show ?thesis by (simp add: encodeFields_def)
qed

lemma encodeFields_simps [simp]:
  "encodeFields [] = []" "encodeFields (f # fs) = field_bytes f @ encodeFields fs"
  by (simp_all add: encodeFields_concat)

lemma length_field_bytes [simp]: "length (field_bytes f) = 4 + length (fld_value f)"
  by (simp add: field_bytes_def)

lemma decodeFields_step:
  assumes "field_ok f"
  shows "decodeFields (field_bytes f @ rest) =
     (case decodeFields rest of Inl err \<Rightarrow> Inl err | Inr fs \<Rightarrow> Inr (f # fs))"
proof -
  let ?p = "field_bytes f @ rest"
  have len: "unat (of_nat (length (fld_value f)) :: 16 word) = length (fld_value f)"
    using assms by (intro unat_small) (simp add: field_ok_def)
  have "take 2 ?p = PutUint16 (fld_id f)" "take 2 (drop 2 ?p) = PutUint16 (of_nat (length (fld_value f)))"
      "drop 4 ?p = fld_value f @ rest"
    by (simp_all add: field_bytes_def)
  moreover have "?p \<noteq> []" "\<not> length ?p < 4"
    by (auto simp: field_bytes_def PutUint16_def)
  ultimately show ?thesis
    by (subst decodeFields.simps) (simp add: fieldHeaderSize_def Let_def len split: sum.splits)
qed

lemma decodeFields_Nil [simp]: "decodeFields [] = Inr []"
  by (simp add: decodeFields.simps)

lemma decode_encodeFields: "list_all field_ok fs \<Longrightarrow> decodeFields (encodeFields fs) = Inr fs"
  by (induction fs) (simp_all add: decodeFields_step)

lemma decodeFields_Inr:
  "decodeFields payload = Inr fs \<Longrightarrow> list_all field_ok fs \<and> encodeFields fs = payload"
proof (induction payload arbitrary: fs rule: decodeFields.induct)
  case (1 payload)
  show ?case
  proof (cases "payload = []")
    case True
    with "1.prems" show ?thesis by simp
  next
    case ne: False
    let ?i = "Uint16 (take 2 payload)" and ?len = "unat (Uint16 (take 2 (drop 2 payload)))"
      and ?rest = "drop fieldHeaderSize payload"
    from "1.prems" ne have len: "\<not> length payload < fieldHeaderSize" "\<not> length ?rest < ?len"
      by (subst (asm) decodeFields.simps; simp add: Let_def split: if_splits)+
    from "1.prems" ne len obtain gs where gs: "decodeFields (drop ?len ?rest) = Inr gs"
        "fs = \<lparr>fld_id = ?i, fld_value = take ?len ?rest\<rparr> # gs"
      by (subst (asm) decodeFields.simps) (auto simp: Let_def split: sum.splits)
    have IH: "list_all field_ok gs \<and> encodeFields gs = drop ?len ?rest"
      by (rule "1.IH" [OF ne len(1) refl refl refl len(2) gs(1)])
    have vl: "length (take ?len ?rest) = ?len" using len(2) by simp
    have small: "?len < 65536" using unsigned_less [of "Uint16 (take 2 (drop 2 payload))"] by simp
    have h: "length (take 2 payload) = 2" "length (take 2 (drop 2 payload)) = 2"
      using len(1) by (simp_all add: fieldHeaderSize_def)
    have "field_bytes \<lparr>fld_id = ?i, fld_value = take ?len ?rest\<rparr> =
        take 2 payload @ take 2 (drop 2 payload) @ take ?len ?rest"
      using Put_Uint16 [OF h(1)] Put_Uint16 [OF h(2)] unfolding field_bytes_def
      by (simp only: field.simps vl of_nat_unat ucast_id)
    moreover have "take 2 payload @ take 2 (drop 2 payload) @ ?rest = payload"
      by (metis append_assoc append_take_drop_id drop_drop fieldHeaderSize_def numeral_Bit0)
    then have "take 2 payload @ take 2 (drop 2 payload) @ take ?len ?rest @ drop ?len ?rest = payload"
      by (simp only: append_take_drop_id)
    moreover have "field_ok \<lparr>fld_id = ?i, fld_value = take ?len ?rest\<rparr>"
      using vl small unfolding field_ok_def by (simp only: field.simps)
    ultimately show ?thesis using IH gs(2) by simp
  qed
qed

lemma versionField_skip: "i \<notin> fld_id ` set fs \<Longrightarrow> versionField (fs @ gs) i = versionField gs i"
  by (induction fs) auto

lemma version_field_ok [simp]: "field_ok \<lparr>fld_id = i, fld_value = PutUint16 v\<rparr>"
  by (simp add: field_ok_def)

lemma Agreed_agreement [simp]: "AgreedVersion (agreement v) = Inr v"
proof -
  let ?fs = "[\<lparr>fld_id = fieldAgreedVersion, fld_value = PutUint16 v\<rparr>]"
  have "decodeFields (encodeFields ?fs) = Inr ?fs"
    by (rule decode_encodeFields) simp
  then show ?thesis by (simp add: AgreedVersion_def agreement_def)
qed

lemma length_refusal_reason: "length (string_bytes refusal_reason) = 43"
  by (simp add: string_bytes_def refusal_reason_def MinSupportedVersion_def MaxSupportedVersion_def
      dec_nat.simps)

lemma Refused_refusal [simp]:
  "RefusedVersions refusal = Inr (MinSupportedVersion, MaxSupportedVersion, string_bytes refusal_reason)"
proof -
  let ?fs = "[\<lparr>fld_id = fieldLowestSupported, fld_value = PutUint16 MinSupportedVersion\<rparr>,
         \<lparr>fld_id = fieldHighestSupported, fld_value = PutUint16 MaxSupportedVersion\<rparr>,
         \<lparr>fld_id = fieldReason, fld_value = string_bytes refusal_reason\<rparr>]"
  have "list_all field_ok ?fs" using length_refusal_reason by (simp add: field_ok_def)
  then have "decodeFields (encodeFields ?fs) = Inr ?fs" by (rule decode_encodeFields)
  then show ?thesis by (simp add: RefusedVersions_def refusal_def field_defs)
qed

lemma frames_ok [simp]: "frame_ok (Hello v)" "frame_ok (agreement v)" "frame_ok refusal"
  using length_refusal_reason
  by (simp_all add: frame_ok_def Hello_def agreement_def refusal_def kind_defs MaxPayloadSize_def)

end
