(* ===== verification/Wire_Conn.thy ===== *)
theory Wire_Conn
  imports Wire_Negotiation
begin

text \<open>
  One peer's connection, \<^verbatim>\<open>internal/signalling/conn.go\<close>, and the server's half of the version
  negotiation on it, \<^verbatim>\<open>Negotiate\<close> of \<^verbatim>\<open>internal/signalling/negotiation.go\<close>.
\<close>

subsection \<open>The connection\<close>

record Conn =
  conn_stream :: stream
  conn_authenticated :: bool
  conn_refused :: "wire_error option"

definition NewConn :: "stream \<Rightarrow> Conn" where
  "NewConn s = \<lparr>conn_stream = s, conn_authenticated = False, conn_refused = None\<rparr>"

definition Authenticated :: "Conn \<Rightarrow> bool" where
  "Authenticated c = conn_authenticated c"

definition MarkAuthenticated :: "Conn \<Rightarrow> Conn" where
  "MarkAuthenticated c = c\<lparr>conn_authenticated := True\<rparr>"

definition ReadFrame :: "Conn \<Rightarrow> (wire_error + Frame) \<times> Conn" where
  "ReadFrame c =
     (case conn_refused c of
        Some err \<Rightarrow> (Inl err, c)
      | None \<Rightarrow>
          (case Decode (conn_stream c) of
             (Inl err, s) \<Rightarrow> (Inl err, c\<lparr>conn_stream := s\<rparr>)
           | (Inr f, s) \<Rightarrow>
               let c1 = c\<lparr>conn_stream := s\<rparr> in
               if \<not> conn_authenticated c1 \<and> frame_kind f \<noteq> KindAuthenticate then
                 (Inl (ErrUnauthenticated (frame_kind f)),
                  c1\<lparr>conn_refused := Some (ErrUnauthenticated (frame_kind f))\<rparr>)
               else if \<not> Known (frame_kind f) then
                 (Inl (ErrUnknownMessage (frame_kind f)),
                  c1\<lparr>conn_refused := Some (ErrUnknownMessage (frame_kind f))\<rparr>)
               else (Inr f, c1)))"

definition WriteFrame :: "Frame \<Rightarrow> Conn \<Rightarrow> wire_error option \<times> Conn" where
  "WriteFrame f c =
     (case Encode f (conn_stream c) of (err, s) \<Rightarrow> (err, c\<lparr>conn_stream := s\<rparr>))"

definition Negotiate :: "Conn \<Rightarrow> (wire_error + Version) \<times> Conn" where
  "Negotiate c =
     (case Decode (conn_stream c) of
        (Inl err, s) \<Rightarrow> (Inl err, c\<lparr>conn_stream := s\<rparr>)
      | (Inr f, s) \<Rightarrow>
          let c1 = c\<lparr>conn_stream := s\<rparr> in
          if \<not> Known (frame_kind f) then (Inl (ErrUnknownMessage (frame_kind f)), c1)
          else if frame_kind f \<noteq> KindHello then (Inl (ErrHelloExpected (frame_kind f)), c1)
          else
            (case decodeFields (frame_payload f) of
               Inl err \<Rightarrow> (Inl err, c1)
             | Inr fds \<Rightarrow>
                 (case versionField fds fieldProposedVersion of
                    Inl err \<Rightarrow> (Inl err, c1)
                  | Inr proposed \<Rightarrow>
                      if proposed < MinSupportedVersion \<or> proposed > MaxSupportedVersion then
                        (case Encode refusal (conn_stream c1) of
                           (Some err, s2) \<Rightarrow> (Inl err, c1\<lparr>conn_stream := s2\<rparr>)
                         | (None, s2) \<Rightarrow>
                             (Inl (ErrVersionUnsupported proposed), c1\<lparr>conn_stream := s2\<rparr>))
                      else
                        (case Encode (agreement proposed) (conn_stream c1) of
                           (Some err, s2) \<Rightarrow> (Inl err, c1\<lparr>conn_stream := s2\<rparr>)
                         | (None, s2) \<Rightarrow> (Inr proposed, c1\<lparr>conn_stream := s2\<rparr>)))))"

subsection \<open>Runs of a connection\<close>

datatype conn_op = OpRead | OpWrite Frame | OpMark | OpNegotiate

text \<open>Every read of the run: whether the gate was open, and what the read returned.\<close>

fun conn_run :: "conn_op list \<Rightarrow> Conn \<Rightarrow> (bool \<times> (wire_error + Frame)) list \<times> Conn" where
  "conn_run [] c = ([], c)"
| "conn_run (OpRead # ops) c =
     (case ReadFrame c of (r, c') \<Rightarrow>
        (case conn_run ops c' of (rs, c'') \<Rightarrow> ((conn_authenticated c, r) # rs, c'')))"
| "conn_run (OpWrite f # ops) c = conn_run ops (snd (WriteFrame f c))"
| "conn_run (OpMark # ops) c = conn_run ops (MarkAuthenticated c)"
| "conn_run (OpNegotiate # ops) c = conn_run ops (snd (Negotiate c))"

lemma ReadFrame_ok:
  "ReadFrame c = (Inr f, c') \<Longrightarrow> Known (frame_kind f) \<and> (conn_authenticated c \<or> frame_kind f = KindAuthenticate)"
  by (auto simp: ReadFrame_def Let_def split: option.splits prod.splits sum.splits if_splits)

lemma ReadFrame_refused: "conn_refused c = Some err \<Longrightarrow> ReadFrame c = (Inl err, c)"
  by (simp add: ReadFrame_def)

lemma Decode_not_gate:
  "Decode s \<noteq> (Inl (ErrUnauthenticated k), s')" "Decode s \<noteq> (Inl (ErrUnknownMessage k), s')"
  by (cases rule: Decode_cases [of s]; simp)+

lemma ReadFrame_refuses:
  assumes "ReadFrame c = (Inl err, c')" and "err = ErrUnauthenticated k \<or> err = ErrUnknownMessage k"
  shows "conn_refused c' = Some err"
proof (cases "conn_refused c")
  case None
  obtain res s where d: "Decode (conn_stream c) = (res, s)" by (cases "Decode (conn_stream c)")
  show ?thesis
  proof (cases res)
    case (Inl e)
    then show ?thesis
      using assms None d Decode_not_gate [of "conn_stream c" k s] by (auto simp: ReadFrame_def)
  next
    case (Inr f)
    then show ?thesis
      using assms None d by (auto simp: ReadFrame_def Let_def split: if_splits)
  qed
qed (use assms in \<open>simp add: ReadFrame_def\<close>)

lemma refused_WriteFrame [simp]: "conn_refused (snd (WriteFrame f c)) = conn_refused c"
  by (simp add: WriteFrame_def split: prod.splits)

lemma refused_Mark [simp]: "conn_refused (MarkAuthenticated c) = conn_refused c"
  by (simp add: MarkAuthenticated_def)

lemma refused_Negotiate [simp]: "conn_refused (snd (Negotiate c)) = conn_refused c"
  by (simp add: Negotiate_def Let_def split: prod.splits sum.splits option.splits)

lemma Decode_reserved:
  assumes "unat d \<le> MaxPayloadSize" and "st_in s = PutUint32 d @ [KindReserved] @ rest"
  shows "Decode s = (Inl (ErrKindReserved (unat d)), s\<lparr>st_in := rest\<rparr>)"
proof -
  let ?h = "PutUint32 d @ [KindReserved]"
  have "ReadFull headerSize s = (Inr ?h, s\<lparr>st_in := rest\<rparr>)"
    using assms(2) by (simp add: ReadFull_def headerSize_def)
  moreover have "Uint32 (take 4 ?h) = d" "?h ! 4 = KindReserved"
    by (simp_all add: nth_append)
  ultimately show ?thesis
    using assms(1) by (simp add: Decode_def Let_def declared_small)
qed

subsection \<open>Answering a hello\<close>

definition hello_with :: "field list \<Rightarrow> Version \<Rightarrow> field list \<Rightarrow> Frame" where
  "hello_with pre v post =
     \<lparr>frame_kind = KindHello,
      frame_payload =
        encodeFields (pre @ [\<lparr>fld_id = fieldProposedVersion, fld_value = PutUint16 v\<rparr>] @ post)\<rparr>"

lemma Hello_hello_with: "Hello v = hello_with [] v []"
  by (simp add: Hello_def hello_with_def)

definition answer :: "Version \<Rightarrow> Frame" where
  "answer v = (if v < MinSupportedVersion \<or> MaxSupportedVersion < v then refusal else agreement v)"

lemma answer_ok [simp]: "frame_ok (answer v)"
  by (simp add: answer_def)

lemma hello_fields:
  assumes "list_all field_ok (pre @ post)" and "fieldProposedVersion \<notin> fld_id ` set pre"
  shows "\<exists>fds. decodeFields (frame_payload (hello_with pre v post)) = Inr fds \<and>
    versionField fds fieldProposedVersion = Inr v"
proof -
  let ?fs = "pre @ [\<lparr>fld_id = fieldProposedVersion, fld_value = PutUint16 v\<rparr>] @ post"
  have "decodeFields (encodeFields ?fs) = Inr ?fs"
    using assms(1) by (intro decode_encodeFields) simp
  then show ?thesis using versionField_skip [OF assms(2)] by (simp add: hello_with_def)
qed

lemma Negotiate_hello:
  assumes "frame_kind f = KindHello" and "decodeFields (frame_payload f) = Inr fds"
    and "versionField fds fieldProposedVersion = Inr v" and "frame_ok f"
    and "st_in (conn_stream c) = frame_bytes f @ rest"
    and "headerSize + length (frame_payload (answer v)) \<le> st_room (conn_stream c)"
  shows "Negotiate c =
    (if v < MinSupportedVersion \<or> MaxSupportedVersion < v then Inl (ErrVersionUnsupported v) else Inr v,
     c\<lparr>conn_stream := snd (Write (frame_bytes (answer v)) ((conn_stream c)\<lparr>st_in := rest\<rparr>))\<rparr>)"
proof -
  have d: "Decode (conn_stream c) = (Inr f, (conn_stream c)\<lparr>st_in := rest\<rparr>)"
    using Decode_frame_bytes [OF assms(4), where s = "conn_stream c" and rest = rest] assms(5)
    by (metis (no_types, lifting) stream.surjective stream.update_convs(1))
  have "Known KindHello" by (simp add: Known_def)
  moreover have "Encode (answer v) ((conn_stream c)\<lparr>st_in := rest\<rparr>) =
      (None, snd (Write (frame_bytes (answer v)) ((conn_stream c)\<lparr>st_in := rest\<rparr>)))"
    using assms(6) by (simp add: Encode_ok)
  ultimately show ?thesis
    using d assms(1-3) by (auto simp: Negotiate_def Let_def answer_def)
qed

lemma Negotiate_Inr:
  assumes "Negotiate c = (Inr v, c')"
  shows "\<exists>f fds rest. frame_ok f \<and> st_in (conn_stream c) = frame_bytes f @ rest \<and> frame_kind f = KindHello \<and>
    decodeFields (frame_payload f) = Inr fds \<and> versionField fds fieldProposedVersion = Inr v \<and>
    MinSupportedVersion \<le> v \<and> v \<le> MaxSupportedVersion \<and>
    st_out (conn_stream c') = st_out (conn_stream c) @ frame_bytes (agreement v)"
proof -
  obtain res s where d: "Decode (conn_stream c) = (res, s)" by (cases "Decode (conn_stream c)")
  obtain f where f: "res = Inr f"
    using assms d by (cases res) (auto simp: Negotiate_def)
  obtain rest where rest: "frame_ok f" "st_in (conn_stream c) = frame_bytes f @ rest"
      "s = (conn_stream c)\<lparr>st_in := rest\<rparr>"
    using d f by (cases rule: Decode_cases [of "conn_stream c"]) auto
  have hello: "frame_kind f = KindHello"
    using assms d f by (auto simp: Negotiate_def Let_def split: if_splits)
  obtain fds where fds: "decodeFields (frame_payload f) = Inr fds"
    using assms d f hello by (auto simp: Negotiate_def Let_def split: if_splits sum.splits)
  obtain w where w: "versionField fds fieldProposedVersion = Inr w"
    using assms d f hello fds by (auto simp: Negotiate_def Let_def split: if_splits sum.splits)
  have range: "\<not> (w < MinSupportedVersion \<or> MaxSupportedVersion < w)"
    using assms d f hello fds w
    by (auto simp: Negotiate_def Let_def split: if_splits prod.splits option.splits)
  obtain s2 where s2: "Encode (agreement w) s = (None, s2)" "w = v" "c' = c\<lparr>conn_stream := s2\<rparr>"
    using assms d f hello fds w range
    by (auto simp: Negotiate_def Let_def split: if_splits prod.splits option.splits)
  then show ?thesis
    using rest hello fds w range Encode_None [OF s2(1)] by (auto simp: not_less)
qed

definition ex_auth :: Frame where
  "ex_auth = \<lparr>frame_kind = KindAuthenticate, frame_payload = [9]\<rparr>"

lemma ex_auth_ok: "frame_ok ex_auth"
  by (simp add: ex_auth_def frame_ok_def MaxPayloadSize_def kind_defs)

subsection \<open>Properties\<close>

text \<open>
  C10: The gate.  However a connection is used, every frame a read returns is of a kind this build
  defines, and one returned before the connection was marked authenticated is an authentication
  frame.
\<close>

theorem gate_before_authentication:
  assumes "conn_run ops (NewConn s) = (reads, c)" and "(opened, Inr f) \<in> set reads"
  shows "Known (frame_kind f) \<and> (\<not> opened \<longrightarrow> frame_kind f = KindAuthenticate)"
proof -
  have "Known (frame_kind f) \<and> (\<not> opened \<longrightarrow> frame_kind f = KindAuthenticate)"
    if "conn_run ops c0 = (reads, c)" for c0
    using that assms(2)
  proof (induction ops c0 arbitrary: reads rule: conn_run.induct)
    case (2 ops c0)
    obtain r c1 where read: "ReadFrame c0 = (r, c1)" by (cases "ReadFrame c0")
    obtain rs c2 where rest: "conn_run ops c1 = (rs, c2)" by (cases "conn_run ops c1")
    from "2.prems" read rest
    consider "opened = conn_authenticated c0" "r = Inr f" | "(opened, Inr f) \<in> set rs" "c2 = c"
      by auto
    then show ?case
    proof cases
      case 1
      then show ?thesis using ReadFrame_ok read by blast
    next
      case 2
      then show ?thesis using "2.IH" [OF read [symmetric] rest [unfolded 2]] by blast
    qed
  qed auto
  then show ?thesis using assms(1) by blast
qed

theorem gate_before_authentication_witness:
  "Known (frame_kind ex_auth) \<and> frame_kind ex_auth = KindAuthenticate"
proof -
  have "conn_run [OpRead] (NewConn (ex_stream\<lparr>st_in := frame_bytes ex_auth @ []\<rparr>)) =
      ([(False, Inr ex_auth)], NewConn (ex_stream\<lparr>st_in := []\<rparr>))"
    using Decode_frame_bytes [OF ex_auth_ok, where s = ex_stream and rest = "[]"]
    by (simp add: ReadFrame_def NewConn_def Known_def ex_auth_def)
  from gate_before_authentication [OF this, of False ex_auth] show ?thesis by auto
qed

text \<open>
  A refusal at the gate is terminal.  Once a read was refused because the peer was not
  authenticated or sent a kind this build does not define, every later read returns that same
  error and takes nothing from the stream, whatever else happens to the connection in between.
\<close>

theorem refusal_is_terminal:
  assumes "ReadFrame c = (Inl err, c1)" and "err = ErrUnauthenticated k \<or> err = ErrUnknownMessage k"
    and "conn_run ops c1 = (reads, c2)" and "OpNegotiate \<notin> set ops"
  shows "(\<forall>(opened, r) \<in> set reads. r = Inl err) \<and>
     st_in (conn_stream c2) = st_in (conn_stream c1)"
proof -
  have keeps: "st_in (conn_stream (snd (WriteFrame f d))) = st_in (conn_stream d)" for f d
    by (cases "frame_ok f")
      (auto simp: WriteFrame_def Encode_ok Write_def dest: Encode_refused [of f "conn_stream d"])
  have "conn_refused d = Some err \<Longrightarrow> conn_run ops d = (reads, c2) \<Longrightarrow>
      (\<forall>(opened, r) \<in> set reads. r = Inl err) \<and> st_in (conn_stream c2) = st_in (conn_stream d)" for d
    using assms(4)
  proof (induction ops d arbitrary: reads rule: conn_run.induct)
    case (2 ops d)
    from "2.prems" obtain rs where "conn_run ops d = (rs, c2)" "reads = (conn_authenticated d, Inl err) # rs"
      by (auto simp: ReadFrame_refused split: prod.splits)
    with "2.IH" [of "Inl err" d rs] "2.prems" show ?case by (auto simp: ReadFrame_refused)
  next
    case (3 f ops d)
    then show ?case using keeps [of f d] by simp
  next
    case (4 ops d)
    then show ?case by (simp add: MarkAuthenticated_def)
  qed auto
  then show ?thesis using ReadFrame_refuses [OF assms(1,2)] assms(3) by blast
qed

theorem refusal_is_terminal_witness:
  "\<exists>c1 reads c2. ReadFrame (NewConn (ex_stream\<lparr>st_in := frame_bytes (Hello 1) @ [7]\<rparr>)) =
       (Inl (ErrUnauthenticated KindHello), c1) \<and>
     conn_run [OpMark, OpRead] c1 = (reads, c2) \<and>
     (\<forall>(opened, r) \<in> set reads. r = Inl (ErrUnauthenticated KindHello)) \<and> reads \<noteq> []"
proof -
  let ?c1 = "(NewConn (ex_stream\<lparr>st_in := [7]\<rparr>))\<lparr>conn_refused := Some (ErrUnauthenticated KindHello)\<rparr>"
  have "frame_ok (Hello 1)" by simp
  from Decode_frame_bytes [OF this, where s = ex_stream and rest = "[7]"]
  have read: "ReadFrame (NewConn (ex_stream\<lparr>st_in := frame_bytes (Hello 1) @ [7]\<rparr>)) =
      (Inl (ErrUnauthenticated KindHello), ?c1)"
    by (simp add: ReadFrame_def NewConn_def Hello_def kind_defs)
  obtain reads c2 where run: "conn_run [OpMark, OpRead] ?c1 = (reads, c2)"
    by (cases "conn_run [OpMark, OpRead] ?c1")
  have "reads \<noteq> []"
    using run by (auto split: prod.splits)
  with read run refusal_is_terminal [OF read _ run, of KindHello] show ?thesis by auto
qed

text \<open>
  C25: Negotiation, end to end.  A peer that sends a hello for a version, with any unknown fields
  around it, is answered with one frame: for a supported version the server returns it and the
  peer reads that very version back, for any other the server returns the refusal and the peer
  reads the supported range and the sentence.  What the peer sent behind the hello is untouched
  and the gate stays shut.
\<close>

theorem Negotiate_answers_hello:
  assumes "list_all field_ok (pre @ post)" and "fieldProposedVersion \<notin> fld_id ` set pre"
    and "frame_ok (hello_with pre v post)"
    and "st_in s = frame_bytes (hello_with pre v post) @ rest" and "1000 \<le> st_room s"
  shows "\<exists>c' reply. Negotiate (NewConn s) =
       (if v = 1 then Inr v else Inl (ErrVersionUnsupported v), c') \<and>
     st_in (conn_stream c') = rest \<and> \<not> Authenticated c' \<and>
     st_out (conn_stream c') = st_out s @ frame_bytes reply \<and>
     Decode (t\<lparr>st_in := frame_bytes reply\<rparr>) = (Inr reply, t\<lparr>st_in := []\<rparr>) \<and>
     (if v = 1 then AgreedVersion reply = Inr v
      else RefusedVersions reply =
        Inr (MinSupportedVersion, MaxSupportedVersion, string_bytes refusal_reason))"
proof -
  obtain fds where fds: "decodeFields (frame_payload (hello_with pre v post)) = Inr fds"
      "versionField fds fieldProposedVersion = Inr v"
    using hello_fields [OF assms(1,2)] by blast
  have supported: "v < MinSupportedVersion \<or> MaxSupportedVersion < v \<longleftrightarrow> v \<noteq> 1"
    unfolding MinSupportedVersion_def MaxSupportedVersion_def by (rule neq_iff [symmetric])
  have room: "headerSize + length (frame_payload (answer v)) \<le> st_room s"
    using assms(5) length_refusal_reason
    by (simp add: answer_def refusal_def agreement_def headerSize_def)
  let ?s = "snd (Write (frame_bytes (answer v)) (s\<lparr>st_in := rest\<rparr>))"
  have "Negotiate (NewConn s) =
      (if v = 1 then Inr v else Inl (ErrVersionUnsupported v), (NewConn s)\<lparr>conn_stream := ?s\<rparr>)"
    using Negotiate_hello [OF _ fds assms(3), of "NewConn s" rest] assms(4) room supported
    by (simp add: NewConn_def hello_with_def)
  moreover have "st_out ?s = st_out s @ frame_bytes (answer v)" "st_in ?s = rest"
    using room by (simp_all add: Write_def)
  moreover have "Decode (t\<lparr>st_in := frame_bytes (answer v)\<rparr>) = (Inr (answer v), t\<lparr>st_in := []\<rparr>)"
    using Decode_frame_bytes [of "answer v", where s = t and rest = "[]"] by simp
  moreover have "if v = 1 then AgreedVersion (answer v) = Inr v
      else RefusedVersions (answer v) =
        Inr (MinSupportedVersion, MaxSupportedVersion, string_bytes refusal_reason)"
    unfolding answer_def supported by simp
  ultimately show ?thesis
    by (intro exI [of _ "(NewConn s)\<lparr>conn_stream := ?s\<rparr>"] exI [of _ "answer v"])
      (simp add: Authenticated_def NewConn_def)
qed

theorem Negotiate_answers_hello_witness:
  "\<exists>c' reply. Negotiate (NewConn (ex_stream\<lparr>st_in := frame_bytes (Hello 9)\<rparr>)) =
       (Inl (ErrVersionUnsupported 9), c') \<and>
     RefusedVersions reply = Inr (MinSupportedVersion, MaxSupportedVersion, string_bytes refusal_reason)"
proof -
  let ?s = "ex_stream\<lparr>st_in := frame_bytes (Hello 9)\<rparr>"
  have "list_all field_ok ([] @ [])" "fieldProposedVersion \<notin> fld_id ` set []"
      "frame_ok (hello_with [] 9 [])" "st_in ?s = frame_bytes (hello_with [] 9 []) @ []" "1000 \<le> st_room ?s"
    by (simp_all flip: Hello_hello_with add: ex_stream_def)
  from Negotiate_answers_hello [OF this] show ?thesis by auto
qed

text \<open>
  A version is agreed only with a peer that proposed it.  Whenever \<open>Negotiate\<close> returns a
  version, the first frame of the stream was a well-formed hello proposing exactly it, it lies in
  the supported range, and the acceptance is the one thing written.
\<close>

theorem Negotiate_agrees_only_to_a_proposal:
  assumes "Negotiate c = (Inr v, c')"
  shows "\<exists>f fds rest. st_in (conn_stream c) = frame_bytes f @ rest \<and> frame_kind f = KindHello \<and>
     encodeFields fds = frame_payload f \<and> versionField fds fieldProposedVersion = Inr v \<and>
     MinSupportedVersion \<le> v \<and> v \<le> MaxSupportedVersion \<and>
     st_out (conn_stream c') = st_out (conn_stream c) @ frame_bytes (agreement v)"
  using Negotiate_Inr [OF assms] decodeFields_Inr by blast

lemma ex_negotiation: "\<exists>c'. Negotiate (NewConn (ex_stream\<lparr>st_in := frame_bytes (Hello 1)\<rparr>)) = (Inr 1, c')"
proof -
  let ?s = "ex_stream\<lparr>st_in := frame_bytes (Hello 1)\<rparr>" and ?f = "hello_with [] 1 []"
  obtain fds where fds: "decodeFields (frame_payload ?f) = Inr fds" "versionField fds fieldProposedVersion = Inr 1"
    using hello_fields [of "[]" "[]" 1] by auto
  have "frame_ok ?f" by (simp flip: Hello_hello_with)
  from Negotiate_hello [OF _ fds this, of "NewConn ?s" "[]"] show ?thesis
    by (simp add: NewConn_def Hello_hello_with MinSupportedVersion_def MaxSupportedVersion_def ex_stream_def
        answer_def agreement_def headerSize_def) (simp add: hello_with_def)
qed

theorem Negotiate_agrees_only_to_a_proposal_witness:
  "\<exists>f rest. frame_bytes (Hello 1) = frame_bytes f @ rest \<and> frame_kind f = KindHello"
proof -
  obtain c' where "Negotiate (NewConn (ex_stream\<lparr>st_in := frame_bytes (Hello 1)\<rparr>)) = (Inr 1, c')"
    using ex_negotiation by blast
  from Negotiate_agrees_only_to_a_proposal [OF this] show ?thesis
    by (auto simp: NewConn_def)
qed

text \<open>
  The fields of a message round trip: decoding what was encoded gives the fields back, and
  whatever decodes is the encoding of the fields it decodes to, so a payload is never clamped or
  read two ways.
\<close>

theorem fields_round_trip:
  "if list_all field_ok fds then decodeFields payload = Inr fds \<longleftrightarrow> payload = encodeFields fds
   else decodeFields payload \<noteq> Inr fds"
  using decode_encodeFields decodeFields_Inr by (auto split: if_splits)

text \<open>
  C40: The reserved kind is refused once, not for good.  A frame of kind 0 from an unauthenticated
  peer is refused inside \<open>Decode\<close>, which does not mark the connection refused and does not take
  the payload either: the next read takes the refused frame's own payload bytes for a frame.
\<close>

theorem reserved_kind_refusal_is_not_terminal:
  assumes "frame_ok f" and "frame_kind f = KindAuthenticate" and "unat d \<le> MaxPayloadSize"
    and "st_in s = PutUint32 d @ [KindReserved] @ frame_bytes f @ rest"
  shows "\<exists>c1. ReadFrame (NewConn s) = (Inl (ErrKindReserved (unat d)), c1) \<and>
     ReadFrame c1 = (Inr f, NewConn (s\<lparr>st_in := rest\<rparr>))"
proof -
  have "Decode s = (Inl (ErrKindReserved (unat d)), s\<lparr>st_in := frame_bytes f @ rest\<rparr>)"
    by (rule Decode_reserved [OF assms(3,4)])
  moreover have "Decode (s\<lparr>st_in := frame_bytes f @ rest\<rparr>) = (Inr f, s\<lparr>st_in := rest\<rparr>)"
    by (rule Decode_frame_bytes [OF assms(1)])
  ultimately show ?thesis
    using assms(2) by (simp add: ReadFrame_def NewConn_def Known_def)
qed

theorem reserved_kind_refusal_is_not_terminal_witness:
  "\<exists>c1. ReadFrame (NewConn (ex_stream\<lparr>st_in := PutUint32 6 @ [KindReserved] @
       frame_bytes \<lparr>frame_kind = KindAuthenticate, frame_payload = [9]\<rparr> @ []\<rparr>)) = (Inl (ErrKindReserved 6), c1) \<and>
     fst (ReadFrame c1) = Inr \<lparr>frame_kind = KindAuthenticate, frame_payload = [9]\<rparr>"
proof -
  let ?f = "\<lparr>frame_kind = KindAuthenticate, frame_payload = [9]\<rparr> :: Frame"
  have "frame_ok ?f" by (simp add: frame_ok_def MaxPayloadSize_def kind_defs)
  moreover have "unat (6 :: 32 word) \<le> MaxPayloadSize" by (simp add: MaxPayloadSize_def)
  ultimately show ?thesis
    using reserved_kind_refusal_is_not_terminal [of ?f 6
        "ex_stream\<lparr>st_in := PutUint32 6 @ [KindReserved] @ frame_bytes ?f @ []\<rparr>" "[]"]
    by fastforce
qed

end
