(* ===== verification/Auth_Sessions.thy ===== *)
theory Auth_Sessions
  imports Go_Encoding Wire_Conn Clocks
begin

text \<open>
  The sessions of \<^verbatim>\<open>internal/auth/session.go\<close> and the admission of a connection, \<^verbatim>\<open>Admit\<close> of
  \<^verbatim>\<open>internal/auth/authenticate.go\<close>.

  What \<^verbatim>\<open>randRead\<close> fills its buffer with is an argument, \<open>None\<close> when it fails.  The clock's
  reading is an argument.  The mutex makes each operation one step, so the model has no more
  interleaving than the order of the operations.
\<close>

subsection \<open>Sessions\<close>

definition TokenLifetime :: duration where
  "TokenLifetime = 15 * 60 * Second"

definition tokenBytes :: nat where "tokenBytes = 32"

definition idBytes :: nat where "idBytes = 16"

datatype auth_error =
    NeedsOwner
  | DrawingToken
  | ErrNoSuchSession
  | ErrSessionExpired
  | OnConnection wire_error

record Session =
  ses_id :: string
  ses_owner :: string
  ses_opened :: instant
  ses_expires :: instant

record Sessions =
  ss_held :: "(string, Session) gomap"

definition NewSessions :: Sessions where
  "NewSessions = \<lparr>ss_held = []\<rparr>"

definition digest :: "string \<Rightarrow> string" where
  "digest token = b64_encode (Sum256 (string_bytes token))"

definition Open ::
    "instant \<Rightarrow> byte list option \<Rightarrow> string \<Rightarrow> Sessions \<Rightarrow> auth_error + (Session \<times> string \<times> Sessions)"
where
  "Open now drawn owner s =
     (if owner = [] then Inl NeedsOwner
      else
        (case drawn of
           None \<Rightarrow> Inl DrawingToken
         | Some raw \<Rightarrow>
             let token = b64_encode (take tokenBytes raw);
                 session = \<lparr>ses_id = b64_encode (drop tokenBytes raw), ses_owner = owner,
                            ses_opened = now, ses_expires = now + TokenLifetime\<rparr>
             in Inr (session, token,
                     s\<lparr>ss_held := AList.update (digest token) session (ss_held s)\<rparr>)))"

definition Lookup :: "instant \<Rightarrow> string \<Rightarrow> Sessions \<Rightarrow> auth_error + Session" where
  "Lookup now token s =
     (case map_of (ss_held s) (digest token) of
        None \<Rightarrow> Inl ErrNoSuchSession
      | Some session \<Rightarrow>
          if \<not> now < ses_expires session then Inl ErrSessionExpired else Inr session)"

text \<open>The first entry of the range whose identifier compares equal.\<close>

fun find_id :: "string \<Rightarrow> (string \<times> Session) list \<Rightarrow> string option" where
  "find_id i [] = None"
| "find_id i ((key, session) # rest) = (if ses_id session = i then Some key else find_id i rest)"

definition Revoke :: "string \<Rightarrow> Sessions \<Rightarrow> bool \<times> Sessions" where
  "Revoke i s =
     (case find_id i (ss_held s) of
        None \<Rightarrow> (False, s)
      | Some key \<Rightarrow> (True, s\<lparr>ss_held := AList.delete key (ss_held s)\<rparr>))"

definition session_key :: "Session \<Rightarrow> instant \<times> string" where
  "session_key s = (ses_opened s, ses_id s)"

definition SessionsOf :: "string \<Rightarrow> Sessions \<Rightarrow> Session list" where
  "SessionsOf owner s =
     sort_key session_key (filter (\<lambda>session. ses_owner session = owner) (map snd (ss_held s)))"

subsection \<open>Admitting a connection\<close>

definition bytes_string :: "byte list \<Rightarrow> string" where
  "bytes_string bs = map (\<lambda>b. char_of (unat b)) bs"

definition Admit :: "instant \<Rightarrow> Sessions \<Rightarrow> Conn \<Rightarrow> (auth_error + Session) \<times> Conn" where
  "Admit now s conn =
     (case ReadFrame conn of
        (Inl err, c1) \<Rightarrow> (Inl (OnConnection err), c1)
      | (Inr frame, c1) \<Rightarrow>
          (case Lookup now (bytes_string (frame_payload frame)) s of
             Inl err \<Rightarrow> (Inl err, c1)
           | Inr session \<Rightarrow> (Inr session, MarkAuthenticated c1)))"

lemma bytes_string_bytes [simp]: "bytes_string (string_bytes s) = s"
proof -
  have "char_of (unat (of_char c :: byte)) = c" for c
  proof -
    have "(of_char c :: nat) < 256" by (rule nat_of_char_less_256)
    then have "unat (of_char c :: byte) = of_char c"
      by (metis of_nat_of_char unat_byte mod_less)
    then show ?thesis by simp
  qed
  then show ?thesis by (simp add: bytes_string_def string_bytes_def o_def)
qed

subsection \<open>Histories\<close>

datatype session_event = SeOpen instant "byte list option" string | SeRevoke string

fun ses_do :: "session_event \<Rightarrow> Sessions \<Rightarrow> Sessions" where
  "ses_do (SeOpen now drawn owner) s =
     (case Open now drawn owner s of Inl _ \<Rightarrow> s | Inr (_, _, s') \<Rightarrow> s')"
| "ses_do (SeRevoke i) s = snd (Revoke i s)"

definition ses_run :: "session_event list \<Rightarrow> Sessions \<Rightarrow> Sessions" where
  "ses_run evs s = fold ses_do evs s"

lemma ses_run_simps [simp]:
  "ses_run [] s = s" "ses_run (ev # evs) s = ses_run evs (ses_do ev s)"
  "ses_run (evs @ [ev]) s = ses_do ev (ses_run evs s)"
  by (simp_all add: ses_run_def)

definition token_of :: "byte list \<Rightarrow> string" where
  "token_of raw = b64_encode (take tokenBytes raw)"

definition session_of :: "instant \<Rightarrow> byte list \<Rightarrow> string \<Rightarrow> Session" where
  "session_of now raw owner =
     \<lparr>ses_id = b64_encode (drop tokenBytes raw), ses_owner = owner, ses_opened = now,
      ses_expires = now + TokenLifetime\<rparr>"

lemma session_of_simps [simp]:
  "ses_id (session_of now raw owner) = b64_encode (drop tokenBytes raw)"
  "ses_owner (session_of now raw owner) = owner" "ses_opened (session_of now raw owner) = now"
  "ses_expires (session_of now raw owner) = now + TokenLifetime"
  by (simp_all add: session_of_def)

lemma Open_eq:
  "Open now drawn owner s =
     (if owner = [] then Inl NeedsOwner
      else case drawn of None \<Rightarrow> Inl DrawingToken
        | Some raw \<Rightarrow> Inr (session_of now raw owner, token_of raw,
            s\<lparr>ss_held := AList.update (digest (token_of raw)) (session_of now raw owner) (ss_held s)\<rparr>))"
  by (simp add: Open_def Let_def token_of_def session_of_def split: option.split)

lemma find_id_None: "find_id i m = None \<longleftrightarrow> (\<forall>(k, ses) \<in> set m. ses_id ses \<noteq> i)"
  by (induction i m rule: find_id.induct) auto

lemma find_id_Some: "find_id i m = Some k \<Longrightarrow> \<exists>ses. (k, ses) \<in> set m \<and> ses_id ses = i"
  by (induction m) (auto split: if_splits)

lemma gm_ok_held: "gm_ok (ss_held s) \<Longrightarrow> gm_ok (ss_held (ses_do ev s))"
  by (cases ev) (auto simp: Open_eq Revoke_def split: option.split)

lemma gm_ok_run: "gm_ok (ss_held s) \<Longrightarrow> gm_ok (ss_held (ses_run evs s))"
  by (induction evs arbitrary: s) (simp_all add: gm_ok_held)

lemma Revoke_other:
  assumes "gm_ok (ss_held s)" and "map_of (ss_held s) k = Some ses" and "ses_id ses \<noteq> i"
  shows "map_of (ss_held (snd (Revoke i s))) k = Some ses"
proof (cases "find_id i (ss_held s)")
  case (Some key)
  then obtain other where "(key, other) \<in> set (ss_held s)" "ses_id other = i"
    using find_id_Some by blast
  then have "map_of (ss_held s) key = Some other" "ses_id other = i"
    using gm_mem [OF assms(1), of key other] by (blast, blast)
  then have "key \<noteq> k" using assms(2,3) by (metis option.inject)
  then show ?thesis using assms(2) Some by (simp add: Revoke_def)
qed (use assms in \<open>simp add: Revoke_def\<close>)

text \<open>Events that leave a token and its session alone.\<close>

fun leaves :: "string \<Rightarrow> Session \<Rightarrow> session_event \<Rightarrow> bool" where
  "leaves token ses (SeOpen now (Some raw) owner) \<longleftrightarrow> digest (token_of raw) \<noteq> digest token"
| "leaves token ses (SeOpen now None owner) \<longleftrightarrow> True"
| "leaves token ses (SeRevoke i) \<longleftrightarrow> i \<noteq> ses_id ses"

lemma leaves_do:
  assumes "gm_ok (ss_held s)" and "map_of (ss_held s) (digest token) = Some ses" and "leaves token ses ev"
  shows "map_of (ss_held (ses_do ev s)) (digest token) = Some ses"
proof (cases ev)
  case (SeOpen now drawn owner)
  then show ?thesis using assms by (cases drawn) (auto simp: Open_eq)
next
  case (SeRevoke i)
  then show ?thesis using assms Revoke_other by simp
qed

lemma leaves_run:
  "gm_ok (ss_held s) \<Longrightarrow> map_of (ss_held s) (digest token) = Some ses \<Longrightarrow> list_all (leaves token ses) evs \<Longrightarrow>
     map_of (ss_held (ses_run evs s)) (digest token) = Some ses"
  by (induction evs arbitrary: s) (simp_all add: gm_ok_held leaves_do)

text \<open>What the table holds was opened.\<close>

lemma held_was_opened:
  "map_of (ss_held (ses_run evs NewSessions)) k = Some ses \<Longrightarrow>
     \<exists>now raw owner. SeOpen now (Some raw) owner \<in> set evs \<and> owner \<noteq> [] \<and> k = digest (token_of raw) \<and>
       ses = session_of now raw owner"
proof (induction evs arbitrary: k ses rule: rev_induct)
  case Nil
  then show ?case by (simp add: NewSessions_def)
next
  case (snoc ev evs)
  have old: ?case if "map_of (ss_held (ses_run evs NewSessions)) k = Some ses"
    using snoc.IH [OF that] by auto
  show ?case
  proof (cases ev)
    case (SeOpen now drawn owner)
    then show ?thesis
      using snoc.prems old by (cases drawn) (auto simp: Open_eq split: if_splits)
  next
    case (SeRevoke i)
    then have "map_of (ss_held (ses_run evs NewSessions)) k = Some ses"
      using snoc.prems by (auto simp: Revoke_def split: option.splits if_splits)
    then show ?thesis by (rule old)
  qed
qed

subsection \<open>Identifiers stay distinct\<close>

fun draws :: "session_event list \<Rightarrow> byte list list" where
  "draws [] = []"
| "draws (SeOpen now (Some raw) owner # evs) = raw # draws evs"
| "draws (_ # evs) = draws evs"

text \<open>
  What the source of randomness is relied on for: every draw fills the buffer, no two draws give
  one identifier, and no two drawn tokens have one digest.
\<close>

definition good_draws :: "byte list list \<Rightarrow> bool" where
  "good_draws raws \<longleftrightarrow>
     (\<forall>raw \<in> set raws. length raw = tokenBytes + idBytes) \<and>
     distinct (map (drop tokenBytes) raws) \<and> distinct (map (\<lambda>raw. digest (token_of raw)) raws)"

lemma draws_append [simp]: "draws (evs @ evs') = draws evs @ draws evs'"
  by (induction evs rule: draws.induct) simp_all

lemma mem_draws: "SeOpen now (Some raw) owner \<in> set evs \<Longrightarrow> raw \<in> set (draws evs)"
  by (induction evs rule: draws.induct) auto

lemma good_draws_id:
  assumes "good_draws raws" and "raw \<in> set raws" and "raw' \<in> set raws"
    and "b64_encode (drop tokenBytes raw) = b64_encode (drop tokenBytes raw')"
  shows "raw = raw'"
proof -
  have "length (drop tokenBytes raw) = length (drop tokenBytes raw')"
    using assms(1-3) by (simp add: good_draws_def)
  then have "drop tokenBytes raw = drop tokenBytes raw'"
    using assms(4) b64_encode_inject_length by blast
  then show ?thesis
    using assms(1-3) by (auto simp: good_draws_def distinct_map inj_on_def)
qed

lemma held_ids_distinct:
  assumes "good_draws (draws evs)"
    and "map_of (ss_held (ses_run evs NewSessions)) k = Some a"
    and "map_of (ss_held (ses_run evs NewSessions)) l = Some b" and "ses_id a = ses_id b"
  shows "k = l"
proof -
  obtain now raw owner where a: "SeOpen now (Some raw) owner \<in> set evs" "k = digest (token_of raw)"
      "a = session_of now raw owner"
    using held_was_opened [OF assms(2)] by blast
  obtain now' raw' owner' where b: "SeOpen now' (Some raw') owner' \<in> set evs" "l = digest (token_of raw')"
      "b = session_of now' raw' owner'"
    using held_was_opened [OF assms(3)] by blast
  have "raw = raw'"
    by (rule good_draws_id [OF assms(1) mem_draws [OF a(1)] mem_draws [OF b(1)]])
      (use assms(4) a(3) b(3) in simp)
  then show ?thesis using a(2) b(2) by simp
qed

lemma gm_ok_history: "gm_ok (ss_held (ses_run evs NewSessions))"
  by (rule gm_ok_run) (simp add: NewSessions_def)

lemma Revoke_history:
  assumes "good_draws (draws evs)" and "map_of (ss_held (ses_run evs NewSessions)) k = Some ses"
  shows "Revoke (ses_id ses) (ses_run evs NewSessions) =
     (True, (ses_run evs NewSessions)\<lparr>ss_held := AList.delete k (ss_held (ses_run evs NewSessions))\<rparr>)"
proof -
  let ?s = "ses_run evs NewSessions"
  have mem: "(l, b) \<in> set (ss_held ?s) \<longleftrightarrow> map_of (ss_held ?s) l = Some b" for l b
    by (rule gm_mem [OF gm_ok_history])
  have "find_id (ses_id ses) (ss_held ?s) \<noteq> None"
    using assms(2) mem [of k ses] unfolding find_id_None by blast
  then obtain l where l: "find_id (ses_id ses) (ss_held ?s) = Some l" by blast
  then obtain b where "(l, b) \<in> set (ss_held ?s)" "ses_id b = ses_id ses"
    using find_id_Some by blast
  then have "l = k" using held_ids_distinct [OF assms(1) _ assms(2), of l b] mem [of l b] by blast
  with l show ?thesis by (simp add: Revoke_def)
qed

subsection \<open>A small history\<close>

definition ex_raw :: "byte list" where
  "ex_raw = replicate 48 7"

definition ex_opened :: Sessions where
  "ex_opened = ses_run [SeOpen 0 (Some ex_raw) ''ada''] NewSessions"

lemma ex_Open:
  "Open 0 (Some ex_raw) ''ada'' NewSessions =
     Inr (session_of 0 ex_raw ''ada'', token_of ex_raw, ex_opened)"
  by (simp add: Open_eq ex_opened_def)

lemma ex_good: "good_draws (draws [SeOpen 0 (Some ex_raw) ''ada''])"
  by (simp add: good_draws_def ex_raw_def tokenBytes_def idBytes_def)

subsection \<open>Properties\<close>

text \<open>
  C26: A token buys its session, for its lifetime and no longer.  Whatever sessions are opened and
  revoked afterwards, as long as no other draw has the token's digest and nobody revokes the
  session, looking the token up returns the very session until it expires and the expiry from
  then on.
\<close>

theorem token_buys_its_session:
  assumes "Open t0 drawn owner (ses_run past NewSessions) = Inr (ses, token, s1)"
    and "list_all (leaves token ses) evs"
  shows "Lookup now token (ses_run evs s1) =
       (if now < t0 + TokenLifetime then Inr ses else Inl ErrSessionExpired) \<and>
     ses_owner ses = owner \<and> ses_opened ses = t0"
proof -
  let ?s = "ses_run past NewSessions"
  obtain raw where raw: "ses = session_of t0 raw owner" "token = token_of raw"
      "s1 = ?s\<lparr>ss_held := AList.update (digest token) ses (ss_held ?s)\<rparr>"
    using assms(1) by (auto simp: Open_eq split: if_splits option.splits)
  have "map_of (ss_held (ses_run evs s1)) (digest token) = Some ses"
    by (rule leaves_run [OF _ _ assms(2)]) (use raw gm_ok_history in simp_all)
  then show ?thesis using raw by (simp add: Lookup_def)
qed

theorem token_buys_its_session_witness:
  "Lookup (14 * 60 * Second) (token_of ex_raw) ex_opened = Inr (session_of 0 ex_raw ''ada'')"
proof -
  have "Open 0 (Some ex_raw) ''ada'' (ses_run [] NewSessions) =
      Inr (session_of 0 ex_raw ''ada'', token_of ex_raw, ex_opened)"
    using ex_Open by simp
  moreover have "list_all (leaves (token_of ex_raw) (session_of 0 ex_raw ''ada'')) []" by simp
  ultimately have "Lookup (14 * 60 * Second) (token_of ex_raw) (ses_run [] ex_opened) =
      (if 14 * 60 * Second < 0 + TokenLifetime then Inr (session_of 0 ex_raw ''ada'')
       else Inl ErrSessionExpired)"
    using token_buys_its_session by blast
  then show ?thesis by (simp add: TokenLifetime_def Second_def)
qed

text \<open>
  Only what was opened is honoured.  A lookup that succeeds names a session some call opened
  for its owner with a token of the same digest, inside that token's lifetime.
\<close>

theorem Lookup_honours_only_opened:
  assumes "Lookup now token (ses_run evs NewSessions) = Inr ses"
  shows "\<exists>t0 raw owner. SeOpen t0 (Some raw) owner \<in> set evs \<and> owner \<noteq> [] \<and>
     digest token = digest (token_of raw) \<and> ses = session_of t0 raw owner \<and> now < t0 + TokenLifetime"
proof -
  have held: "map_of (ss_held (ses_run evs NewSessions)) (digest token) = Some ses"
    and live: "now < ses_expires ses"
    using assms by (auto simp: Lookup_def split: option.splits if_splits)
  from held_was_opened [OF held] obtain t0 raw owner where
    "SeOpen t0 (Some raw) owner \<in> set evs" "owner \<noteq> []" "digest token = digest (token_of raw)"
    "ses = session_of t0 raw owner" by blast
  with live show ?thesis by (intro exI [of _ t0] exI [of _ raw] exI [of _ owner]) simp
qed

lemma ex_lookup: "Lookup 0 (token_of ex_raw) (ses_run [SeOpen 0 (Some ex_raw) ''ada''] NewSessions) =
    Inr (session_of 0 ex_raw ''ada'')"
  by (simp add: Lookup_def Open_eq TokenLifetime_def Second_def)

theorem Lookup_honours_only_opened_witness:
  "\<exists>t0 raw owner. SeOpen t0 (Some raw) owner \<in> set [SeOpen 0 (Some ex_raw) ''ada''] \<and> owner \<noteq> []"
  using Lookup_honours_only_opened [OF ex_lookup] by blast

text \<open>
  Revocation means something.  Revoking a session's identifier ends that session and no other:
  its token buys nothing from then on, revoking it again reports that there was nothing to revoke,
  and every other token is answered as before.
\<close>

theorem Revoke_ends_exactly_one_session:
  assumes "good_draws (draws evs)" and "s = ses_run evs NewSessions"
    and "map_of (ss_held s) (digest token) = Some ses"
  shows "\<exists>s'. Revoke (ses_id ses) s = (True, s') \<and>
     Lookup now token s' = Inl ErrNoSuchSession \<and> Revoke (ses_id ses) s' = (False, s') \<and>
     (\<forall>other. digest other \<noteq> digest token \<longrightarrow> Lookup now other s' = Lookup now other s)"
proof -
  let ?s' = "s\<lparr>ss_held := AList.delete (digest token) (ss_held s)\<rparr>"
  have held: "map_of (ss_held (ses_run evs NewSessions)) (digest token) = Some ses"
    using assms(2,3) by simp
  have "Revoke (ses_id ses) s = (True, ?s')"
    using Revoke_history [OF assms(1) held] by (simp add: assms(2))
  moreover have "find_id (ses_id ses) (ss_held ?s') = None"
    unfolding find_id_None
  proof (clarify)
    fix k b assume mem: "(k, b) \<in> set (ss_held ?s')" and same: "ses_id b = ses_id ses"
    have ok: "gm_ok (ss_held ?s')" using gm_ok_history [of evs] assms(2) by simp
    have "map_of (ss_held ?s') k = Some b" using gm_mem [OF ok] mem by blast
    then have k: "k \<noteq> digest token" "map_of (ss_held s) k = Some b"
      by (auto split: if_splits)
    with held_ids_distinct [OF assms(1) _ held _] same assms(2) show False by blast
  qed
  then have "Revoke (ses_id ses) ?s' = (False, ?s')" by (simp add: Revoke_def)
  ultimately show ?thesis by (intro exI [of _ ?s']) (simp add: Lookup_def)
qed

theorem Revoke_ends_exactly_one_session_witness:
  "\<exists>s'. Revoke (ses_id (session_of 0 ex_raw ''ada'')) ex_opened = (True, s') \<and>
     Lookup 0 (token_of ex_raw) s' = Inl ErrNoSuchSession"
proof -
  have "map_of (ss_held ex_opened) (digest (token_of ex_raw)) = Some (session_of 0 ex_raw ''ada'')"
    by (simp add: ex_opened_def Open_eq)
  from Revoke_ends_exactly_one_session [OF ex_good ex_opened_def this] show ?thesis by blast
qed

text \<open>
  An owner is shown their sessions as they are: all of them, the expired ones included, nobody
  else's, each once, oldest first.
\<close>

theorem SessionsOf_is_the_true_picture:
  assumes "good_draws (draws evs)" and "s = ses_run evs NewSessions"
  shows "set (SessionsOf owner s) = {ses. \<exists>k. map_of (ss_held s) k = Some ses \<and> ses_owner ses = owner} \<and>
     distinct (map ses_id (SessionsOf owner s)) \<and> sorted (map session_key (SessionsOf owner s))"
proof -
  have ok: "gm_ok (ss_held s)" using gm_ok_history assms(2) by simp
  note mem = gm_mem [OF ok]
  have "inj_on (\<lambda>kb. ses_id (snd kb)) (set (ss_held s))"
  proof (rule inj_onI)
    fix x y assume "x \<in> set (ss_held s)" "y \<in> set (ss_held s)" "ses_id (snd x) = ses_id (snd y)"
    then show "x = y"
      using held_ids_distinct [OF assms(1), of "fst x" "snd x" "fst y" "snd y"] mem assms(2)
      by (metis option.inject prod.collapse)
  qed
  then have "distinct (map (\<lambda>kb. ses_id (snd kb)) (ss_held s))"
    using ok by (simp add: distinct_map)
  then have d: "distinct (map ses_id (map snd (ss_held s)))" by (simp add: o_def)
  have "distinct (map ses_id (filter (\<lambda>ses. ses_owner ses = owner) (map snd (ss_held s))))"
    by (rule distinct_map_filter [OF d])
  then have "distinct (map ses_id (SessionsOf owner s))"
    unfolding SessionsOf_def by (metis distinct_map distinct_sort set_sort)
  moreover have "set (SessionsOf owner s) = {ses. \<exists>k. map_of (ss_held s) k = Some ses \<and> ses_owner ses = owner}"
    using mem by (force simp: SessionsOf_def image_iff)
  ultimately show ?thesis by (simp add: SessionsOf_def)
qed

theorem SessionsOf_is_the_true_picture_witness:
  "distinct (map ses_id (SessionsOf ''ada'' ex_opened)) \<and> SessionsOf ''ada'' ex_opened \<noteq> []"
proof -
  have "set (SessionsOf ''ada'' ex_opened) =
      {ses. \<exists>k. map_of (ss_held ex_opened) k = Some ses \<and> ses_owner ses = ''ada''}"
    using SessionsOf_is_the_true_picture [OF ex_good ex_opened_def] by blast
  moreover have "SessionsOf ''ada'' ex_opened \<noteq> []"
    by (simp add: SessionsOf_def ex_opened_def Open_eq NewSessions_def)
  ultimately show ?thesis
    using SessionsOf_is_the_true_picture [OF ex_good ex_opened_def] by blast
qed

text \<open>
  C11: Admission.  A connection is admitted exactly when its next frame is acceptable at the gate
  and carries a token of a live session; then, and only then, the gate opens.
\<close>

theorem Admit_opens_only_for_a_session:
  assumes "Admit now s c = (r, c')" and "\<not> Authenticated c"
  shows "(Authenticated c' \<longleftrightarrow> is_ok r) \<and>
     (is_ok r \<longleftrightarrow> (\<exists>f c1 ses. ReadFrame c = (Inr f, c1) \<and> frame_kind f = KindAuthenticate \<and>
        Lookup now (bytes_string (frame_payload f)) s = Inr ses \<and> r = Inr ses))"
proof -
  obtain res c1 where read: "ReadFrame c = (res, c1)" by (cases "ReadFrame c")
  have same: "conn_authenticated c1 = conn_authenticated c"
    using read by (auto simp: ReadFrame_def Let_def split: option.splits prod.splits sum.splits if_splits)
  show ?thesis
  proof (cases res)
    case (Inl err)
    then show ?thesis using assms read same by (auto simp: Admit_def Authenticated_def)
  next
    case (Inr f)
    then have kind: "frame_kind f = KindAuthenticate"
      using ReadFrame_ok read assms(2) by (auto simp: Authenticated_def)
    show ?thesis
    proof (cases "Lookup now (bytes_string (frame_payload f)) s")
      case L: (Inl err)
      then have "r = Inl err" "c' = c1"
        using assms(1) read Inr by (simp_all add: Admit_def)
      then show ?thesis using assms(2) read same Inr L by (simp add: Authenticated_def)
    next
      case L: (Inr ses)
      then have "r = Inr ses" "c' = MarkAuthenticated c1"
        using assms(1) read Inr by (simp_all add: Admit_def)
      then show ?thesis using read Inr L kind by (simp add: Authenticated_def MarkAuthenticated_def)
    qed
  qed
qed

theorem Admit_opens_only_for_a_session_witness:
  "\<not> Authenticated (snd (Admit 0 NewSessions (NewConn ex_stream)))"
proof -
  have "\<not> Authenticated (NewConn ex_stream)" by (simp add: Authenticated_def NewConn_def)
  moreover have "Admit 0 NewSessions (NewConn ex_stream) =
      (fst (Admit 0 NewSessions (NewConn ex_stream)), snd (Admit 0 NewSessions (NewConn ex_stream)))"
    by simp
  ultimately have "Authenticated (snd (Admit 0 NewSessions (NewConn ex_stream))) \<longleftrightarrow>
      is_ok (fst (Admit 0 NewSessions (NewConn ex_stream)))"
    using Admit_opens_only_for_a_session by blast
  moreover have "\<not> is_ok (fst (Admit 0 NewSessions (NewConn ex_stream)))"
    by (simp add: Admit_def ReadFrame_def NewConn_def Decode_def ReadFull_def ex_stream_def headerSize_def)
  ultimately show ?thesis by blast
qed

end
