(* ===== verification/Go_Scan.thy ===== *)
theory Go_Scan
  imports Go_Text
begin

text \<open>
  The text-reading parts of Go's standard library the server parses with: \<^verbatim>\<open>strings.Split\<close> by
  one separator byte, the white space of \<^verbatim>\<open>unicode.IsSpace\<close> and the two verbs of
  \<^verbatim>\<open>fmt.Sscanf\<close> it uses, a literal and \<open>%d\<close>.  A scan works on the runes of its input, as
  \<^verbatim>\<open>fmt\<close> does; it reports no more than that it failed, which is all its callers look at.
\<close>

subsection \<open>White space\<close>

definition is_space_rune :: "nat \<Rightarrow> bool" where
  "is_space_rune r \<longleftrightarrow>
     (9 \<le> r \<and> r \<le> 13) \<or> r = 32 \<or> r = 133 \<or> r = 160 \<or> r = 5760 \<or> (8192 \<le> r \<and> r \<le> 8202) \<or>
     r = 8232 \<or> r = 8233 \<or> r = 8239 \<or> r = 8287 \<or> r = 12288"

subsection \<open>Splitting\<close>

fun str_split :: "char \<Rightarrow> string \<Rightarrow> string list" where
  "str_split c [] = [[]]"
| "str_split c (x # xs) =
     (if x = c then [] # str_split c xs
      else (case str_split c xs of [] \<Rightarrow> [[x]] | w # ws \<Rightarrow> (x # w) # ws))"

lemma str_split_nonempty [simp]: "str_split c s \<noteq> []"
  by (induction s) (auto split: list.splits)

lemma str_split_none: "c \<notin> set s \<Longrightarrow> str_split c s = [s]"
  by (induction s) auto

lemma str_split_sep: "c \<notin> set a \<Longrightarrow> str_split c (a @ c # b) = a # str_split c b"
  by (induction a) auto

fun str_join :: "char \<Rightarrow> string list \<Rightarrow> string" where
  "str_join c [] = []"
| "str_join c [w] = w"
| "str_join c (w # v # ws) = w @ c # str_join c (v # ws)"

lemma str_join_split [simp]: "str_join c (str_split c s) = s"
proof (induction s)
  case (Cons x xs)
  obtain w ws where ws: "str_split c xs = w # ws"
    by (cases "str_split c xs") auto
  have "str_join c ((x # w) # ws) = x # str_join c (w # ws)"
    by (cases ws) simp_all
  with ws Cons show ?case by (cases ws) auto
qed simp

lemma str_split_join:
  "ws \<noteq> [] \<Longrightarrow> list_all (\<lambda>w. c \<notin> set w) ws \<Longrightarrow> str_split c (str_join c ws) = ws"
  by (induction c ws rule: str_join.induct) (simp_all add: str_split_none str_split_sep)

lemma str_split_no_sep: "w \<in> set (str_split c s) \<Longrightarrow> c \<notin> set w"
proof (induction s arbitrary: w)
  case (Cons x xs)
  obtain v vs where "str_split c xs = v # vs"
    by (cases "str_split c xs") auto
  with Cons show ?case by (auto split: if_splits)
qed simp

subsection \<open>Scanning\<close>

text \<open>
  \<^verbatim>\<open>ss.SkipSpace\<close> where a newline is not a space: \<open>None\<close> is its unexpected newline.
\<close>

fun skip_space :: "nat list \<Rightarrow> nat list option" where
  "skip_space [] = Some []"
| "skip_space (r # rs) =
     (if r = 13 \<and> rs \<noteq> [] \<and> hd rs = 10 then None
      else if r = 10 then None
      else if is_space_rune r then skip_space rs
      else Some (r # rs))"

definition digit_rune :: "nat \<Rightarrow> bool" where
  "digit_rune r \<longleftrightarrow> 48 \<le> r \<and> r \<le> 57"

definition digits_value :: "nat list \<Rightarrow> nat" where
  "digits_value ds = foldl (\<lambda>acc d. 10 * acc + (d - 48)) 0 ds"

fun scan_literal :: "string \<Rightarrow> nat list \<Rightarrow> nat list option" where
  "scan_literal [] rs = Some rs"
| "scan_literal (c # cs) [] = None"
| "scan_literal (c # cs) (r # rs) = (if r = of_char c then scan_literal cs rs else None)"

text \<open>The \<open>%d\<close> verb into an unsigned integer of \<open>w\<close> bits, and into an \<^verbatim>\<open>int\<close>.\<close>

definition scan_uint :: "nat \<Rightarrow> nat list \<Rightarrow> (nat \<times> nat list) option" where
  "scan_uint w rs =
     (case skip_space rs of
        None \<Rightarrow> None
      | Some rs1 \<Rightarrow>
          let ds = takeWhile digit_rune rs1; n = digits_value ds
          in if ds = [] \<or> 2 ^ w \<le> n then None else Some (n, dropWhile digit_rune rs1))"

definition scan_int :: "nat list \<Rightarrow> (int \<times> nat list) option" where
  "scan_int rs =
     (case skip_space rs of
        None \<Rightarrow> None
      | Some rs1 \<Rightarrow>
          let neg = (rs1 \<noteq> [] \<and> hd rs1 = 45);
              rs2 = (if rs1 \<noteq> [] \<and> (hd rs1 = 43 \<or> hd rs1 = 45) then tl rs1 else rs1);
              ds = takeWhile digit_rune rs2;
              i = (if neg then - int (digits_value ds) else int (digits_value ds))
          in if ds = [] \<or> i < - (2 ^ 63) \<or> 2 ^ 63 \<le> i then None
             else Some (i, dropWhile digit_rune rs2))"

subsection \<open>What is printed is scanned\<close>

lemma go_runes_ascii_append:
  "list_all (\<lambda>c. byte_val c < 128) a \<Longrightarrow> go_runes (a @ b) = map of_char a @ go_runes b"
  by (induction a) (simp_all add: go_runes_Cons decode_rune_ascii del: decode_rune.simps)

lemma go_runes_ascii: "list_all (\<lambda>c. byte_val c < 128) a \<Longrightarrow> go_runes a = map of_char a"
  using go_runes_ascii_append [of a "[]"] by simp

lemma dec_nat_ascii: "list_all (\<lambda>c. byte_val c < 128) (dec_nat n)"
  using dec_nat_digits by (fastforce simp: list_all_iff)

lemma dec_nat_digit_runes: "list_all digit_rune (map of_char (dec_nat n))"
  using dec_nat_digits by (fastforce simp: list_all_iff digit_rune_def)

lemma digits_value_dec_nat [simp]: "digits_value (map of_char (dec_nat n)) = n"
proof -
  have "foldl (\<lambda>acc d. 10 * acc + (d - 48)) a (map of_char s) =
      foldl (\<lambda>acc c. 10 * acc + (of_char c - 48)) a s" for a :: nat and s
    by (induction s arbitrary: a) simp_all
  then show ?thesis
    using undec_dec_nat [of n] by (simp add: digits_value_def undec_def)
qed

lemma dec_nat_scanned:
  assumes "rs = [] \<or> \<not> digit_rune (hd rs)"
  shows "takeWhile digit_rune (map of_char (dec_nat n) @ rs) = map of_char (dec_nat n)"
    and "dropWhile digit_rune (map of_char (dec_nat n) @ rs) = rs"
proof -
  have all: "\<And>x. x \<in> set (map of_char (dec_nat n)) \<Longrightarrow> digit_rune x"
    using dec_nat_digit_runes [of n] by (auto simp: list_all_iff)
  have "takeWhile digit_rune rs = []" "dropWhile digit_rune rs = rs"
    using assms by (cases rs; simp)+
  then show "takeWhile digit_rune (map of_char (dec_nat n) @ rs) = map of_char (dec_nat n)"
    and "dropWhile digit_rune (map of_char (dec_nat n) @ rs) = rs"
    by (simp_all only: takeWhile_append2 [OF all] dropWhile_append2 [OF all] append_Nil2)
qed

lemma digit_not_space: "digit_rune r \<Longrightarrow> \<not> is_space_rune r \<and> r \<noteq> 10 \<and> r \<noteq> 13"
  by (auto simp: digit_rune_def is_space_rune_def)

lemma hd_dec_nat_digit:
  obtains d ds where "map of_char (dec_nat n) = d # ds" and "digit_rune d"
proof (cases "map of_char (dec_nat n) :: nat list")
  case (Cons d ds)
  moreover have "digit_rune d"
    using dec_nat_digit_runes [of n] Cons by (simp add: list_all_iff)
  ultimately show ?thesis by (rule that)
qed simp

lemma skip_space_dec_nat: "skip_space (map of_char (dec_nat n) @ rs) = Some (map of_char (dec_nat n) @ rs)"
  by (rule hd_dec_nat_digit [of n]) (auto dest: digit_not_space)

lemma scan_uint_dec_nat:
  assumes "rs = [] \<or> \<not> digit_rune (hd rs)" and "n < 2 ^ w"
  shows "scan_uint w (map of_char (dec_nat n) @ rs) = Some (n, rs)"
  using assms dec_nat_scanned [OF assms(1), of n]
  by (simp add: scan_uint_def skip_space_dec_nat Let_def)

lemma scan_int_dec_nat:
  assumes "rs = [] \<or> \<not> digit_rune (hd rs)" and "n < 2 ^ 63"
  shows "scan_int (map of_char (dec_nat n) @ rs) = Some (int n, rs)"
proof -
  have sign: "\<not> (hd (map of_char (dec_nat n) @ rs) = (43 :: nat) \<or> hd (map of_char (dec_nat n) @ rs) = 45)"
    by (rule hd_dec_nat_digit [of n]) (auto simp: digit_rune_def)
  have "int n < 2 ^ 63"
    using assms(2) by simp
  with sign show ?thesis
    using dec_nat_scanned [OF assms(1), of n]
    by (simp add: scan_int_def skip_space_dec_nat Let_def)
qed

lemma scan_literal_append: "scan_literal a (map of_char a @ rs) = Some rs"
  by (induction a) simp_all

end
