(* ===== verification/Auth_Credentials.thy ===== *)
theory Auth_Credentials
  imports Auth_Sessions Go_Scan
begin

text \<open>
  The password side of authentication: \<^verbatim>\<open>internal/auth/credential.go\<close> and \<^verbatim>\<open>Authenticate\<close> of
  \<^verbatim>\<open>internal/auth/authenticate.go\<close>.

  The third-party package \<^verbatim>\<open>argon2\<close> is the parameter \<open>argon2\<close>: its version number and its key
  derivation.  What the code relies on is \<open>argon_ok\<close>: the version fits an \<^verbatim>\<open>int\<close>, and a key has
  the length asked for.  What \<^verbatim>\<open>randRead\<close> fills the salt with is an argument, \<open>None\<close> when it
  fails, and so is the \<^verbatim>\<open>Accounts\<close> a name is looked up in.  \<open>Matches_run\<close> and
  \<open>Authenticate_run\<close> are the operations with the key derivations they run, \<open>Matches\<close> and
  \<open>Authenticate\<close> their answers alone.
\<close>

subsection \<open>Stored credentials\<close>

record argon2 =
  argon_Version :: int
  argon_IDKey :: "byte list \<Rightarrow> byte list \<Rightarrow> 32 word \<Rightarrow> 32 word \<Rightarrow> 8 word \<Rightarrow> 32 word \<Rightarrow> byte list"

definition argon_ok :: "argon2 \<Rightarrow> bool" where
  "argon_ok ar \<longleftrightarrow>
     0 \<le> argon_Version ar \<and> argon_Version ar < 2 ^ 63 \<and>
     (\<forall>pw salt t m p n. length (argon_IDKey ar pw salt t m p n) = unat n)"

definition argonTime :: "32 word" where "argonTime = 3"

definition argonMemory :: "32 word" where "argonMemory = 64 * 1024"

definition argonThreads :: "8 word" where "argonThreads = 4"

definition argonKeyLen :: "32 word" where "argonKeyLen = 32"

definition saltLen :: nat where "saltLen = 16"

datatype malformed_credential =
    FieldCount nat
  | WrongVariant string
  | VersionField string
  | WrongVersion int
  | CostField string
  | ZeroCost
  | SaltNotBase64
  | KeyNotBase64
  | EmptySaltOrKey nat nat

datatype credential_error = DrawingSalt | ErrMalformedCredential malformed_credential

record params =
  p_memory :: "32 word"
  p_time :: "32 word"
  p_threads :: "8 word"

definition stored_form :: "argon2 \<Rightarrow> byte list \<Rightarrow> byte list \<Rightarrow> string" where
  "stored_form ar salt key =
     ''$argon2id$v='' @ itoa (argon_Version ar) @ ''$m='' @ itoa (uint argonMemory) @ '',t='' @
     itoa (uint argonTime) @ '',p='' @ itoa (uint argonThreads) @ ''$'' @ b64_encode salt @ ''$'' @
     b64_encode key"

definition Store :: "argon2 \<Rightarrow> byte list option \<Rightarrow> string \<Rightarrow> credential_error + string" where
  "Store ar drawn credential =
     (case drawn of
        None \<Rightarrow> Inl DrawingSalt
      | Some salt \<Rightarrow>
          let key = argon_IDKey ar (string_bytes credential) salt argonTime argonMemory argonThreads
                      argonKeyLen
          in Inr (stored_form ar salt key))"

text \<open>\<^verbatim>\<open>Sscanf(s, "v=%d", &version)\<close> and \<^verbatim>\<open>Sscanf(s, "m=%d,t=%d,p=%d", ...)\<close>.\<close>

definition scan_version :: "string \<Rightarrow> int option" where
  "scan_version s =
     (case scan_literal ''v='' (go_runes s) of
        None \<Rightarrow> None
      | Some rs \<Rightarrow> map_option fst (scan_int rs))"

definition scan_costs :: "string \<Rightarrow> params option" where
  "scan_costs s =
     (case scan_literal ''m='' (go_runes s) of None \<Rightarrow> None | Some r1 \<Rightarrow>
      case scan_uint 32 r1 of None \<Rightarrow> None | Some (m, r2) \<Rightarrow>
      case scan_literal '',t='' r2 of None \<Rightarrow> None | Some r3 \<Rightarrow>
      case scan_uint 32 r3 of None \<Rightarrow> None | Some (t, r4) \<Rightarrow>
      case scan_literal '',p='' r4 of None \<Rightarrow> None | Some r5 \<Rightarrow>
      case scan_uint 8 r5 of None \<Rightarrow> None | Some (p, _) \<Rightarrow>
      Some \<lparr>p_memory = of_nat m, p_time = of_nat t, p_threads = of_nat p\<rparr>)"

definition parse :: "argon2 \<Rightarrow> string \<Rightarrow> credential_error + (params \<times> byte list \<times> byte list)" where
  "parse ar stored =
     (let fld = str_split (CHR ''$'') stored in
      if length fld \<noteq> 6 \<or> fld ! 0 \<noteq> [] then Inl (ErrMalformedCredential (FieldCount (length fld)))
      else if fld ! 1 \<noteq> ''argon2id'' then Inl (ErrMalformedCredential (WrongVariant (fld ! 1)))
      else case scan_version (fld ! 2) of
        None \<Rightarrow> Inl (ErrMalformedCredential (VersionField (fld ! 2)))
      | Some version \<Rightarrow>
      if version \<noteq> argon_Version ar then Inl (ErrMalformedCredential (WrongVersion version))
      else case scan_costs (fld ! 3) of
        None \<Rightarrow> Inl (ErrMalformedCredential (CostField (fld ! 3)))
      | Some p \<Rightarrow>
      if p_memory p = 0 \<or> p_time p = 0 \<or> p_threads p = 0 then Inl (ErrMalformedCredential ZeroCost)
      else case b64_decode (fld ! 4) of
        None \<Rightarrow> Inl (ErrMalformedCredential SaltNotBase64)
      | Some salt \<Rightarrow>
      (case b64_decode (fld ! 5) of
        None \<Rightarrow> Inl (ErrMalformedCredential KeyNotBase64)
      | Some key \<Rightarrow>
      if salt = [] \<or> key = []
      then Inl (ErrMalformedCredential (EmptySaltOrKey (length salt) (length key)))
      else Inr (p, salt, key)))"

text \<open>
  A run of the key derivation, by what it is called with.  The derivations an operation runs are part
  of its result, in order, because how many there are and what they cost is what a peer can time.
\<close>

record derivation =
  dv_password :: "byte list"
  dv_salt :: "byte list"
  dv_time :: "32 word"
  dv_memory :: "32 word"
  dv_threads :: "8 word"
  dv_keyLen :: "32 word"

definition derive :: "argon2 \<Rightarrow> derivation \<Rightarrow> byte list" where
  "derive ar d =
     argon_IDKey ar (dv_password d) (dv_salt d) (dv_time d) (dv_memory d) (dv_threads d) (dv_keyLen d)"

text \<open>
  \<^verbatim>\<open>uint32(len(key))\<close> wraps.  \<^verbatim>\<open>ConstantTimeCompare\<close> is equality, of the lengths too.
\<close>

definition Matches_run :: "argon2 \<Rightarrow> string \<Rightarrow> string \<Rightarrow> (credential_error + bool) \<times> derivation list" where
  "Matches_run ar stored credential =
     (case parse ar stored of
        Inl err \<Rightarrow> (Inl err, [])
      | Inr (p, salt, key) \<Rightarrow>
          let d = \<lparr>dv_password = string_bytes credential, dv_salt = salt, dv_time = p_time p,
                   dv_memory = p_memory p, dv_threads = p_threads p, dv_keyLen = of_nat (length key)\<rparr>;
              candidate = derive ar d
          in (Inr (candidate = key), [d]))"

definition Matches :: "argon2 \<Rightarrow> string \<Rightarrow> string \<Rightarrow> credential_error + bool" where
  "Matches ar stored credential = fst (Matches_run ar stored credential)"

subsection \<open>Authentication\<close>

datatype 'e accounts_answer = Held string | ErrNoSuchAccount | AccountsFailed 'e

datatype 'e authenticate_error =
    ReadingAccount 'e
  | ReadingCredential credential_error
  | ErrAuthentication
  | OpeningSession auth_error

definition decoy :: "argon2 \<Rightarrow> string" where
  "decoy ar = stored_form ar (replicate saltLen 0) (replicate (unat argonKeyLen) 0)"

text \<open>The answer of an authentication, and the derivations it ran.\<close>

definition Authenticate_run ::
    "argon2 \<Rightarrow> (string \<Rightarrow> 'e accounts_answer) \<Rightarrow> instant \<Rightarrow> byte list option \<Rightarrow> Sessions \<Rightarrow>
     string \<Rightarrow> string \<Rightarrow> ('e authenticate_error + (Session \<times> string \<times> Sessions)) \<times> derivation list"
where
  "Authenticate_run ar accounts now drawn sessions name credential =
     (let finish = (\<lambda>known stored.
        (case Matches_run ar stored credential of
           (Inl err, ds) \<Rightarrow> (Inl (ReadingCredential err), ds)
         | (Inr matched, ds) \<Rightarrow>
             if \<not> known \<or> \<not> matched then (Inl ErrAuthentication, ds)
             else (case Open now drawn name sessions of
                     Inl err \<Rightarrow> (Inl (OpeningSession err), ds)
                   | Inr opened \<Rightarrow> (Inr opened, ds))))
      in case accounts name of
           ErrNoSuchAccount \<Rightarrow> finish False (decoy ar)
         | AccountsFailed err \<Rightarrow> (Inl (ReadingAccount err), [])
         | Held stored \<Rightarrow> finish True stored)"

definition Authenticate ::
    "argon2 \<Rightarrow> (string \<Rightarrow> 'e accounts_answer) \<Rightarrow> instant \<Rightarrow> byte list option \<Rightarrow> Sessions \<Rightarrow>
     string \<Rightarrow> string \<Rightarrow> 'e authenticate_error + (Session \<times> string \<times> Sessions)"
where
  "Authenticate ar accounts now drawn sessions name credential =
     fst (Authenticate_run ar accounts now drawn sessions name credential)"

lemma Matches_eq:
  "Matches ar stored credential =
     (case parse ar stored of
        Inl err \<Rightarrow> Inl err
      | Inr (p, salt, key) \<Rightarrow>
          Inr (argon_IDKey ar (string_bytes credential) salt (p_time p) (p_memory p) (p_threads p) (of_nat (length key)) =
               key))"
  by (simp add: Matches_def Matches_run_def derive_def Let_def split: sum.split)

lemma Authenticate_eq:
  "Authenticate ar accounts now drawn sessions name credential =
     (let finish = (\<lambda>known stored.
        (case Matches ar stored credential of
           Inl err \<Rightarrow> Inl (ReadingCredential err)
         | Inr matched \<Rightarrow>
             if \<not> known \<or> \<not> matched then Inl ErrAuthentication
             else (case Open now drawn name sessions of
                     Inl err \<Rightarrow> Inl (OpeningSession err)
                   | Inr opened \<Rightarrow> Inr opened)))
      in case accounts name of
           ErrNoSuchAccount \<Rightarrow> finish False (decoy ar)
         | AccountsFailed err \<Rightarrow> Inl (ReadingAccount err)
         | Held stored \<Rightarrow> finish True stored)"
  by (simp add: Authenticate_def Authenticate_run_def Matches_def Let_def
      split: accounts_answer.split prod.split sum.split)

subsection \<open>The stored form is read back\<close>

definition current_costs :: params where
  "current_costs = \<lparr>p_memory = argonMemory, p_time = argonTime, p_threads = argonThreads\<rparr>"

definition version_field :: "argon2 \<Rightarrow> string" where
  "version_field ar = ''v='' @ itoa (argon_Version ar)"

definition cost_field :: string where
  "cost_field =
     ''m='' @ itoa (uint argonMemory) @ '',t='' @ itoa (uint argonTime) @ '',p='' @ itoa (uint argonThreads)"

lemma no_dollar: "CHR ''$'' \<notin> set (dec_nat n)" "CHR ''$'' \<notin> set (b64_encode bs)"
proof -
  show "CHR ''$'' \<notin> set (dec_nat n)"
  proof
    assume "CHR ''$'' \<in> set (dec_nat n)"
    then obtain d where d: "d < 10" "CHR ''$'' = dec_digit d"
      using dec_nat_digits by blast
    have "(of_char (CHR ''$'') :: nat) = 36" by simp
    with d of_char_dec_digit [of d] show False by simp
  qed
  show "CHR ''$'' \<notin> set (b64_encode bs)"
    by (rule b64_no) (simp add: b64_alphabet_def)
qed

lemma itoa_nonneg: "0 \<le> i \<Longrightarrow> itoa i = dec_nat (nat i)"
  by (simp add: itoa_def)

lemma cost_field_eq: "cost_field = ''m='' @ dec_nat 65536 @ '',t='' @ dec_nat 3 @ '',p='' @ dec_nat 4"
  by (simp add: cost_field_def itoa_def argonMemory_def argonTime_def argonThreads_def)

lemma stored_form_fields:
  "stored_form ar salt key =
     str_join (CHR ''$'') [[], ''argon2id'', version_field ar, cost_field, b64_encode salt, b64_encode key]"
  by (simp add: stored_form_def version_field_def cost_field_def)

lemma split_stored_form:
  assumes "argon_ok ar"
  shows "str_split (CHR ''$'') (stored_form ar salt key) =
     [[], ''argon2id'', version_field ar, cost_field, b64_encode salt, b64_encode key]"
proof -
  have "0 \<le> argon_Version ar" using assms by (simp add: argon_ok_def)
  then have "CHR ''$'' \<notin> set (version_field ar)"
    by (simp add: version_field_def itoa_nonneg no_dollar)
  moreover have "CHR ''$'' \<notin> set cost_field"
    by (simp add: cost_field_eq no_dollar)
  ultimately show ?thesis
    unfolding stored_form_fields by (intro str_split_join) (simp_all add: no_dollar)
qed

lemma runes_of_field:
  "list_all (\<lambda>c. byte_val c < 128) a \<Longrightarrow> list_all (\<lambda>c. byte_val c < 128) b \<Longrightarrow>
   go_runes (a @ dec_nat n @ b) = map of_char a @ map of_char (dec_nat n) @ map of_char b"
  using dec_nat_ascii [of n] by (simp add: go_runes_ascii_append go_runes_ascii)

lemma scan_version_junk:
  assumes "argon_ok ar" and "rest = [] \<or> \<not> digit_rune (hd (go_runes rest))"
  shows "scan_version (version_field ar @ rest) = Some (argon_Version ar)"
proof -
  have v: "0 \<le> argon_Version ar" "nat (argon_Version ar) < 2 ^ 63"
    using assms(1) by (simp_all add: argon_ok_def nat_less_iff)
  have "go_runes (version_field ar @ rest) =
      map of_char ''v='' @ map of_char (dec_nat (nat (argon_Version ar))) @ go_runes rest"
    using v(1) dec_nat_ascii
    by (simp add: version_field_def itoa_nonneg go_runes_Cons decode_rune_ascii go_runes_ascii_append
        del: decode_rune.simps)
  moreover have "go_runes rest = [] \<or> \<not> digit_rune (hd (go_runes rest))"
    using assms(2) by auto
  ultimately show ?thesis
    using v scan_int_dec_nat
    by (simp only: scan_version_def scan_literal_append option.case) simp
qed

lemma scan_costs_current: "scan_costs cost_field = Some current_costs"
proof -
  have runes: "go_runes cost_field =
      map of_char ''m='' @ map of_char (dec_nat 65536) @ map of_char '',t='' @ map of_char (dec_nat 3) @
      map of_char '',p='' @ map of_char (dec_nat 4)"
    using dec_nat_ascii
    by (subst go_runes_ascii) (simp_all add: cost_field_eq)
  have comma: "\<not> digit_rune (hd (map of_char '',t='' @ rs))" "\<not> digit_rune (hd (map of_char '',p='' @ rs))"
    for rs
    by (simp_all add: digit_rune_def)
  have m: "scan_uint 32 (map of_char (dec_nat 65536) @ map of_char '',t='' @ rs) =
      Some (65536, map of_char '',t='' @ rs)" for rs
    by (rule scan_uint_dec_nat) (use comma in simp_all)
  have t: "scan_uint 32 (map of_char (dec_nat 3) @ map of_char '',p='' @ rs) =
      Some (3, map of_char '',p='' @ rs)" for rs
    by (rule scan_uint_dec_nat) (use comma in simp_all)
  have p: "scan_uint 8 (map of_char (dec_nat 4)) = Some (4, [])"
    using scan_uint_dec_nat [of "[]" 4 8] by simp
  show ?thesis
    unfolding scan_costs_def runes
    by (simp only: scan_literal_append m t p option.case prod.case)
      (simp add: current_costs_def argonMemory_def argonTime_def argonThreads_def)
qed

lemma parse_stored_form:
  assumes "argon_ok ar" and "salt \<noteq> []" and "key \<noteq> []"
  shows "parse ar (stored_form ar salt key) = Inr (current_costs, salt, key)"
proof -
  have "scan_version (version_field ar) = Some (argon_Version ar)"
    using scan_version_junk [OF assms(1), of "[]"] by simp
  then show ?thesis
    using assms(2,3)
    by (simp add: parse_def split_stored_form [OF assms(1)] scan_costs_current Let_def current_costs_def
        argonMemory_def argonTime_def argonThreads_def)
qed

text \<open>
  What a derivation costs: the lengths of the password and the salt it reads, the parameters it is run
  with and the length of the key it makes.
\<close>

definition derivation_cost :: "derivation \<Rightarrow> nat \<times> nat \<times> 32 word \<times> 32 word \<times> 8 word \<times> 32 word" where
  "derivation_cost d =
     (length (dv_password d), length (dv_salt d), dv_time d, dv_memory d, dv_threads d, dv_keyLen d)"

lemma decoy_parse:
  "argon_ok ar \<Longrightarrow>
   parse ar (decoy ar) = Inr (current_costs, replicate saltLen 0, replicate (unat argonKeyLen) 0)"
  unfolding decoy_def by (rule parse_stored_form) (simp_all add: saltLen_def argonKeyLen_def)

lemma Store_parse:
  assumes "argon_ok ar" and "length salt = saltLen" and "Store ar (Some salt) credential = Inr stored"
  shows "parse ar stored =
    Inr (current_costs, salt,
         argon_IDKey ar (string_bytes credential) salt argonTime argonMemory argonThreads argonKeyLen)"
proof -
  let ?key = "argon_IDKey ar (string_bytes credential) salt argonTime argonMemory argonThreads argonKeyLen"
  have len: "length ?key = unat argonKeyLen"
    using assms(1) unfolding argon_ok_def by blast
  then have "?key \<noteq> []"
    by (auto simp: argonKeyLen_def)
  moreover have "salt \<noteq> []"
    using assms(2) by (auto simp: saltLen_def)
  moreover have "stored = stored_form ar salt ?key"
    using assms(3) by (simp add: Store_def Let_def)
  ultimately show ?thesis
    using parse_stored_form [OF assms(1)] by simp
qed

lemma key_length: "argon_ok ar \<Longrightarrow> length (argon_IDKey ar pw salt t m p n) = unat n"
  unfolding argon_ok_def by blast

lemma Matches_Store:
  assumes "argon_ok ar" and "length salt = saltLen" and "Store ar (Some salt) credential = Inr stored"
  shows "Matches ar stored attempt =
    Inr (argon_IDKey ar (string_bytes attempt) salt argonTime argonMemory argonThreads argonKeyLen =
         argon_IDKey ar (string_bytes credential) salt argonTime argonMemory argonThreads argonKeyLen)"
  using Store_parse [OF assms] key_length [OF assms(1)]
  by (simp add: Matches_eq current_costs_def)

text \<open>
  \<^verbatim>\<open>Sscanf\<close> stops at the last verb of its format: what follows the version number in its field
  is not looked at, so a value no \<open>Store\<close> wrote is read as one it did.
\<close>

lemma trailing_version_bytes_are_accepted:
  assumes "argon_ok ar" and "salt \<noteq> []" and "key \<noteq> []"
    and "junk = [] \<or> \<not> digit_rune (hd (go_runes junk))" and "CHR ''$'' \<notin> set junk"
  shows "parse ar (str_join (CHR ''$'')
       [[], ''argon2id'', version_field ar @ junk, cost_field, b64_encode salt, b64_encode key]) =
     parse ar (stored_form ar salt key)"
proof -
  have "0 \<le> argon_Version ar" using assms(1) by (simp add: argon_ok_def)
  then have "CHR ''$'' \<notin> set (version_field ar)"
    by (simp add: version_field_def itoa_nonneg no_dollar)
  moreover have "CHR ''$'' \<notin> set cost_field"
    by (simp add: cost_field_eq no_dollar)
  ultimately have "str_split (CHR ''$'') (str_join (CHR ''$'')
       [[], ''argon2id'', version_field ar @ junk, cost_field, b64_encode salt, b64_encode key]) =
     [[], ''argon2id'', version_field ar @ junk, cost_field, b64_encode salt, b64_encode key]"
    using assms(5) by (intro str_split_join) (simp_all add: no_dollar)
  then show ?thesis
    using assms(2,3) scan_version_junk [OF assms(1,4)] parse_stored_form [OF assms(1-3)]
    by (simp add: parse_def scan_costs_current Let_def current_costs_def
        argonMemory_def argonTime_def argonThreads_def)
qed

subsection \<open>A concrete key derivation\<close>

text \<open>For the examples only: the password itself, padded, as the key.\<close>

definition ex_argon :: argon2 where
  "ex_argon = \<lparr>argon_Version = 19,
     argon_IDKey = (\<lambda>pw salt t m p n. take (unat n) (pw @ replicate (unat n) 0))\<rparr>"

definition ex_salt :: "byte list" where
  "ex_salt = replicate 16 5"

definition ex_stored :: string where
  "ex_stored = (case Store ex_argon (Some ex_salt) ''secret'' of Inr s \<Rightarrow> s)"

lemma ex_argon_ok: "argon_ok ex_argon"
  by (auto simp: argon_ok_def ex_argon_def min_def)

lemma ex_salt_length: "length ex_salt = saltLen"
  by (simp add: ex_salt_def saltLen_def)

lemma ex_Store: "Store ex_argon (Some ex_salt) ''secret'' = Inr ex_stored"
  by (simp add: ex_stored_def Store_def Let_def)

lemma ex_wrong: "Matches ex_argon ex_stored ''guess'' = Inr False"
  using Matches_Store [OF ex_argon_ok ex_salt_length ex_Store, of "''guess''"]
  by (simp add: ex_argon_def argonKeyLen_def string_bytes_def)

subsection \<open>Properties\<close>

text \<open>
  C18: A stored credential is a record of exactly the credential it was made from.  Checking any
  attempt against it is no error and answers whether the attempt derives the stored key, under
  the salt drawn and the current costs; so the credential itself always matches, whatever the
  salt.
\<close>

theorem stored_credential_round_trips:
  assumes "argon_ok ar" and "length salt = saltLen" and "Store ar (Some salt) credential = Inr stored"
  shows "parse ar stored =
       Inr (current_costs, salt,
            argon_IDKey ar (string_bytes credential) salt argonTime argonMemory argonThreads argonKeyLen) \<and>
     Matches ar stored credential = Inr True \<and>
     Matches ar stored attempt =
       Inr (argon_IDKey ar (string_bytes attempt) salt argonTime argonMemory argonThreads argonKeyLen =
            argon_IDKey ar (string_bytes credential) salt argonTime argonMemory argonThreads argonKeyLen)"
  using Store_parse [OF assms] Matches_Store [OF assms] by simp

theorem stored_credential_round_trips_witness:
  "Matches ex_argon ex_stored ''secret'' = Inr True"
  using stored_credential_round_trips [OF ex_argon_ok ex_salt_length ex_Store] by blast

lemma Matches_run_current:
  assumes "parse ar stored = Inr (current_costs, salt, key)" and "length salt = saltLen"
    and "length key = unat argonKeyLen"
  shows "\<exists>matched ds. Matches_run ar stored attempt = (Inr matched, ds) \<and>
     map derivation_cost ds = [(length attempt, saltLen, argonTime, argonMemory, argonThreads, argonKeyLen)]"
  using assms
  by (simp add: Matches_run_def Let_def derivation_cost_def current_costs_def string_bytes_def)

text \<open>
  C17: An unknown name is told nothing.  Where no account of a name exists, the answer is that of a
  wrong credential for an account that exists: the same error, and no session opened.  And the work is the same:
  each of the two authentications runs the key derivation exactly once, over a password and a salt of the same
  lengths, at the current costs and to a key of the current length.
\<close>

theorem unknown_names_look_like_wrong_credentials:
  assumes "argon_ok ar" and "length salt = saltLen" and "Store ar (Some salt) credential = Inr stored"
    and "accounts known = Held stored" and "Matches ar stored attempt = Inr False"
    and "accounts unknown = ErrNoSuchAccount"
  shows "Authenticate ar accounts now drawn sessions unknown attempt = Inl ErrAuthentication \<and>
     Authenticate ar accounts now drawn sessions known attempt =
       Authenticate ar accounts now drawn sessions unknown attempt \<and>
     (\<forall>name \<in> {known, unknown}.
        map derivation_cost (snd (Authenticate_run ar accounts now drawn sessions name attempt)) =
          [(length attempt, saltLen, argonTime, argonMemory, argonThreads, argonKeyLen)])"
proof -
  let ?cost = "(length attempt, saltLen, argonTime, argonMemory, argonThreads, argonKeyLen)"
  obtain b ds where d: "Matches_run ar (decoy ar) attempt = (Inr b, ds)" "map derivation_cost ds = [?cost]"
    using Matches_run_current [OF decoy_parse [OF assms(1)], of attempt] by auto
  obtain b' ds' where s: "Matches_run ar stored attempt = (Inr b', ds')" "map derivation_cost ds' = [?cost]"
    using Matches_run_current [OF Store_parse [OF assms(1-3)] assms(2) key_length [OF assms(1)], of attempt] by auto
  moreover have "\<not> b'" using s(1) assms(5) by (simp add: Matches_def)
  ultimately show ?thesis
    using d assms(4,6) by (simp add: Authenticate_def Authenticate_run_def Let_def)
qed

definition ex_accounts :: "string \<Rightarrow> unit accounts_answer" where
  "ex_accounts name = (if name = ''ada'' then Held ex_stored else ErrNoSuchAccount)"

theorem unknown_names_look_like_wrong_credentials_witness:
  "Authenticate ex_argon ex_accounts 0 None NewSessions ''bob'' ''guess'' = Inl ErrAuthentication \<and>
   Authenticate ex_argon ex_accounts 0 None NewSessions ''ada'' ''guess'' = Inl ErrAuthentication \<and>
   length (snd (Authenticate_run ex_argon ex_accounts 0 None NewSessions ''bob'' ''guess'')) = 1"
proof -
  have "ex_accounts ''ada'' = Held ex_stored" "ex_accounts ''bob'' = ErrNoSuchAccount"
    by (simp_all add: ex_accounts_def)
  from unknown_names_look_like_wrong_credentials
      [OF ex_argon_ok ex_salt_length ex_Store this(1) ex_wrong this(2), of 0 None NewSessions]
  show ?thesis by (auto simp: map_eq_Cons_conv)
qed

text \<open>
  A session is opened exactly for the holder of the credential: when the accounts hold a value
  for the name, the credential matches it, the name is not empty and the random source delivers.
  It belongs to the name, and its token buys it until it expires.
\<close>

theorem Authenticate_opens_for_the_holder:
  "(\<exists>session token s'. Authenticate ar accounts now drawn sessions name credential = Inr (session, token, s') \<and>
      ses_owner session = name \<and> ses_opened session = now \<and>
      Lookup later token s' =
        (if later < now + TokenLifetime then Inr session else Inl ErrSessionExpired)) \<longleftrightarrow>
   (\<exists>stored. accounts name = Held stored \<and> Matches ar stored credential = Inr True) \<and>
   name \<noteq> [] \<and> drawn \<noteq> None"
  (is "?L \<longleftrightarrow> ?R")
proof
  assume ?R
  then obtain stored raw where "accounts name = Held stored" "Matches ar stored credential = Inr True"
    "name \<noteq> []" "drawn = Some raw" by blast
  then show ?L
    by (simp add: Authenticate_eq Let_def Open_eq Lookup_def)
next
  assume ?L
  then show ?R
    by (auto simp: Authenticate_eq Let_def Open_eq split: accounts_answer.splits sum.splits if_splits option.splits)
qed

end
