(* ===== verification/Store_Port.thy ===== *)
theory Store_Port
  imports Domain_Model
begin

text \<open>
  The port of \<^verbatim>\<open>internal/store/store.go\<close>: its errors, the checks both implementations share,
  and the contract of the \<^verbatim>\<open>Store\<close> interface.  The contract is the locale \<open>store_port\<close>: what a
  read returns after a write, for members, gains and grants.  What follows from it for a caller
  is proved inside it, so it holds for every implementation.
\<close>

subsection \<open>Errors and checks\<close>

datatype invalid_value =
    NoChannelOffered
  | UndeclaredPermission string
  | GainOutsideRange int
  | ZeroIdentifier string
  | GrantNeedsPrincipal
  | GrantNeedsSubject

datatype store_error = ErrNotFound ID | ErrInvalid invalid_value

definition MinGain :: int where "MinGain = 0"

definition DefaultGain :: int where "DefaultGain = 100"

definition MaxGain :: int where "MaxGain = 200"

fun parse_in :: "permission list \<Rightarrow> string \<Rightarrow> store_error + permission" where
  "parse_in [] name = Inl (ErrInvalid (UndeclaredPermission name))"
| "parse_in (p # rest) name = (if Permission_String p = name then Inr p else parse_in rest name)"

definition ParsePermission :: "string \<Rightarrow> store_error + permission" where
  "ParsePermission name = parse_in all_Permissions name"

definition checkGain :: "int \<Rightarrow> store_error option" where
  "checkGain percent =
     (if percent < MinGain \<or> percent > MaxGain then Some (ErrInvalid (GainOutsideRange percent)) else None)"

definition checkPair :: "string \<Rightarrow> ID \<Rightarrow> ID \<Rightarrow> store_error option" where
  "checkPair what a b =
     (if IsZero a \<or> IsZero b then Some (ErrInvalid (ZeroIdentifier what)) else None)"

definition subjectChannel :: "Subject \<Rightarrow> string" where
  "subjectChannel s =
     (case Subject_Channel s of (channel, aboutChannel) \<Rightarrow>
        if \<not> aboutChannel then [] else ID_String channel)"

lemma ParsePermission_String:
  "ParsePermission (Permission_String p) =
     (if declared p then Inr p else Inl (ErrInvalid (UndeclaredPermission (Permission_String p))))"
proof -
  have walk: "parse_in ps (Permission_String p) =
      (if p \<in> set ps then Inr p else Inl (ErrInvalid (UndeclaredPermission (Permission_String p))))"
    if "set ps \<subseteq> set all_Permissions" for ps
    using that
  proof (induction ps)
    case (Cons q ps)
    then have "declared q" by (simp add: declared_iff)
    then have "Permission_String q = Permission_String p \<longleftrightarrow> q = p"
      using Permission_String_inj_declared by blast
    with Cons show ?case by auto
  qed simp
  show ?thesis
    using walk [of all_Permissions] by (simp add: ParsePermission_def declared_iff)
qed

lemma subjectChannel_eq: "subjectChannel s = ID_String (subject_channel s)"
  by (simp add: subjectChannel_def Subject_Channel_def IsZero_iff)

subsection \<open>Rows by printed identifiers\<close>

lemma ID_String_go_eq: "go_ID i \<Longrightarrow> go_ID j \<Longrightarrow> ID_String i = ID_String j \<longleftrightarrow> i = j"
  using inj_on_eq_iff [OF ID_String_inj_on, of i j] by (simp add: go_ID_def)

subsection \<open>The contract\<close>

locale store_port =
  fixes put_member :: "ID \<Rightarrow> ID \<Rightarrow> 's \<Rightarrow> store_error + 's"
    and members :: "ID \<Rightarrow> 's \<Rightarrow> ID list"
    and set_gain :: "ID \<Rightarrow> ID \<Rightarrow> int \<Rightarrow> 's \<Rightarrow> store_error + 's"
    and gain :: "ID \<Rightarrow> ID \<Rightarrow> 's \<Rightarrow> int"
    and ok :: "'s \<Rightarrow> bool"
  assumes put_member_ok: "ok st \<Longrightarrow> valid_ID sp \<Longrightarrow> valid_ID m \<Longrightarrow>
      \<exists>st'. put_member sp m st = Inr st' \<and> ok st' \<and>
        (\<forall>sp'. valid_ID sp' \<longrightarrow>
           set (members sp' st') = (if sp' = sp then insert m (set (members sp' st)) else set (members sp' st)))"
    and members_listing: "ok st \<Longrightarrow> valid_ID sp \<Longrightarrow>
      distinct (members sp st) \<and> sorted (map ID_String (members sp st)) \<and> (\<forall>m \<in> set (members sp st). valid_ID m)"
    and set_gain_ok: "ok st \<Longrightarrow> valid_ID l \<Longrightarrow> valid_ID s \<Longrightarrow> MinGain \<le> g \<Longrightarrow> g \<le> MaxGain \<Longrightarrow>
      \<exists>st'. set_gain l s g st = Inr st' \<and> ok st' \<and>
        (\<forall>l' s'. valid_ID l' \<longrightarrow> valid_ID s' \<longrightarrow>
           gain l' s' st' = (if l' = l \<and> s' = s then g else gain l' s' st))"
    and set_gain_range: "set_gain l s g st = Inr st' \<Longrightarrow> MinGain \<le> g \<and> g \<le> MaxGain"
begin

text \<open>A sequence of memberships; what it leaves is the set of what it put.\<close>

fun put_all :: "ID \<Rightarrow> ID list \<Rightarrow> 's \<Rightarrow> store_error + 's" where
  "put_all sp [] st = Inr st"
| "put_all sp (m # ms) st = (case put_member sp m st of Inl err \<Rightarrow> Inl err | Inr st' \<Rightarrow> put_all sp ms st')"

lemma put_all_members:
  assumes "ok st" and "valid_ID sp" and "\<forall>m \<in> set ms. valid_ID m"
  shows "\<exists>st'. put_all sp ms st = Inr st' \<and> ok st' \<and>
    set (members sp st') = set ms \<union> set (members sp st)"
  using assms(1,3)
proof (induction ms arbitrary: st)
  case (Cons m ms)
  obtain st1 where st1: "put_member sp m st = Inr st1" "ok st1"
      "set (members sp st1) = insert m (set (members sp st))"
    using put_member_ok [OF Cons.prems(1) assms(2), of m] Cons.prems(2) assms(2) by auto
  with Cons.IH [of st1] Cons.prems(2) show ?case by auto
qed simp

text \<open>The listing is determined by the set: the order is the identifiers' and not the store's.\<close>

lemma members_eq:
  assumes "ok st" and "valid_ID sp"
  shows "members sp st = sorted_list_of_set (set (members sp st))"
proof -
  let ?xs = "members sp st"
  have l: "distinct ?xs" "sorted (map ID_String ?xs)" "\<forall>m \<in> set ?xs. valid_ID m"
    using members_listing [OF assms] by auto
  have "?xs = sort_key ID_String ?xs"
    using l(2) by (simp add: sort_key_id_if_sorted)
  also have "\<dots> = sort ?xs" by (rule sort_ID_String) (use l(3) in blast)
  also have "\<dots> = sorted_list_of_set (set ?xs)" by (rule sort_distinct_is_sorted_list_of_set [OF l(1)])
  finally show ?thesis .
qed

lemma members_after:
  assumes "ok st" and "valid_ID sp" and "\<forall>m \<in> set ms. valid_ID m"
  shows "\<exists>st'. put_all sp ms st = Inr st' \<and>
    members sp st' = sorted_list_of_set (set ms \<union> set (members sp st))"
proof -
  obtain st' where put: "put_all sp ms st = Inr st'" and ok': "ok st'"
      and new: "set (members sp st') = set ms \<union> set (members sp st)"
    using put_all_members [OF assms] by blast
  have "members sp st' = sorted_list_of_set (set (members sp st'))"
    by (rule members_eq [OF ok' assms(2)])
  also have "\<dots> = sorted_list_of_set (set ms \<union> set (members sp st))"
    by (simp only: new)
  finally show ?thesis using put by blast
qed

text \<open>The last setting of a pair wins, and putting it back to the default is the default.\<close>

lemma gain_last:
  assumes "ok st" and "valid_ID l" "valid_ID s"
    and "MinGain \<le> g" "g \<le> MaxGain" "MinGain \<le> g'" "g' \<le> MaxGain"
  shows "\<exists>st1 st2. set_gain l s g st = Inr st1 \<and> set_gain l s g' st1 = Inr st2 \<and> gain l s st2 = g'"
proof -
  obtain st1 where st1: "set_gain l s g st = Inr st1" "ok st1"
    using set_gain_ok [OF assms(1-5)] by blast
  obtain st2 where "set_gain l s g' st1 = Inr st2"
      and g: "\<forall>l' s'. valid_ID l' \<longrightarrow> valid_ID s' \<longrightarrow>
        gain l' s' st2 = (if l' = l \<and> s' = s then g' else gain l' s' st1)"
    using set_gain_ok [OF st1(2) assms(2,3) assms(6,7)] by blast
  moreover have "gain l s st2 = g'" using g assms(2,3) by simp
  ultimately show ?thesis using st1(1) by blast
qed

end

end
