(* ===== verification/Store_Memory.thy ===== *)
theory Store_Memory
  imports Store_Port Space_Machine
begin

text \<open>
  The in-memory store of \<^verbatim>\<open>internal/store/memory.go\<close>.  It keys its tables by printed
  identifiers, and it keeps the very \<^verbatim>\<open>*Channel\<close> it was given: a channel is a pointer into the
  heap of the domain model, and what the store returns for it is whatever the cell holds by then.
  The read-write mutex makes each operation one step.
\<close>

subsection \<open>The store\<close>

record grantKey =
  gk_principal :: string
  gk_space :: string
  gk_channel :: string
  gk_permission :: string

record gainKey =
  nk_listener :: string
  nk_speaker :: string

record Memory =
  mem_channels :: "(string, ptr) gomap"
  mem_members :: "(string, (string, ID) gomap) gomap"
  mem_grants :: "(grantKey, unit) gomap"
  mem_gains :: "(gainKey, int) gomap"

definition NewMemory :: Memory where
  "NewMemory = \<lparr>mem_channels = [], mem_members = [], mem_grants = [], mem_gains = []\<rparr>"

definition Memory_PutChannel :: "heap \<Rightarrow> ptr option \<Rightarrow> Memory \<Rightarrow> store_error + Memory" where
  "Memory_PutChannel h cp m =
     (case cp of
        None \<Rightarrow> Inl (ErrInvalid NoChannelOffered)
      | Some p \<Rightarrow>
          Inr (m\<lparr>mem_channels :=
                 AList.update (ID_String (channel_id (channel_at h p))) p (mem_channels m)\<rparr>))"

definition Memory_Channel :: "ID \<Rightarrow> Memory \<Rightarrow> store_error + ptr" where
  "Memory_Channel i m =
     (case map_of (mem_channels m) (ID_String i) of
        None \<Rightarrow> Inl (ErrNotFound i)
      | Some p \<Rightarrow> Inr p)"

definition Memory_ChannelsInSpace :: "heap \<Rightarrow> ID \<Rightarrow> Memory \<Rightarrow> ptr list" where
  "Memory_ChannelsInSpace h space m =
     sort_key (\<lambda>p. ID_String (channel_id (channel_at h p)))
       (filter (\<lambda>p. channel_space (channel_at h p) = space) (map snd (mem_channels m)))"

definition Memory_PutMember :: "ID \<Rightarrow> ID \<Rightarrow> Memory \<Rightarrow> store_error + Memory" where
  "Memory_PutMember space member m =
     (case checkPair ''a membership'' space member of
        Some err \<Rightarrow> Inl err
      | None \<Rightarrow>
          let heldmap = (case map_of (mem_members m) (ID_String space) of None \<Rightarrow> [] | Some x \<Rightarrow> x)
          in Inr (m\<lparr>mem_members :=
                 AList.update (ID_String space) (AList.update (ID_String member) member heldmap)
                   (mem_members m)\<rparr>))"

text \<open>Reading an absent inner map gives the nil map, whose range is empty.\<close>

definition Memory_Members :: "ID \<Rightarrow> Memory \<Rightarrow> ID list" where
  "Memory_Members space m =
     sort_key ID_String
       (map snd (case map_of (mem_members m) (ID_String space) of None \<Rightarrow> [] | Some x \<Rightarrow> x))"

fun first_undeclared :: "permission list \<Rightarrow> store_error option" where
  "first_undeclared [] = None"
| "first_undeclared (p # rest) =
     (case ParsePermission (Permission_String p) of Inl err \<Rightarrow> Some err | Inr _ \<Rightarrow> first_undeclared rest)"

definition grant_key :: "ID \<Rightarrow> Subject \<Rightarrow> permission \<Rightarrow> grantKey" where
  "grant_key who subject p =
     \<lparr>gk_principal = ID_String who, gk_space = ID_String (subject_space subject),
      gk_channel = subjectChannel subject, gk_permission = Permission_String p\<rparr>"

definition Memory_Grant :: "ID \<Rightarrow> Subject \<Rightarrow> permission list \<Rightarrow> Memory \<Rightarrow> store_error + Memory" where
  "Memory_Grant who subject granted m =
     (if IsZero who then Inl (ErrInvalid GrantNeedsPrincipal)
      else if IsZero (subject_space subject) then Inl (ErrInvalid GrantNeedsSubject)
      else
        (case first_undeclared granted of
           Some err \<Rightarrow> Inl err
         | None \<Rightarrow>
             Inr (m\<lparr>mem_grants :=
                fold (\<lambda>p. AList.update (grant_key who subject p) ()) granted (mem_grants m)\<rparr>)))"

definition Memory_Granted :: "Memory \<Rightarrow> grantor" where
  "Memory_Granted m p s =
     NewPermissionSet
       (filter (\<lambda>perm. gm_has (mem_grants m) (grant_key (principal_id p) s perm)) all_Permissions)"

definition gain_key :: "ID \<Rightarrow> ID \<Rightarrow> gainKey" where
  "gain_key listener speaker = \<lparr>nk_listener = ID_String listener, nk_speaker = ID_String speaker\<rparr>"

definition Memory_SetGain :: "ID \<Rightarrow> ID \<Rightarrow> int \<Rightarrow> Memory \<Rightarrow> store_error + Memory" where
  "Memory_SetGain listener speaker percent m =
     (case checkPair ''a gain setting'' listener speaker of
        Some err \<Rightarrow> Inl err
      | None \<Rightarrow>
          (case checkGain percent of
             Some err \<Rightarrow> Inl err
           | None \<Rightarrow>
               if percent = DefaultGain
               then Inr (m\<lparr>mem_gains := AList.delete (gain_key listener speaker) (mem_gains m)\<rparr>)
               else Inr (m\<lparr>mem_gains :=
                          AList.update (gain_key listener speaker) percent (mem_gains m)\<rparr>)))"

definition Memory_Gain :: "ID \<Rightarrow> ID \<Rightarrow> Memory \<Rightarrow> int" where
  "Memory_Gain listener speaker m =
     (case map_of (mem_gains m) (gain_key listener speaker) of
        None \<Rightarrow> DefaultGain
      | Some percent \<Rightarrow> percent)"

definition Memory_Close :: "Memory \<Rightarrow> store_error option \<times> Memory" where
  "Memory_Close m = (None, m)"

subsection \<open>The invariant\<close>

definition inner :: "ID \<Rightarrow> Memory \<Rightarrow> (string, ID) gomap" where
  "inner space m = (case map_of (mem_members m) (ID_String space) of None \<Rightarrow> [] | Some x \<Rightarrow> x)"

definition inner_ok :: "(string, ID) gomap \<Rightarrow> bool" where
  "inner_ok x \<longleftrightarrow> gm_ok x \<and> (\<forall>k i. map_of x k = Some i \<longrightarrow> k = ID_String i \<and> valid_ID i)"

lemma inner_okD: "inner_ok x \<Longrightarrow> map_of x k = Some i \<Longrightarrow> k = ID_String i \<and> valid_ID i"
  by (simp add: inner_ok_def)

lemma inner_ok_update: "inner_ok x \<Longrightarrow> valid_ID i \<Longrightarrow> inner_ok (AList.update (ID_String i) i x)"
  by (auto simp: inner_ok_def split: if_splits)

definition mem_inv :: "Memory \<Rightarrow> bool" where
  "mem_inv m \<longleftrightarrow>
     gm_ok (mem_channels m) \<and> gm_ok (mem_members m) \<and> gm_ok (mem_grants m) \<and> gm_ok (mem_gains m) \<and>
     (\<forall>sp. inner_ok (inner sp m))"

lemma mem_inv_new: "mem_inv NewMemory"
  by (simp add: mem_inv_def NewMemory_def inner_def inner_ok_def)

lemma inner_update_others [simp]:
  "inner sp (m\<lparr>mem_gains := g\<rparr>) = inner sp m" "inner sp (m\<lparr>mem_grants := gr\<rparr>) = inner sp m"
  "inner sp (m\<lparr>mem_channels := c\<rparr>) = inner sp m"
  by (simp_all add: inner_def)

lemma inner_PutMember:
  assumes "valid_ID sp" "valid_ID i"
  shows "\<exists>m'. Memory_PutMember sp i m = Inr m' \<and>
    m' = m\<lparr>mem_members := mem_members m'\<rparr> \<and> (gm_ok (mem_members m) \<longrightarrow> gm_ok (mem_members m')) \<and>
    (\<forall>sp'. inner sp' m' =
      (if ID_String sp' = ID_String sp then AList.update (ID_String i) i (inner sp m) else inner sp' m))"
proof -
  have "checkPair ''a membership'' sp i = None"
    using assms by (auto simp: checkPair_def valid_ID_not_zero)
  then show ?thesis by (simp add: Memory_PutMember_def Let_def inner_def)
qed

lemma PutMember_inv:
  assumes "mem_inv m" "valid_ID sp" "valid_ID i" "Memory_PutMember sp i m = Inr m'"
  shows "mem_inv m'"
proof -
  note f = inner_PutMember [OF assms(2,3), of m]
  then have m': "m' = m\<lparr>mem_members := mem_members m'\<rparr>" "gm_ok (mem_members m) \<longrightarrow> gm_ok (mem_members m')"
    and inn: "\<And>sp'. inner sp' m' =
      (if ID_String sp' = ID_String sp then AList.update (ID_String i) i (inner sp m) else inner sp' m)"
    using assms(4) by auto
  have same: "mem_channels m' = mem_channels m" "mem_grants m' = mem_grants m" "mem_gains m' = mem_gains m"
    by (subst m'(1), simp)+
  have "inner_ok (inner sp' m')" for sp'
    using inn [of sp'] inner_ok_update [OF _ assms(3)] assms(1) by (simp add: mem_inv_def)
  then show ?thesis
    using assms(1) m'(2) same by (simp add: mem_inv_def)
qed

lemma set_Memory_Members:
  assumes "mem_inv m" "valid_ID sp"
  shows "i \<in> set (Memory_Members sp m) \<longleftrightarrow> map_of (inner sp m) (ID_String i) = Some i"
proof -
  have iok: "inner_ok (inner sp m)" using assms(1) by (simp add: mem_inv_def)
  then have ok: "gm_ok (inner sp m)" by (simp add: inner_ok_def)
  note key = inner_okD [OF iok]
  have "i \<in> set (Memory_Members sp m) \<longleftrightarrow> i \<in> snd ` set (inner sp m)"
    by (simp add: Memory_Members_def inner_def)
  also have "i \<in> snd ` set (inner sp m) \<longleftrightarrow> (\<exists>k. (k, i) \<in> set (inner sp m))" by force
  also have "\<dots> \<longleftrightarrow> (\<exists>k. map_of (inner sp m) k = Some i)" using gm_mem [OF ok] by blast
  also have "\<dots> \<longleftrightarrow> map_of (inner sp m) (ID_String i) = Some i" using key by blast
  finally show ?thesis .
qed

lemma Members_listing:
  assumes "mem_inv m" "valid_ID sp"
  shows "distinct (Memory_Members sp m) \<and> sorted (map ID_String (Memory_Members sp m)) \<and>
    (\<forall>i \<in> set (Memory_Members sp m). valid_ID i)"
proof -
  have iok: "inner_ok (inner sp m)" using assms(1) by (simp add: mem_inv_def)
  then have ok: "gm_ok (inner sp m)" by (simp add: inner_ok_def)
  note key = inner_okD [OF iok]
  have "ID_String (snd kv) = fst kv" if "kv \<in> set (inner sp m)" for kv
    using that key [of "fst kv" "snd kv"] gm_mem [OF ok, of "fst kv" "snd kv"] by simp
  then have keys: "map ID_String (map snd (inner sp m)) = map fst (inner sp m)"
    by simp
  have "distinct (map ID_String (map snd (inner sp m)))"
    unfolding keys by (rule ok)
  then have "distinct (map snd (inner sp m))"
    using distinct_map [of ID_String "map snd (inner sp m)"] by blast
  then have "distinct (Memory_Members sp m)" by (simp add: Memory_Members_def inner_def)
  moreover have "sorted (map ID_String (Memory_Members sp m))" by (simp add: Memory_Members_def)
  moreover have "valid_ID i" if "i \<in> set (Memory_Members sp m)" for i
    using that key set_Memory_Members [OF assms] by blast
  ultimately show ?thesis by blast
qed

lemma gain_key_eq:
  "valid_ID l \<Longrightarrow> valid_ID s \<Longrightarrow> valid_ID l' \<Longrightarrow> valid_ID s' \<Longrightarrow>
     gain_key l s = gain_key l' s' \<longleftrightarrow> l = l' \<and> s = s'"
  by (simp add: gain_key_def ID_String_eq_iff)

lemma SetGain_eq:
  assumes "valid_ID l" "valid_ID s"
  shows "Memory_SetGain l s g m =
    (if g < MinGain \<or> MaxGain < g then Inl (ErrInvalid (GainOutsideRange g))
     else Inr (m\<lparr>mem_gains :=
       (if g = DefaultGain then AList.delete (gain_key l s) (mem_gains m)
        else AList.update (gain_key l s) g (mem_gains m))\<rparr>))"
  using assms by (simp add: Memory_SetGain_def checkPair_def checkGain_def valid_ID_not_zero)

lemma SetGain_Inr: "Memory_SetGain l s g m = Inr m' \<Longrightarrow> MinGain \<le> g \<and> g \<le> MaxGain"
  by (auto simp: Memory_SetGain_def checkGain_def split: option.splits if_splits)

subsection \<open>The port's contract holds\<close>

lemma mem_inv_gains: "mem_inv m \<Longrightarrow> gm_ok g \<Longrightarrow> mem_inv (m\<lparr>mem_gains := g\<rparr>)"
  by (simp add: mem_inv_def inner_def)

lemma PutMember_contract:
  assumes "mem_inv m" "valid_ID sp" "valid_ID i"
  shows "\<exists>m'. Memory_PutMember sp i m = Inr m' \<and> mem_inv m' \<and>
    (\<forall>sp'. valid_ID sp' \<longrightarrow> set (Memory_Members sp' m') =
       (if sp' = sp then insert i (set (Memory_Members sp' m)) else set (Memory_Members sp' m)))"
proof -
  obtain m' where m': "Memory_PutMember sp i m = Inr m'"
    and inn: "\<And>sp'. inner sp' m' =
      (if ID_String sp' = ID_String sp then AList.update (ID_String i) i (inner sp m) else inner sp' m)"
    using inner_PutMember [OF assms(2,3), of m] by blast
  have inv': "mem_inv m'" by (rule PutMember_inv [OF assms m'])
  have "set (Memory_Members sp' m') =
      (if sp' = sp then insert i (set (Memory_Members sp' m)) else set (Memory_Members sp' m))"
    if sp': "valid_ID sp'" for sp'
  proof (rule set_eqI)
    fix j
    have same: "ID_String sp' = ID_String sp \<longleftrightarrow> sp' = sp" by (rule ID_String_eq_iff [OF sp' assms(2)])
    have iok: "inner_ok (inner sp' m)" using assms(1) by (simp add: mem_inv_def)
    have "map_of (inner sp' m') (ID_String j) = Some j \<longleftrightarrow>
        (sp' = sp \<and> ID_String j = ID_String i \<and> j = i) \<or>
        (\<not> (sp' = sp \<and> ID_String j = ID_String i) \<and> map_of (inner sp' m) (ID_String j) = Some j)"
      unfolding inn same by auto
    moreover have "j = i" if "ID_String j = ID_String i" "map_of (inner sp' m) (ID_String j) = Some j"
    proof -
      have "valid_ID j" using inner_okD [OF iok that(2)] by blast
      then show ?thesis using that(1) ID_String_eq_iff [OF _ assms(3)] by blast
    qed
    ultimately have "map_of (inner sp' m') (ID_String j) = Some j \<longleftrightarrow>
        (sp' = sp \<and> j = i) \<or> map_of (inner sp' m) (ID_String j) = Some j" by blast
    then show "j \<in> set (Memory_Members sp' m') \<longleftrightarrow>
        j \<in> (if sp' = sp then insert i (set (Memory_Members sp' m)) else set (Memory_Members sp' m))"
      using set_Memory_Members [OF inv' sp', of j] set_Memory_Members [OF assms(1) sp', of j]
      by (cases "sp' = sp") simp_all
  qed
  then show ?thesis using m' inv' by blast
qed

lemma SetGain_contract:
  assumes "mem_inv m" "valid_ID l" "valid_ID s" "MinGain \<le> g" "g \<le> MaxGain"
  shows "\<exists>m'. Memory_SetGain l s g m = Inr m' \<and> mem_inv m' \<and>
    (\<forall>l' s'. valid_ID l' \<longrightarrow> valid_ID s' \<longrightarrow>
       Memory_Gain l' s' m' = (if l' = l \<and> s' = s then g else Memory_Gain l' s' m))"
proof -
  let ?g = "if g = DefaultGain then AList.delete (gain_key l s) (mem_gains m)
      else AList.update (gain_key l s) g (mem_gains m)"
  have "Memory_SetGain l s g m = Inr (m\<lparr>mem_gains := ?g\<rparr>)"
    using SetGain_eq [OF assms(2,3), of g m] assms(4,5) by simp
  moreover have "mem_inv (m\<lparr>mem_gains := ?g\<rparr>)"
    by (rule mem_inv_gains [OF assms(1)]) (use assms(1) in \<open>simp add: mem_inv_def\<close>)
  moreover have "Memory_Gain l' s' (m\<lparr>mem_gains := ?g\<rparr>) = (if l' = l \<and> s' = s then g else Memory_Gain l' s' m)"
    if "valid_ID l'" "valid_ID s'" for l' s'
    using gain_key_eq [OF that assms(2,3)] by (simp add: Memory_Gain_def)
  ultimately show ?thesis by blast
qed

interpretation memory_store:
  store_port Memory_PutMember Memory_Members Memory_SetGain Memory_Gain mem_inv
proof
  show "\<exists>st'. Memory_PutMember sp m st = Inr st' \<and> mem_inv st' \<and>
      (\<forall>sp'. valid_ID sp' \<longrightarrow> set (Memory_Members sp' st') =
         (if sp' = sp then insert m (set (Memory_Members sp' st)) else set (Memory_Members sp' st)))"
    if "mem_inv st" "valid_ID sp" "valid_ID m" for sp m st
    by (rule PutMember_contract [OF that])
  show "distinct (Memory_Members sp st) \<and> sorted (map ID_String (Memory_Members sp st)) \<and>
      (\<forall>m \<in> set (Memory_Members sp st). valid_ID m)"
    if "mem_inv st" "valid_ID sp" for sp st
    by (rule Members_listing [OF that])
  show "\<exists>st'. Memory_SetGain l s g st = Inr st' \<and> mem_inv st' \<and>
      (\<forall>l' s'. valid_ID l' \<longrightarrow> valid_ID s' \<longrightarrow>
         Memory_Gain l' s' st' = (if l' = l \<and> s' = s then g else Memory_Gain l' s' st))"
    if "mem_inv st" "valid_ID l" "valid_ID s" "MinGain \<le> g" "g \<le> MaxGain" for l s g st
    by (rule SetGain_contract [OF that])
  show "MinGain \<le> g \<and> g \<le> MaxGain" if "Memory_SetGain l s g st = Inr st'" for l s g st st'
    by (rule SetGain_Inr [OF that])
qed

subsection \<open>Grants\<close>

definition grant_state :: "ID \<Rightarrow> Subject \<Rightarrow> permission list \<Rightarrow> Memory \<Rightarrow> Memory" where
  "grant_state i sub ps m = (case Memory_Grant i sub ps m of Inl _ \<Rightarrow> m | Inr m' \<Rightarrow> m')"

definition grantable :: "ID \<Rightarrow> Subject \<Rightarrow> permission list \<Rightarrow> bool" where
  "grantable i sub ps \<longleftrightarrow> \<not> IsZero i \<and> \<not> IsZero (subject_space sub) \<and> (\<forall>p \<in> set ps. declared p)"

definition same_row :: "ID \<Rightarrow> Subject \<Rightarrow> Principal \<Rightarrow> Subject \<Rightarrow> bool" where
  "same_row i sub p s \<longleftrightarrow>
     ID_String i = ID_String (principal_id p) \<and>
     ID_String (subject_space sub) = ID_String (subject_space s) \<and>
     ID_String (subject_channel sub) = ID_String (subject_channel s)"

lemma first_undeclared_None: "first_undeclared ps = None \<longleftrightarrow> (\<forall>p \<in> set ps. declared p)"
  by (induction ps) (auto simp: ParsePermission_String)

lemma Grant_ok_iff: "is_ok (Memory_Grant i sub ps m) \<longleftrightarrow> grantable i sub ps"
  using first_undeclared_None [of ps]
  by (auto simp: Memory_Grant_def grantable_def split: option.split)

lemma gm_has_fold_grants:
  "gm_has (fold (\<lambda>p. AList.update (f p) ()) ps m) k \<longleftrightarrow> gm_has m k \<or> k \<in> f ` set ps"
proof (induction ps arbitrary: m)
  case (Cons p ps)
  show ?case using Cons.IH [of "AList.update (f p) () m"] by auto
qed simp

lemma grant_state_eq:
  "grant_state i sub ps m =
     (if grantable i sub ps
      then m\<lparr>mem_grants := fold (\<lambda>p. AList.update (grant_key i sub p) ()) ps (mem_grants m)\<rparr> else m)"
  using first_undeclared_None [of ps]
  by (auto simp: grant_state_def Memory_Grant_def grantable_def split: option.split)

lemma grant_key_eq:
  "declared p \<Longrightarrow> grant_key i sub p = grant_key (principal_id r) s q \<longleftrightarrow> same_row i sub r s \<and> p = q"
  using Permission_String_inj_declared [of p q]
  by (auto simp: grant_key_def same_row_def subjectChannel_eq)

lemma has_Granted: "has (Memory_Granted m p s) q \<longleftrightarrow> declared q \<and> gm_has (mem_grants m) (grant_key (principal_id p) s q)"
  by (simp only: Memory_Granted_def has_NewPermissionSet set_filter declared_iff mem_Collect_eq) blast

lemma Granted_grant:
  assumes "grantable i sub ps"
  shows "has (Memory_Granted (grant_state i sub ps m) p s) q \<longleftrightarrow>
    has (Memory_Granted m p s) q \<or> (same_row i sub p s \<and> q \<in> set ps)"
proof -
  have "grant_key (principal_id p) s q \<in> grant_key i sub ` set ps \<longleftrightarrow> same_row i sub p s \<and> q \<in> set ps"
  proof -
    have "grant_key (principal_id p) s q = grant_key i sub r \<longleftrightarrow> same_row i sub p s \<and> r = q" if "r \<in> set ps" for r
      using that assms grant_key_eq [of r i sub p s q] by (auto simp: grantable_def)
    then show ?thesis by auto
  qed
  moreover have "declared q" if "q \<in> set ps"
    using that assms by (simp add: grantable_def)
  moreover have "gm_has (mem_grants (grant_state i sub ps m)) k \<longleftrightarrow>
      gm_has (mem_grants m) k \<or> k \<in> grant_key i sub ` set ps" for k
  proof -
    have "mem_grants (grant_state i sub ps m) =
        fold (\<lambda>p. AList.update (grant_key i sub p) ()) ps (mem_grants m)"
      using assms by (simp add: grant_state_eq)
    then show ?thesis using gm_has_fold_grants [of "grant_key i sub" ps "mem_grants m" k] by metis
  qed
  ultimately show ?thesis unfolding has_Granted by blast
qed

interpretation memory_grants: grant_table grant_state Memory_Granted same_row grantable
  by unfold_locales (simp_all add: Granted_grant same_row_def)

fun grants_run :: "(ID \<times> Subject \<times> permission list) list \<Rightarrow> Memory \<Rightarrow> Memory" where
  "grants_run [] m = m"
| "grants_run ((i, sub, ps) # calls) m = grants_run calls (grant_state i sub ps m)"

lemma Granted_run:
  "has (Memory_Granted (grants_run calls m) p s) q \<longleftrightarrow>
     has (Memory_Granted m p s) q \<or>
     (\<exists>(i, sub, ps) \<in> set calls. grantable i sub ps \<and> same_row i sub p s \<and> q \<in> set ps)"
proof (induction calls m rule: grants_run.induct)
  case (2 i sub ps calls m)
  show ?case
  proof (cases "grantable i sub ps")
    case True
    with "2" show ?thesis using Granted_grant [OF True, of m p s q] by auto
  next
    case False
    then have "grant_state i sub ps m = m" by (simp add: grant_state_eq)
    with "2" False show ?thesis by auto
  qed
qed simp

subsection \<open>Channels and gains over a history\<close>

definition cell_id :: "heap \<Rightarrow> ptr \<Rightarrow> ID" where
  "cell_id h p = channel_id (channel_at h p)"

definition put_channel :: "heap \<Rightarrow> ptr \<Rightarrow> Memory \<Rightarrow> Memory" where
  "put_channel h p m = (case Memory_PutChannel h (Some p) m of Inl _ \<Rightarrow> m | Inr m' \<Rightarrow> m')"

definition puts_run :: "heap \<Rightarrow> ptr list \<Rightarrow> Memory \<Rightarrow> Memory" where
  "puts_run h ps m = fold (put_channel h) ps m"

fun last_put :: "heap \<Rightarrow> ID \<Rightarrow> ptr list \<Rightarrow> ptr option" where
  "last_put h i [] = None"
| "last_put h i (p # ps) =
     (case last_put h i ps of Some q \<Rightarrow> Some q | None \<Rightarrow> if cell_id h p = i then Some p else None)"

lemma put_channel_eq:
  "put_channel h p m = m\<lparr>mem_channels := AList.update (ID_String (cell_id h p)) p (mem_channels m)\<rparr>"
  by (simp add: put_channel_def Memory_PutChannel_def cell_id_def)

lemma puts_run_lookup:
  assumes "\<forall>p \<in> set ps. valid_ID (cell_id h p)" and "valid_ID i"
  shows "map_of (mem_channels (puts_run h ps m)) (ID_String i) =
    (case last_put h i ps of Some p \<Rightarrow> Some p | None \<Rightarrow> map_of (mem_channels m) (ID_String i))"
  using assms(1)
proof (induction ps arbitrary: m)
  case (Cons p ps)
  have "ID_String i = ID_String (cell_id h p) \<longleftrightarrow> cell_id h p = i"
    using ID_String_eq_iff [OF assms(2), of "cell_id h p"] Cons.prems by auto
  then show ?case
    using Cons by (auto simp: puts_run_def put_channel_eq split: option.split)
qed (simp add: puts_run_def)

lemma last_put_id: "last_put h i ps = Some p \<Longrightarrow> cell_id h p = i \<and> p \<in> set ps"
  by (induction ps) (auto split: option.splits if_splits)

lemma last_put_some: "p \<in> set ps \<Longrightarrow> \<exists>q. last_put h (cell_id h p) ps = Some q"
  by (induction ps) (auto split: option.splits)

lemma puts_run_keys:
  assumes "gm_ok (mem_channels m)"
  shows "gm_ok (mem_channels (puts_run h ps m)) \<and>
    (\<forall>k p. map_of (mem_channels (puts_run h ps m)) k = Some p \<longrightarrow>
       (\<exists>q \<in> set ps. k = ID_String (cell_id h q)) \<or> map_of (mem_channels m) k = Some p)"
  using assms
proof (induction ps arbitrary: m)
  case (Cons p ps)
  have "gm_ok (mem_channels (put_channel h p m))" using Cons.prems by (simp add: put_channel_eq)
  from Cons.IH [OF this] show ?case
    by (auto simp: puts_run_def put_channel_eq split: if_splits)
qed (simp add: puts_run_def)

lemma set_ChannelsInSpace:
  assumes "\<forall>p \<in> set ps. valid_ID (cell_id h p)"
  shows "p \<in> set (Memory_ChannelsInSpace h sp (puts_run h ps NewMemory)) \<longleftrightarrow>
    last_put h (cell_id h p) ps = Some p \<and> channel_space (channel_at h p) = sp"
proof -
  let ?m = "puts_run h ps NewMemory"
  have new: "gm_ok (mem_channels NewMemory)" by (simp add: NewMemory_def)
  have ok: "gm_ok (mem_channels ?m)"
    and keys: "\<And>k p. map_of (mem_channels ?m) k = Some p \<Longrightarrow> \<exists>q \<in> set ps. k = ID_String (cell_id h q)"
    using puts_run_keys [OF new, of h ps] by (auto simp: NewMemory_def)
  have look: "map_of (mem_channels ?m) (ID_String i) = last_put h i ps" if "valid_ID i" for i
    using puts_run_lookup [OF assms that, of NewMemory] by (simp add: NewMemory_def split: option.split)
  have "(\<exists>k. map_of (mem_channels ?m) k = Some p) \<longleftrightarrow> last_put h (cell_id h p) ps = Some p"
  proof
    assume "\<exists>k. map_of (mem_channels ?m) k = Some p"
    then obtain k where k: "map_of (mem_channels ?m) k = Some p" by blast
    then obtain q where q: "q \<in> set ps" "k = ID_String (cell_id h q)" using keys by blast
    then have "last_put h (cell_id h q) ps = Some p" using k look [of "cell_id h q"] assms by simp
    then show "last_put h (cell_id h p) ps = Some p" using last_put_id by metis
  next
    assume l: "last_put h (cell_id h p) ps = Some p"
    then have "p \<in> set ps" using last_put_id by blast
    then have "map_of (mem_channels ?m) (ID_String (cell_id h p)) = Some p"
      using look [of "cell_id h p"] l assms by simp
    then show "\<exists>k. map_of (mem_channels ?m) k = Some p" by blast
  qed
  moreover have "p \<in> snd ` set (mem_channels ?m) \<longleftrightarrow> (\<exists>k. map_of (mem_channels ?m) k = Some p)"
  proof -
    have "p \<in> snd ` set (mem_channels ?m) \<longleftrightarrow> (\<exists>k. (k, p) \<in> set (mem_channels ?m))" by force
    then show ?thesis using gm_mem [OF ok] by blast
  qed
  ultimately show ?thesis by (auto simp: Memory_ChannelsInSpace_def)
qed

fun gains_run :: "(ID \<times> ID \<times> int) list \<Rightarrow> Memory \<Rightarrow> Memory" where
  "gains_run [] m = m"
| "gains_run ((l, s, g) # calls) m =
     gains_run calls (case Memory_SetGain l s g m of Inl _ \<Rightarrow> m | Inr m' \<Rightarrow> m')"

text \<open>The last setting in range, or the default.\<close>

fun last_gain :: "ID \<Rightarrow> ID \<Rightarrow> int \<Rightarrow> (ID \<times> ID \<times> int) list \<Rightarrow> int" where
  "last_gain l s acc [] = acc"
| "last_gain l s acc ((l', s', g) # calls) =
     last_gain l s (if l' = l \<and> s' = s \<and> MinGain \<le> g \<and> g \<le> MaxGain then g else acc) calls"

definition gain_row :: "int \<Rightarrow> bool" where
  "gain_row g \<longleftrightarrow> g \<noteq> DefaultGain \<and> MinGain \<le> g \<and> g \<le> MaxGain"

definition no_default_rows :: "Memory \<Rightarrow> bool" where
  "no_default_rows m \<longleftrightarrow> (\<forall>k g. map_of (mem_gains m) k = Some g \<longrightarrow> gain_row g)"

lemma no_default_rows_step:
  "no_default_rows m \<Longrightarrow> Memory_SetGain l s g m = Inr m' \<Longrightarrow> no_default_rows m'"
  by (auto simp: Memory_SetGain_def checkGain_def no_default_rows_def split: option.splits if_splits)
    (simp add: gain_row_def)

lemma gains_run_eq:
  assumes "mem_inv m" and "\<forall>(l, s, g) \<in> set calls. valid_ID l \<and> valid_ID s" and "valid_ID l" "valid_ID s"
  shows "Memory_Gain l s (gains_run calls m) = last_gain l s (Memory_Gain l s m) calls"
  using assms(1,2)
proof (induction calls arbitrary: m)
  case (Cons c calls)
  obtain l' s' g where c: "c = (l', s', g)" by (cases c)
  with Cons.prems have v: "valid_ID l'" "valid_ID s'" and rest: "\<forall>(l, s, g) \<in> set calls. valid_ID l \<and> valid_ID s"
    by auto
  show ?case
  proof (cases "MinGain \<le> g \<and> g \<le> MaxGain")
    case True
    obtain m' where m': "Memory_SetGain l' s' g m = Inr m'" "mem_inv m'"
      "\<forall>a b. valid_ID a \<longrightarrow> valid_ID b \<longrightarrow>
         Memory_Gain a b m' = (if a = l' \<and> b = s' then g else Memory_Gain a b m)"
      using SetGain_contract [OF Cons.prems(1) v, of g] True by blast
    then have "Memory_Gain l s m' = (if l' = l \<and> s' = s then g else Memory_Gain l s m)"
      using assms(3,4) by auto
    then show ?thesis using Cons.IH [OF m'(2) rest] m'(1) True by (simp add: c)
  next
    case False
    then have "Memory_SetGain l' s' g m = Inl (ErrInvalid (GainOutsideRange g))"
      using SetGain_eq [OF v, of g m] by auto
    then show ?thesis using Cons.IH [OF Cons.prems(1) rest] False by (auto simp: c)
  qed
qed simp

lemma gains_run_no_default: "no_default_rows m \<Longrightarrow> no_default_rows (gains_run calls m)"
proof (induction calls m rule: gains_run.induct)
  case (2 l s g calls m)
  then show ?case by (auto split: sum.split dest: no_default_rows_step)
qed simp

subsection \<open>Properties\<close>

text \<open>
  C9: A permission question answered from the store follows from the grants made, and from nothing
  else: whatever sequence of grants the store was given, \<open>Allow\<close> says yes exactly when the subject
  has the shape the permission needs, some accepted grant for this principal on this very subject
  named the permission, and, unless it is the permission on the space, some accepted grant on it
  named the permission to see the channel.
\<close>

theorem Allow_follows_the_grants:
  assumes "go_ID (principal_id p)" "go_ID (subject_space s)" "go_ID (subject_channel s)"
    and "\<forall>(i, sub, ps) \<in> set calls. go_ID i \<and> go_ID (subject_space sub) \<and> go_ID (subject_channel sub)"
  shows "Allow (Some (Memory_Granted (grants_run calls NewMemory))) p perm s \<longleftrightarrow>
     (perm = ManageSpace \<longleftrightarrow> IsZero (subject_channel s)) \<and>
     (\<forall>q \<in> {perm} \<union> (if perm = ManageSpace then {} else {SeeChannel}).
        \<exists>ps. (principal_id p, s, ps) \<in> set calls \<and> grantable (principal_id p) s ps \<and> q \<in> set ps)"
proof -
  have row: "same_row i sub p s \<longleftrightarrow> i = principal_id p \<and> sub = s" if "(i, sub, ps) \<in> set calls" for i sub ps
    using assms that ID_String_go_eq by (fastforce simp: same_row_def)
  have "has (Memory_Granted (grants_run calls NewMemory) p s) q \<longleftrightarrow>
      (\<exists>ps. (principal_id p, s, ps) \<in> set calls \<and> grantable (principal_id p) s ps \<and> q \<in> set ps)" for q
  proof -
    have "\<not> has (Memory_Granted NewMemory p s) q" by (simp add: has_Granted NewMemory_def)
    then have "has (Memory_Granted (grants_run calls NewMemory) p s) q \<longleftrightarrow>
        (\<exists>(i, sub, ps) \<in> set calls. grantable i sub ps \<and> same_row i sub p s \<and> q \<in> set ps)"
      using Granted_run by blast
    also have "\<dots> \<longleftrightarrow> (\<exists>ps. (principal_id p, s, ps) \<in> set calls \<and> grantable (principal_id p) s ps \<and> q \<in> set ps)"
      using row by blast
    finally show ?thesis .
  qed
  note granted = this
  have shape: "declared perm \<and> \<not> IsZero (principal_id p) \<and> \<not> IsZero (subject_space s)"
    if "grantable (principal_id p) s ps" "perm \<in> set ps" for ps
    using that by (simp add: grantable_def)
  show ?thesis
    unfolding Allow_iff_may may_def granted using shape by (auto simp del: permission_defs)
qed

definition ex_calls :: "(ID \<times> Subject \<times> permission list) list" where
  "ex_calls = [(alice, ChannelSubject home lobby, [SeeChannel, JoinChannel])]"

theorem Allow_follows_the_grants_witness:
  "Allow (Some (Memory_Granted (grants_run ex_calls NewMemory))) (Person alice) JoinChannel
     (ChannelSubject home lobby)"
proof -
  have ids: "go_ID (principal_id (Person alice))" "go_ID (subject_space (ChannelSubject home lobby))"
      "go_ID (subject_channel (ChannelSubject home lobby))"
      "\<forall>(i, sub, ps) \<in> set ex_calls. go_ID i \<and> go_ID (subject_space sub) \<and> go_ID (subject_channel sub)"
    by (simp_all add: go_ID_def ex_calls_def)
  have "grantable alice (ChannelSubject home lobby) [SeeChannel, JoinChannel]"
    by (simp add: grantable_def declared_range)
  then show ?thesis
    unfolding Allow_follows_the_grants [OF ids] by (auto simp: ex_calls_def)
qed

text \<open>
  The members of a space are exactly those recorded, each once, in identifier order, however
  often and in whatever order they were put.
\<close>

theorem Members_are_those_put:
  assumes "valid_ID sp" and "\<forall>m \<in> set ms. valid_ID m"
  shows "\<exists>st. memory_store.put_all sp ms NewMemory = Inr st \<and>
     Memory_Members sp st = sorted_list_of_set (set ms)"
proof -
  have "Memory_Members sp NewMemory = []"
    by (simp add: Memory_Members_def NewMemory_def)
  then show ?thesis using memory_store.members_after [OF mem_inv_new assms] by simp
qed

theorem Members_are_those_put_witness:
  "\<exists>st. memory_store.put_all home [bob, alice, bob] NewMemory = Inr st \<and>
     Memory_Members home st = sorted_list_of_set {alice, bob}"
  using Members_are_those_put [of home "[bob, alice, bob]"] by (simp add: insert_commute)

text \<open>
  A gain is the last setting in range for the pair, or unity; and no row is ever kept for a
  setting equal to unity or outside the range.
\<close>

theorem Gain_is_the_last_setting:
  assumes "\<forall>(l, s, g) \<in> set calls. valid_ID l \<and> valid_ID s" and "valid_ID l" "valid_ID s"
  shows "Memory_Gain l s (gains_run calls NewMemory) = last_gain l s DefaultGain calls \<and>
     no_default_rows (gains_run calls NewMemory)"
proof -
  have "Memory_Gain l s NewMemory = DefaultGain" by (simp add: Memory_Gain_def NewMemory_def)
  moreover have "no_default_rows NewMemory" by (simp add: no_default_rows_def NewMemory_def)
  ultimately show ?thesis
    using gains_run_eq [OF mem_inv_new assms] gains_run_no_default by simp
qed

theorem Gain_is_the_last_setting_witness:
  "Memory_Gain alice bob (gains_run [(alice, bob, 30), (bob, alice, 70), (alice, bob, 300)] NewMemory) = 30"
  using Gain_is_the_last_setting [of "[(alice, bob, 30), (bob, alice, 70), (alice, bob, 300)]" alice bob]
  by (simp add: MinGain_def MaxGain_def)

text \<open>
  A channel read back is the one put last under its identifier, and the listing of a space is
  exactly those of its channels, each once, in identifier order.
\<close>

theorem Channels_are_those_put_last:
  assumes "\<forall>p \<in> set ps. valid_ID (cell_id h p)" and "valid_ID i" and "m = puts_run h ps NewMemory"
  shows "Memory_Channel i m = (case last_put h i ps of None \<Rightarrow> Inl (ErrNotFound i) | Some p \<Rightarrow> Inr p) \<and>
     (\<forall>p. p \<in> set (Memory_ChannelsInSpace h sp m) \<longleftrightarrow>
        last_put h (cell_id h p) ps = Some p \<and> channel_space (channel_at h p) = sp) \<and>
     sorted (map (\<lambda>p. ID_String (cell_id h p)) (Memory_ChannelsInSpace h sp m))"
proof -
  have "map_of (mem_channels m) (ID_String i) = last_put h i ps"
    using puts_run_lookup [OF assms(1,2), of NewMemory] assms(3)
    by (simp add: NewMemory_def split: option.split)
  then have "Memory_Channel i m = (case last_put h i ps of None \<Rightarrow> Inl (ErrNotFound i) | Some p \<Rightarrow> Inr p)"
    by (simp add: Memory_Channel_def)
  moreover have "sorted (map (\<lambda>p. ID_String (cell_id h p)) (Memory_ChannelsInSpace h sp m))"
    unfolding cell_id_def Memory_ChannelsInSpace_def by (rule sorted_sort_key)
  ultimately show ?thesis using set_ChannelsInSpace [OF assms(1)] assms(3) by simp
qed

theorem Channels_are_those_put_last_witness:
  "Memory_Channel lobby (puts_run ex_heap [0] NewMemory) = Inr 0"
proof -
  have "\<forall>p \<in> set [0]. valid_ID (cell_id ex_heap p)"
    by (simp add: cell_id_def channel_at_def ex_heap_def ex_channel_def)
  moreover have "last_put ex_heap lobby [0] = Some 0"
    by (simp add: cell_id_def channel_at_def ex_heap_def ex_channel_def)
  ultimately show ?thesis
    using Channels_are_those_put_last [of "[0]" ex_heap lobby "puts_run ex_heap [0] NewMemory"] by simp
qed

text \<open>
  The in-memory store hands back the channel itself, not what was written: a change of the
  always-on flag made after the write, and never written, is what the store then reads back.
\<close>

theorem Memory_channel_is_shared:
  assumes "valid_ID (cell_id h p)" and "p < length (channel_cells h)"
    and "SetAlwaysOn g actor (Some p) on h = Inr h'"
  shows "\<exists>q. Memory_Channel (cell_id h p) (put_channel h p m) = Inr q \<and>
     channel_alwaysOn (channel_at h' q) = on"
  using assms by (auto simp: Memory_Channel_def put_channel_eq SetAlwaysOn_def channel_at_def Let_def
      split: if_splits)

theorem Memory_channel_is_shared_witness:
  "\<exists>h' q. SetAlwaysOn (Some (\<lambda>_ _. NewPermissionSet [SeeChannel, ManageChannel])) (Person alice) (Some 0) True
       ex_heap = Inr h' \<and>
     Memory_Channel lobby (put_channel ex_heap 0 NewMemory) = Inr q \<and>
     \<not> channel_alwaysOn (channel_at ex_heap q) \<and> channel_alwaysOn (channel_at h' q)"
proof -
  let ?g = "\<lambda>_ _. NewPermissionSet [SeeChannel, ManageChannel]"
  let ?h = "ex_heap\<lparr>channel_cells := [ex_channel\<lparr>channel_alwaysOn := True\<rparr>]\<rparr>"
  have "Allow (Some ?g) (Person alice) ManageChannel (ChannelSubject home lobby)"
    by (simp add: Allow_iff_may may_def has_NewPermissionSet declared_range)
  then have set: "SetAlwaysOn (Some ?g) (Person alice) (Some 0) True ex_heap = Inr ?h"
    by (simp add: SetAlwaysOn_def channel_at_def ex_heap_def ex_channel_def)
  have cell: "cell_id ex_heap 0 = lobby" "\<not> channel_alwaysOn (channel_at ex_heap 0)"
    by (simp_all add: cell_id_def channel_at_def ex_heap_def ex_channel_def)
  have valid: "valid_ID (cell_id ex_heap 0)" by (simp add: cell(1))
  have len: "0 < length (channel_cells ex_heap)" by (simp add: ex_heap_def)
  from Memory_channel_is_shared [OF valid len set, of NewMemory]
  have "\<exists>q. Memory_Channel lobby (put_channel ex_heap 0 NewMemory) = Inr q \<and> channel_alwaysOn (channel_at ?h q)"
    unfolding cell(1) by simp
  moreover have "Memory_Channel lobby (put_channel ex_heap 0 NewMemory) = Inr 0"
    by (simp add: Memory_Channel_def put_channel_eq cell(1))
  ultimately show ?thesis using set cell(2) by auto
qed

end
