(* ===== verification/Go_Numbers.thy ===== *)
theory Go_Numbers
  imports Go_Scan Clocks "HOL-Library.Log_Nat"
begin

text \<open>
  More of Go's standard library: \<^verbatim>\<open>strings.TrimSpace\<close>, \<^verbatim>\<open>strconv.Atoi\<close> and
  \<^verbatim>\<open>time.ParseDuration\<close>, with the rounding of \<^verbatim>\<open>float64\<close> written out where a fraction of a unit
  is multiplied.
\<close>

subsection \<open>Trimming white space\<close>

text \<open>
  The last rune of a string, as \<^verbatim>\<open>utf8.DecodeLastRuneInString\<close> finds it: it looks back over at most
  four bytes for one that may start a sequence and takes that sequence only if it ends the string.
\<close>

definition rune_start :: "char \<Rightarrow> bool" where
  "rune_start c \<longleftrightarrow> \<not> (128 \<le> byte_val c \<and> byte_val c \<le> 191)"

definition decode_last_rune :: "string \<Rightarrow> nat \<times> nat" where
  "decode_last_rune s =
     (if s = [] then (rune_error, 0)
      else if byte_val (last s) < 128 then (byte_val (last s), 1)
      else
        (let lim = min 4 (length s);
             k = (case find (\<lambda>k. rune_start (s ! (length s - k))) [2..<Suc lim] of
                    None \<Rightarrow> lim | Some k \<Rightarrow> k);
             (r, w) = decode_rune (drop (length s - k) s)
         in if w = k then (r, w) else (rune_error, 1)))"

lemma decode_last_rune_width: "s \<noteq> [] \<Longrightarrow> 1 \<le> snd (decode_last_rune s)"
proof (cases "byte_val (last s) < 128")
  case False
  assume "s \<noteq> []"
  have "1 \<le> k" if "find P [2..<Suc (min 4 (length s))] = Some k" for P k
  proof -
    have "k \<in> set [2..<Suc (min 4 (length s))]"
      using that unfolding find_Some_iff by (metis nth_mem)
    then show ?thesis by auto
  qed
  with False \<open>s \<noteq> []\<close> show ?thesis
    by (auto simp: decode_last_rune_def Let_def Suc_le_eq split: option.splits prod.splits)
qed (simp add: decode_last_rune_def)

function trim_left :: "string \<Rightarrow> string" where
  "trim_left s =
     (if s \<noteq> [] \<and> is_space_rune (fst (decode_rune s)) then trim_left (drop (snd (decode_rune s)) s) else s)"
  by pat_completeness auto
termination
proof (relation "measure length")
  fix s :: string
  assume "s \<noteq> [] \<and> is_space_rune (fst (decode_rune s))"
  then show "(drop (snd (decode_rune s)) s, s) \<in> measure length"
    using decode_rune_width [of "hd s" "tl s"] by (cases s) (simp_all del: decode_rune.simps)
qed simp

function trim_right :: "string \<Rightarrow> string" where
  "trim_right s =
     (if s \<noteq> [] \<and> is_space_rune (fst (decode_last_rune s))
      then trim_right (take (length s - snd (decode_last_rune s)) s) else s)"
  by pat_completeness auto
termination
proof (relation "measure length")
  fix s :: string
  assume "s \<noteq> [] \<and> is_space_rune (fst (decode_last_rune s))"
  then show "(take (length s - snd (decode_last_rune s)) s, s) \<in> measure length"
    using decode_last_rune_width [of s] by (cases s) (auto simp: min_def)
qed simp

declare trim_left.simps [simp del] trim_right.simps [simp del]

definition TrimSpace :: "string \<Rightarrow> string" where
  "TrimSpace s = trim_right (trim_left s)"

text \<open>Text that neither starts nor ends in white space is left alone.\<close>

definition trimmed :: "string \<Rightarrow> bool" where
  "trimmed s \<longleftrightarrow> TrimSpace s = s"

definition plain_char :: "char \<Rightarrow> bool" where
  "plain_char c \<longleftrightarrow> 33 \<le> byte_val c \<and> byte_val c \<le> 126"

lemma plain_not_space: "plain_char c \<Longrightarrow> byte_val c < 128 \<and> \<not> is_space_rune (byte_val c)"
  by (auto simp: plain_char_def is_space_rune_def)

lemma trim_left_plain: "plain_char c \<Longrightarrow> trim_left (c # s) = c # s"
  using plain_not_space [of c]
  by (subst trim_left.simps) (simp add: decode_rune_ascii del: decode_rune.simps)

lemma trim_right_plain: "plain_char c \<Longrightarrow> trim_right (s @ [c]) = s @ [c]"
  using plain_not_space [of c]
  by (subst trim_right.simps) (simp add: decode_last_rune_def)

lemma trim_Nil [simp]: "trim_left [] = []" "trim_right [] = []" "TrimSpace [] = []"
  by (simp_all add: trim_left.simps trim_right.simps TrimSpace_def)

lemma trimmed_plain:
  assumes "s \<noteq> []" and "plain_char (hd s)" and "plain_char (last s)"
  shows "trimmed s"
proof -
  have "trim_left s = s"
    using assms(1,2) trim_left_plain [of "hd s" "tl s"] by simp
  moreover have "trim_right s = s"
    using assms(1,3) trim_right_plain [of "last s" "butlast s"] by simp
  ultimately show ?thesis by (simp add: trimmed_def TrimSpace_def)
qed

subsection \<open>Whole numbers\<close>

definition is_digit :: "char \<Rightarrow> bool" where
  "is_digit c \<longleftrightarrow> 48 \<le> byte_val c \<and> byte_val c \<le> 57"

definition digit_value :: "char \<Rightarrow> nat" where
  "digit_value c = byte_val c - 48"

definition Atoi :: "string \<Rightarrow> int option" where
  "Atoi s =
     (let neg = (s \<noteq> [] \<and> hd s = CHR ''-'');
          ds = (if s \<noteq> [] \<and> (hd s = CHR ''-'' \<or> hd s = CHR ''+'') then tl s else s);
          n = foldl (\<lambda>acc c. 10 * acc + digit_value c) 0 ds;
          i = (if neg then - int n else int n)
      in if ds = [] \<or> \<not> list_all is_digit ds \<or> i < - (2 ^ 63) \<or> 2 ^ 63 \<le> i then None else Some i)"

lemma Atoi_itoa:
  assumes "0 \<le> i" and "i < 2 ^ 63"
  shows "Atoi (itoa i) = Some i"
proof -
  let ?s = "dec_nat (nat i)"
  have s: "itoa i = ?s" using assms(1) by (simp add: itoa_def)
  have digits: "list_all is_digit ?s"
    using dec_nat_digits by (fastforce simp: list_all_iff is_digit_def)
  then have "is_digit (hd ?s)"
    by (cases ?s) auto
  then have "hd ?s \<noteq> CHR ''-''" "hd ?s \<noteq> CHR ''+''"
    by (auto simp: is_digit_def)
  moreover have "foldl (\<lambda>acc c. 10 * acc + digit_value c) 0 ?s = nat i"
    using undec_dec_nat [of "nat i"] by (simp add: undec_def digit_value_def)
  ultimately show ?thesis
    using assms digits by (simp add: Atoi_def s Let_def)
qed

subsection \<open>Rounding to a float64\<close>

text \<open>
  The \<^verbatim>\<open>float64\<close> nearest to a rational that is not negative and neither overflows nor is
  subnormal, ties to even: 53 significant bits.
\<close>

definition exponent_of :: "rat \<Rightarrow> int" where
  "exponent_of q =
     (let (n, d) = quotient_of q; e = bitlen n - bitlen d
      in if q < (if 0 \<le> e then 2 ^ nat e else 1 / 2 ^ nat (- e)) then e - 1 else e)"

definition half_even :: "rat \<Rightarrow> int" where
  "half_even q =
     (let f = \<lfloor>q\<rfloor>; r = q - of_int f
      in if r < 1 / 2 \<or> (r = 1 / 2 \<and> even f) then f else f + 1)"

definition float64 :: "rat \<Rightarrow> rat" where
  "float64 q =
     (if q = 0 then 0
      else
        (let e = exponent_of q - 52; unit = (if 0 \<le> e then 2 ^ nat e else 1 / 2 ^ nat (- e))
         in of_int (half_even (q / unit)) * unit))"

subsection \<open>Durations\<close>

fun leading_int :: "nat \<Rightarrow> string \<Rightarrow> (nat \<times> string) option" where
  "leading_int x [] = Some (x, [])"
| "leading_int x (c # cs) =
     (if \<not> is_digit c then Some (x, c # cs)
      else if x > 2 ^ 63 div 10 then None
      else
        (let y = x * 10 + digit_value c
         in if y > 2 ^ 63 then None else leading_int y cs))"

fun leading_fraction :: "nat \<Rightarrow> rat \<Rightarrow> bool \<Rightarrow> string \<Rightarrow> nat \<times> rat \<times> string" where
  "leading_fraction x scale overflow [] = (x, scale, [])"
| "leading_fraction x scale overflow (c # cs) =
     (if \<not> is_digit c then (x, scale, c # cs)
      else if overflow then leading_fraction x scale overflow cs
      else if x > (2 ^ 63 - 1) div 10 then leading_fraction x scale True cs
      else
        (let y = x * 10 + digit_value c
         in if y > 2 ^ 63 then leading_fraction x scale True cs
            else leading_fraction y (float64 (scale * 10)) False cs))"

definition duration_unit :: "string \<Rightarrow> nat option" where
  "duration_unit u =
     map_of
       [(''ns'', 1), (''us'', 1000), ([CHR 0xC2, CHR 0xB5] @ ''s'', 1000),
        ([CHR 0xCE, CHR 0xBC] @ ''s'', 1000), (''ms'', 1000000), (''s'', 1000000000),
        (''m'', 60000000000), (''h'', 3600000000000)] u"

definition unit_char :: "char \<Rightarrow> bool" where
  "unit_char c \<longleftrightarrow> \<not> (c = CHR ''.'' \<or> is_digit c)"

text \<open>One number with its unit: the nanoseconds and what is left of the text.\<close>

definition duration_part :: "string \<Rightarrow> (nat \<times> string) option" where
  "duration_part s =
     (case s of [] \<Rightarrow> None | c # _ \<Rightarrow>
      if unit_char c then None
      else case leading_int 0 s of None \<Rightarrow> None | Some (v, s1) \<Rightarrow>
      let pre = (length s1 \<noteq> length s);
          (f, scale, s2, post) =
            (case s1 of
               [] \<Rightarrow> (0, 1, s1, False)
             | d # rest \<Rightarrow>
                 if d = CHR ''.''
                 then (let (f, scale, s2) = leading_fraction 0 1 False rest
                       in (f, scale, s2, length s2 \<noteq> length rest))
                 else (0, 1, s1, False));
          u = takeWhile unit_char s2;
          s3 = dropWhile unit_char s2
      in if \<not> pre \<and> \<not> post then None
         else if u = [] then None
         else case duration_unit u of None \<Rightarrow> None | Some unit \<Rightarrow>
         if v > 2 ^ 63 div unit then None
         else if f > 0
         then (let w = v * unit + nat \<lfloor>float64 (float64 (of_nat f) * float64 (of_nat unit / scale))\<rfloor>
               in if w > 2 ^ 63 then None else Some (w, s3))
         else Some (v * unit, s3))"

lemma leading_int_length: "leading_int x s = Some (v, t) \<Longrightarrow> length t \<le> length s"
  by (induction x s rule: leading_int.induct) (auto simp: Let_def split: if_splits)

lemma leading_fraction_length: "leading_fraction x sc ov s = (f, sc', t) \<Longrightarrow> length t \<le> length s"
  by (induction x sc ov s rule: leading_fraction.induct) (auto simp: Let_def split: if_splits)

lemma dropWhile_shorter: "takeWhile P s \<noteq> [] \<Longrightarrow> length (dropWhile P s) < length s"
  by (cases s) (auto simp: length_dropWhile_le less_Suc_eq_le split: if_splits)

lemma duration_part_length:
  assumes "duration_part s = Some (n, t)"
  shows "length t < length s"
proof -
  obtain v s1 where i: "leading_int 0 s = Some (v, s1)"
    using assms by (auto simp: duration_part_def split: list.splits if_splits option.splits)
  define s2 where "s2 = (case s1 of [] \<Rightarrow> s1 | d # rest \<Rightarrow>
    if d = CHR ''.'' then snd (snd (leading_fraction 0 1 False rest)) else s1)"
  have "length s2 \<le> length s1"
    using leading_fraction_length
    by (auto simp: s2_def split: list.splits intro: le_SucI) (metis le_SucI prod.collapse)
  moreover have "takeWhile unit_char s2 \<noteq> [] \<and> t = dropWhile unit_char s2"
    using assms i
    by (auto simp: duration_part_def s2_def Let_def split: list.splits if_splits option.splits prod.splits)
  ultimately show ?thesis
    using leading_int_length [OF i] dropWhile_shorter [of unit_char s2] by simp
qed

function duration_parts :: "nat \<Rightarrow> string \<Rightarrow> nat option" where
  "duration_parts d s =
     (if s = [] then Some d
      else
        (case duration_part s of
           None \<Rightarrow> None
         | Some (v, rest) \<Rightarrow> if d + v > 2 ^ 63 then None else duration_parts (d + v) rest))"
  by pat_completeness auto
termination
  by (relation "measure (\<lambda>(d, s). length s)") (auto dest: duration_part_length)

declare duration_parts.simps [simp del]

definition ParseDuration :: "string \<Rightarrow> duration option" where
  "ParseDuration orig =
     (let neg = (orig \<noteq> [] \<and> hd orig = CHR ''-'');
          s = (if orig \<noteq> [] \<and> (hd orig = CHR ''-'' \<or> hd orig = CHR ''+'') then tl orig else orig)
      in if s = ''0'' then Some 0
         else if s = [] then None
         else case duration_parts 0 s of
                None \<Rightarrow> None
              | Some d \<Rightarrow>
                  if neg then Some (- int d)
                  else if d > 2 ^ 63 - 1 then None else Some (int d))"

lemma ParseDuration_range:
  assumes "ParseDuration s = Some d"
  shows "min_duration \<le> d \<and> d \<le> max_duration"
proof -
  have parts: "n \<le> 2 ^ 63" if "duration_parts m t = Some n" and "m \<le> 2 ^ 63" for m t n
    using that
  proof (induction m t rule: duration_parts.induct)
    case (1 m t)
    show ?case
    proof (cases "t = []")
      case True
      with "1.prems" show ?thesis by (simp add: duration_parts.simps)
    next
      case False
      then obtain v rest where part: "duration_part t = Some (v, rest)"
        using "1.prems"(1) by (subst (asm) duration_parts.simps) (auto split: option.splits)
      have next_part: "m + v \<le> 2 ^ 63" "duration_parts (m + v) rest = Some n"
        using "1.prems"(1) False part
        by (subst (asm) duration_parts.simps, simp split: if_splits)+
      show ?thesis
        by (rule "1.IH" [OF False part refl _ next_part(2,1)]) (use next_part(1) in simp)
    qed
  qed
  have "int n \<le> 2 ^ 63" if "duration_parts 0 t = Some n" for t n
    using parts [OF that] by simp
  with assms show ?thesis
    by (fastforce simp: ParseDuration_def Let_def min_duration_def max_duration_def split: if_splits option.splits)
qed

end
