(* ===== verification/Store_Sqlite.thy ===== *)
theory Store_Sqlite
  imports Store_Memory Go_Numbers
begin

text \<open>
  The operations of the durable store, \<^verbatim>\<open>internal/store/sqlite/sqlite.go\<close>.  The database behind
  \<^verbatim>\<open>database/sql\<close> is a parameter, the record \<open>engine\<close>: what a statement with its
  bound values does to a database of type \<open>'db\<close> and which rows a query answers with.  Nothing is assumed of
  it here; what the store needs from SQLite is stated in \<open>Store_Agreement\<close> and what migration needs
  from its transactions in \<open>Store_Migrations\<close>.

  The statements are the code's own strings.  A column of the schema's \<^verbatim>\<open>STRICT\<close> tables is text or
  an integer and never null, so a value that comes back is one of the two.  A channel read back is a new cell of the
  heap, as the code allocates one.
\<close>

subsection \<open>The driver\<close>

datatype sqlval = SText string | SInt int

text \<open>
  The rows a query yields, the error its iteration ends with (\<^verbatim>\<open>rows.Err\<close>) and the error of
  closing it.
\<close>

record 'e answer =
  ans_rows :: "sqlval list list"
  ans_err :: "'e option"
  ans_close :: "'e option"

record ('db, 'e) engine =
  sql_Open :: "string \<Rightarrow> string \<Rightarrow> 'e + 'db"
  sql_Ping :: "'db \<Rightarrow> 'e option"
  sql_Close :: "'db \<Rightarrow> 'e option \<times> 'db"
  sql_Exec :: "string \<Rightarrow> sqlval list \<Rightarrow> 'db \<Rightarrow> 'e option \<times> 'db"
  sql_Query :: "string \<Rightarrow> sqlval list \<Rightarrow> 'db \<Rightarrow> 'e + 'e answer"
  tx_Begin :: "'db \<Rightarrow> 'e option \<times> 'db"
  tx_Exec :: "string \<Rightarrow> 'db \<Rightarrow> 'e option \<times> 'db"
  tx_Commit :: "'db \<Rightarrow> 'e option \<times> 'db"
  tx_Rollback :: "'db \<Rightarrow> 'db"

datatype row_fault =
    ColumnCount nat nat
  | NotANumber string
  | NotText int
  | NotAnIdentifier id_error
  | NotAChannel orch_error

datatype 'e sqlite_error =
    Refused store_error
  | BadRow row_fault
  | Driver 'e

text \<open>What \<^verbatim>\<open>errors.Is(err, store.ErrInvalid)\<close> and \<^verbatim>\<open>store.ErrNotFound\<close> say of an error.\<close>

fun is_invalid :: "'e sqlite_error \<Rightarrow> bool" where
  "is_invalid (Refused (ErrInvalid _)) = True"
| "is_invalid (BadRow (NotText _)) = True"
| "is_invalid (BadRow (NotAnIdentifier _)) = True"
| "is_invalid (BadRow (NotAChannel _)) = True"
| "is_invalid _ = False"

fun is_not_found :: "'e sqlite_error \<Rightarrow> bool" where
  "is_not_found (Refused (ErrNotFound _)) = True"
| "is_not_found _ = False"

subsection \<open>Scanning\<close>

text \<open>
  \<^verbatim>\<open>Scan\<close> into a \<^verbatim>\<open>*string\<close> takes text as it is and prints an integer; into an \<^verbatim>\<open>*int\<close> it takes an
  integer as it is and reads a text as a decimal number.
\<close>

fun scan_text :: "sqlval \<Rightarrow> row_fault + string" where
  "scan_text (SText s) = Inr s"
| "scan_text (SInt i) = Inr (itoa i)"

fun scan_number :: "sqlval \<Rightarrow> row_fault + int" where
  "scan_number (SInt i) = Inr i"
| "scan_number (SText s) = (case Atoi s of None \<Rightarrow> Inl (NotANumber s) | Some i \<Rightarrow> Inr i)"

fun identifier_Scan :: "sqlval \<Rightarrow> row_fault + ID" where
  "identifier_Scan (SInt i) = Inl (NotText i)"
| "identifier_Scan (SText s) =
     (case ParseID s of Inl err \<Rightarrow> Inl (NotAnIdentifier err) | Inr i \<Rightarrow> Inr i)"

text \<open>\<^verbatim>\<open>Scan\<close> into one and into three destinations: the count is checked first, then left to right.\<close>

fun scan_one :: "(sqlval \<Rightarrow> row_fault + 'a) \<Rightarrow> sqlval list \<Rightarrow> row_fault + 'a" where
  "scan_one f [v] = f v"
| "scan_one f row = Inl (ColumnCount 1 (length row))"

fun scan_three :: "(sqlval \<Rightarrow> row_fault + 'a) \<Rightarrow> (sqlval \<Rightarrow> row_fault + 'b) \<Rightarrow> (sqlval \<Rightarrow> row_fault + 'c) \<Rightarrow>
    sqlval list \<Rightarrow> row_fault + ('a \<times> 'b \<times> 'c)" where
  "scan_three f g h [u, v, w] =
     (case f u of Inl err \<Rightarrow> Inl err | Inr a \<Rightarrow>
      case g v of Inl err \<Rightarrow> Inl err | Inr b \<Rightarrow>
      case h w of Inl err \<Rightarrow> Inl err | Inr c \<Rightarrow> Inr (a, b, c))"
| "scan_three f g h row = Inl (ColumnCount 3 (length row))"

text \<open>
  \<^verbatim>\<open>QueryRowContext(...).Scan(...)\<close>: the first row and nothing after it, \<open>None\<close> for
  \<^verbatim>\<open>sql.ErrNoRows\<close>.
\<close>

definition queryRow ::
    "('db, 'e) engine \<Rightarrow> string \<Rightarrow> sqlval list \<Rightarrow> (sqlval list \<Rightarrow> row_fault + 'a) \<Rightarrow> 'db \<Rightarrow>
     'e sqlite_error + 'a option"
where
  "queryRow eng stmt args scan db =
     (case sql_Query eng stmt args db of
        Inl err \<Rightarrow> Inl (Driver err)
      | Inr a \<Rightarrow>
          (case ans_rows a of
             [] \<Rightarrow> (case ans_err a of Some err \<Rightarrow> Inl (Driver err) | None \<Rightarrow> Inr None)
           | row # _ \<Rightarrow>
               (case scan row of
                  Inl f \<Rightarrow> Inl (BadRow f)
                | Inr x \<Rightarrow> (case ans_close a of Some err \<Rightarrow> Inl (Driver err) | None \<Rightarrow> Inr (Some x)))))"

fun eachRow_loop ::
    "(sqlval list \<Rightarrow> row_fault + 'a) \<Rightarrow> ('a \<Rightarrow> 's \<Rightarrow> row_fault + 's) \<Rightarrow> sqlval list list \<Rightarrow> 's \<Rightarrow>
     row_fault + 's"
where
  "eachRow_loop scan row [] st = Inr st"
| "eachRow_loop scan row (r # rs) st =
     (case scan r of
        Inl f \<Rightarrow> Inl f
      | Inr x \<Rightarrow> (case row x st of Inl f \<Rightarrow> Inl f | Inr st' \<Rightarrow> eachRow_loop scan row rs st'))"

definition eachRow ::
    "('db, 'e) engine \<Rightarrow> string \<Rightarrow> sqlval list \<Rightarrow> (sqlval list \<Rightarrow> row_fault + 'a) \<Rightarrow>
     ('a \<Rightarrow> 's \<Rightarrow> row_fault + 's) \<Rightarrow> 'db \<Rightarrow> 's \<Rightarrow> 'e sqlite_error + 's"
where
  "eachRow eng query args scan row db st =
     (case sql_Query eng query args db of
        Inl err \<Rightarrow> Inl (Driver err)
      | Inr a \<Rightarrow>
          (case eachRow_loop scan row (ans_rows a) st of
             Inl f \<Rightarrow> Inl (BadRow f)
           | Inr st' \<Rightarrow> (case ans_err a of Some err \<Rightarrow> Inl (Driver err) | None \<Rightarrow> Inr st')))"

subsection \<open>The statements\<close>

definition line_break :: "nat \<Rightarrow> string" where
  "line_break tabs = CHR 0x0A # replicate tabs (CHR 0x09)"

definition put_channel_sql :: string where
  "put_channel_sql = ''INSERT INTO channel (id, space, name, always_on) VALUES (?, ?, ?, ?)'' @ line_break 2 @
     ''ON CONFLICT (id) DO UPDATE SET space = excluded.space, name = excluded.name, always_on = excluded.always_on''"

definition channel_sql :: string where
  "channel_sql = ''SELECT space, name, always_on FROM channel WHERE id = ?''"

definition channels_in_space_sql :: string where
  "channels_in_space_sql = ''SELECT id, name, always_on FROM channel WHERE space = ? ORDER BY id''"

definition put_member_sql :: string where
  "put_member_sql = ''INSERT INTO membership (space, member) VALUES (?, ?) ON CONFLICT DO NOTHING''"

definition members_sql :: string where
  "members_sql = ''SELECT member FROM membership WHERE space = ? ORDER BY member''"

definition grant_sql :: string where
  "grant_sql = ''INSERT INTO permission_grant (principal, space, channel, permission) VALUES (?, ?, ?, ?) ON CONFLICT DO NOTHING''"

definition granted_sql :: string where
  "granted_sql = ''SELECT permission FROM permission_grant WHERE principal = ? AND space = ? AND channel = ?''"

definition clear_gain_sql :: string where
  "clear_gain_sql = ''DELETE FROM gain WHERE listener = ? AND speaker = ?''"

definition set_gain_sql :: string where
  "set_gain_sql = ''INSERT INTO gain (listener, speaker, percent) VALUES (?, ?, ?)'' @ line_break 2 @
     ''ON CONFLICT (listener, speaker) DO UPDATE SET percent = excluded.percent''"

definition gain_sql :: string where
  "gain_sql = ''SELECT percent FROM gain WHERE listener = ? AND speaker = ?''"

lemmas statement_defs =
  put_channel_sql_def channel_sql_def channels_in_space_sql_def put_member_sql_def members_sql_def
  grant_sql_def granted_sql_def clear_gain_sql_def set_gain_sql_def gain_sql_def line_break_def

subsection \<open>The operations\<close>

definition boolToInt :: "bool \<Rightarrow> int" where
  "boolToInt b = (if b then 1 else 0)"

text \<open>The package has its own copy of the port's function of this name.\<close>

definition Sqlite_subjectChannel :: "Subject \<Rightarrow> string" where
  "Sqlite_subjectChannel s =
     (case Subject_Channel s of (channel, aboutChannel) \<Rightarrow>
        if \<not> aboutChannel then [] else ID_String channel)"

definition write_result :: "'e option \<times> 'db \<Rightarrow> 'e sqlite_error option \<times> 'db" where
  "write_result r = (map_option Driver (fst r), snd r)"

definition buildChannel :: "ID \<Rightarrow> ID \<Rightarrow> string \<Rightarrow> int \<Rightarrow> heap \<Rightarrow> row_fault + (ptr \<times> heap)" where
  "buildChannel i space name alwaysOn h =
     (case NewChannel i space name (alwaysOn \<noteq> 0) h of
        Inl err \<Rightarrow> Inl (NotAChannel err)
      | Inr r \<Rightarrow> Inr r)"

definition Sqlite_PutChannel ::
    "('db, 'e) engine \<Rightarrow> heap \<Rightarrow> ptr option \<Rightarrow> 'db \<Rightarrow> 'e sqlite_error option \<times> 'db" where
  "Sqlite_PutChannel eng h cp db =
     (case cp of
        None \<Rightarrow> (Some (Refused (ErrInvalid NoChannelOffered)), db)
      | Some p \<Rightarrow>
          let c = channel_at h p in
          write_result (sql_Exec eng put_channel_sql
            [SText (ID_String (channel_id c)), SText (ID_String (channel_space c)), SText (channel_name c),
             SInt (boolToInt (channel_alwaysOn c))] db))"

definition Sqlite_Channel ::
    "('db, 'e) engine \<Rightarrow> ID \<Rightarrow> 'db \<Rightarrow> heap \<Rightarrow> 'e sqlite_error + (ptr \<times> heap)" where
  "Sqlite_Channel eng i db h =
     (case queryRow eng channel_sql [SText (ID_String i)]
             (scan_three identifier_Scan scan_text scan_number) db of
        Inl err \<Rightarrow> Inl err
      | Inr None \<Rightarrow> Inl (Refused (ErrNotFound i))
      | Inr (Some (space, name, alwaysOn)) \<Rightarrow>
          (case buildChannel i space name alwaysOn h of
             Inl f \<Rightarrow> Inl (BadRow f)
           | Inr r \<Rightarrow> Inr r))"

definition found_channel :: "ID \<Rightarrow> ID \<times> string \<times> int \<Rightarrow> ptr list \<times> heap \<Rightarrow> row_fault + (ptr list \<times> heap)" where
  "found_channel space = (\<lambda>(i, name, alwaysOn) (found, h).
     (case buildChannel i space name alwaysOn h of
        Inl f \<Rightarrow> Inl f
      | Inr (c, h') \<Rightarrow> Inr (found @ [c], h')))"

definition Sqlite_ChannelsInSpace ::
    "('db, 'e) engine \<Rightarrow> ID \<Rightarrow> 'db \<Rightarrow> heap \<Rightarrow> 'e sqlite_error + (ptr list \<times> heap)" where
  "Sqlite_ChannelsInSpace eng space db h =
     eachRow eng channels_in_space_sql [SText (ID_String space)]
       (scan_three identifier_Scan scan_text scan_number) (found_channel space) db ([], h)"

definition Sqlite_PutMember :: "('db, 'e) engine \<Rightarrow> ID \<Rightarrow> ID \<Rightarrow> 'db \<Rightarrow> 'e sqlite_error option \<times> 'db" where
  "Sqlite_PutMember eng space member db =
     (if IsZero space \<or> IsZero member
      then (Some (Refused (ErrInvalid (ZeroIdentifier ''a membership''))), db)
      else write_result
        (sql_Exec eng put_member_sql [SText (ID_String space), SText (ID_String member)] db))"

definition Sqlite_Members :: "('db, 'e) engine \<Rightarrow> ID \<Rightarrow> 'db \<Rightarrow> 'e sqlite_error + ID list" where
  "Sqlite_Members eng space db =
     eachRow eng members_sql [SText (ID_String space)] (scan_one identifier_Scan)
       (\<lambda>member found. Inr (found @ [member])) db []"

definition grant_args :: "ID \<Rightarrow> Subject \<Rightarrow> permission \<Rightarrow> sqlval list" where
  "grant_args who subject p =
     [SText (ID_String who), SText (ID_String (subject_space subject)),
      SText (Sqlite_subjectChannel subject), SText (Permission_String p)]"

fun grant_each ::
    "('db, 'e) engine \<Rightarrow> ID \<Rightarrow> Subject \<Rightarrow> permission list \<Rightarrow> 'db \<Rightarrow> 'e sqlite_error option \<times> 'db" where
  "grant_each eng who subject [] db = (None, db)"
| "grant_each eng who subject (p # ps) db =
     (case sql_Exec eng grant_sql (grant_args who subject p) db of
        (Some err, db') \<Rightarrow> (Some (Driver err), db')
      | (None, db') \<Rightarrow> grant_each eng who subject ps db')"

definition Sqlite_Grant ::
    "('db, 'e) engine \<Rightarrow> ID \<Rightarrow> Subject \<Rightarrow> permission list \<Rightarrow> 'db \<Rightarrow> 'e sqlite_error option \<times> 'db" where
  "Sqlite_Grant eng who subject granted db =
     (if IsZero who then (Some (Refused (ErrInvalid GrantNeedsPrincipal)), db)
      else if IsZero (subject_space subject) then (Some (Refused (ErrInvalid GrantNeedsSubject)), db)
      else
        (case first_undeclared granted of
           Some err \<Rightarrow> (Some (Refused err), db)
         | None \<Rightarrow> grant_each eng who subject granted db))"

definition held_name :: "string \<Rightarrow> permission list \<Rightarrow> row_fault + permission list" where
  "held_name name heldlist =
     (case ParsePermission name of Inl _ \<Rightarrow> Inr heldlist | Inr p \<Rightarrow> Inr (heldlist @ [p]))"

definition Sqlite_Granted :: "('db, 'e) engine \<Rightarrow> 'db \<Rightarrow> grantor" where
  "Sqlite_Granted eng db p subject =
     (case eachRow eng granted_sql
             [SText (ID_String (principal_id p)), SText (ID_String (subject_space subject)),
              SText (Sqlite_subjectChannel subject)]
             (scan_one scan_text) held_name db [] of
        Inl _ \<Rightarrow> NewPermissionSet []
      | Inr heldlist \<Rightarrow> NewPermissionSet heldlist)"

definition Sqlite_SetGain ::
    "('db, 'e) engine \<Rightarrow> ID \<Rightarrow> ID \<Rightarrow> int \<Rightarrow> 'db \<Rightarrow> 'e sqlite_error option \<times> 'db" where
  "Sqlite_SetGain eng listener speaker percent db =
     (if IsZero listener \<or> IsZero speaker
      then (Some (Refused (ErrInvalid (ZeroIdentifier ''a gain setting''))), db)
      else if percent < MinGain \<or> percent > MaxGain
      then (Some (Refused (ErrInvalid (GainOutsideRange percent))), db)
      else if percent = DefaultGain
      then write_result
        (sql_Exec eng clear_gain_sql [SText (ID_String listener), SText (ID_String speaker)] db)
      else write_result
        (sql_Exec eng set_gain_sql
           [SText (ID_String listener), SText (ID_String speaker), SInt percent] db))"

definition Sqlite_Gain :: "('db, 'e) engine \<Rightarrow> ID \<Rightarrow> ID \<Rightarrow> 'db \<Rightarrow> 'e sqlite_error + int" where
  "Sqlite_Gain eng listener speaker db =
     (case queryRow eng gain_sql [SText (ID_String listener), SText (ID_String speaker)]
             (scan_one scan_number) db of
        Inl err \<Rightarrow> Inl err
      | Inr None \<Rightarrow> Inr DefaultGain
      | Inr (Some percent) \<Rightarrow> Inr percent)"

definition Sqlite_Close :: "('db, 'e) engine \<Rightarrow> 'db \<Rightarrow> 'e option \<times> 'db" where
  "Sqlite_Close eng db = sql_Close eng db"

subsection \<open>What every read does with a faulty answer\<close>

lemma eachRow_ok_iff:
  "eachRow eng q args scan row db st = Inr st' \<longleftrightarrow>
     (\<exists>a. sql_Query eng q args db = Inr a \<and> ans_err a = None \<and>
          eachRow_loop scan row (ans_rows a) st = Inr st')"
  by (auto simp: eachRow_def split: sum.splits option.splits)

text \<open>A loop that adds one element per row yields one element per row, in order.\<close>

lemma eachRow_loop_collect:
  assumes "eachRow_loop scan (\<lambda>x found. Inr (found @ [x])) rs st = Inr st'"
  shows "\<exists>xs. st' = st @ xs \<and> map scan rs = map Inr xs"
  using assms
proof (induction rs arbitrary: st)
  case (Cons r rs)
  then obtain x where x: "scan r = Inr x" "eachRow_loop scan (\<lambda>x found. Inr (found @ [x])) rs (st @ [x]) = Inr st'"
    by (auto split: sum.splits)
  from Cons.IH [OF x(2)] obtain xs where "st' = (st @ [x]) @ xs" "map scan rs = map Inr xs" by blast
  with x(1) show ?case by (intro exI [of _ "x # xs"]) simp
qed simp

lemma eachRow_loop_collect_ok:
  "map scan rs = map Inr xs \<Longrightarrow>
     eachRow_loop scan (\<lambda>x found. Inr (found @ [x])) rs st = Inr (st @ xs)"
proof (induction rs arbitrary: xs st)
  case (Cons r rs)
  then show ?case by (cases xs) auto
qed simp

lemma identifier_Scan_InrD: "identifier_Scan v = Inr i \<Longrightarrow> valid_ID i \<and> v = SText (ID_String i)"
  using ParseID_SomeD by (cases v) (auto split: sum.splits)

lemma scan_one_InrD: "scan_one f row = Inr x \<Longrightarrow> \<exists>v. row = [v] \<and> f v = Inr x"
  by (cases "(f, row)" rule: scan_one.cases) auto

lemma Members_InrD:
  assumes "Sqlite_Members eng space db = Inr ids"
  shows "\<exists>a. sql_Query eng members_sql [SText (ID_String space)] db = Inr a \<and> ans_err a = None \<and>
     ans_rows a = map (\<lambda>i. [SText (ID_String i)]) ids \<and> (\<forall>i \<in> set ids. valid_ID i)"
proof -
  obtain a where a: "sql_Query eng members_sql [SText (ID_String space)] db = Inr a" "ans_err a = None"
      and loop: "eachRow_loop (scan_one identifier_Scan) (\<lambda>x found. Inr (found @ [x])) (ans_rows a) [] = Inr ids"
    using assms by (auto simp: Sqlite_Members_def eachRow_ok_iff)
  from eachRow_loop_collect [OF loop] have rows: "map (scan_one identifier_Scan) (ans_rows a) = map Inr ids"
    by simp
  have "r = [SText (ID_String i)] \<and> valid_ID i" if "scan_one identifier_Scan r = Inr i" for r i
    using scan_one_InrD [OF that] identifier_Scan_InrD by blast
  then have "rs = map (\<lambda>i. [SText (ID_String i)]) xs \<and> (\<forall>i \<in> set xs. valid_ID i)"
    if "map (scan_one identifier_Scan) rs = map Inr xs" for rs xs
    using that by (induction rs arbitrary: xs) (auto simp: Cons_eq_map_conv)
  from this [OF rows] a show ?thesis by blast
qed

lemma Granted_unreadable:
  assumes "\<nexists>hs. eachRow eng granted_sql
       [SText (ID_String (principal_id p)), SText (ID_String (subject_space s)), SText (Sqlite_subjectChannel s)]
       (scan_one scan_text) held_name db [] = Inr hs"
  shows "\<not> has (Sqlite_Granted eng db p s) q"
  using assms by (auto simp: Sqlite_Granted_def has_NewPermissionSet split: sum.splits)

end
