(* ===== verification/Store_Agreement.thy ===== *)
theory Store_Agreement
  imports Store_Sqlite
begin

text \<open>
  The two stores behind the port of \<^verbatim>\<open>internal/store\<close> promise one behaviour.  What SQLite
  documents of the ten statements of \<^verbatim>\<open>sqlite.go\<close> is the hypothesis \<open>engine_ok\<close>, over tables
  that are maps and sets; the durable store is then shown to answer every sequence of
  calls with the answers of the in-memory store.  A channel is compared by value, a permission set by what it holds.
\<close>

subsection \<open>The tables and what the statements do to them\<close>

record tables =
  tab_channel :: "(string, string \<times> string \<times> int) map"
  tab_membership :: "(string \<times> string) set"
  tab_grant :: "(string \<times> string \<times> string \<times> string) set"
  tab_gain :: "(string \<times> string, int) map"

definition empty_tables :: tables where
  "empty_tables = \<lparr>tab_channel = Map.empty, tab_membership = {}, tab_grant = {}, tab_gain = Map.empty\<rparr>"

definition writes ::
    "('db, 'e) engine \<Rightarrow> ('db \<Rightarrow> tables option) \<Rightarrow> 'db \<Rightarrow> string \<Rightarrow> sqlval list \<Rightarrow> tables \<Rightarrow> bool" where
  "writes eng view db stmt args t' \<longleftrightarrow>
     fst (sql_Exec eng stmt args db) = None \<and> view (snd (sql_Exec eng stmt args db)) = Some t'"

definition answers ::
    "('db, 'e) engine \<Rightarrow> 'db \<Rightarrow> string \<Rightarrow> sqlval list \<Rightarrow> sqlval list list \<Rightarrow> bool" where
  "answers eng db stmt args rows \<longleftrightarrow>
     sql_Query eng stmt args db = Inr \<lparr>ans_rows = rows, ans_err = None, ans_close = None\<rparr>"

text \<open>The ids of the channels of a space, the members of one and the names granted, as sets.\<close>

definition space_ids :: "tables \<Rightarrow> string \<Rightarrow> string set" where
  "space_ids t sp = {i. \<exists>name on. tab_channel t i = Some (sp, name, on)}"

definition space_members :: "tables \<Rightarrow> string \<Rightarrow> string set" where
  "space_members t sp = {m. (sp, m) \<in> tab_membership t}"

definition granted_names :: "tables \<Rightarrow> string \<Rightarrow> string \<Rightarrow> string \<Rightarrow> string set" where
  "granted_names t who sp ch = {n. (who, sp, ch, n) \<in> tab_grant t}"

definition listed_row :: "tables \<Rightarrow> string \<Rightarrow> sqlval list" where
  "listed_row t i = (case tab_channel t i of
     None \<Rightarrow> [] | Some (sp, name, on) \<Rightarrow> [SText i, SText name, SInt on])"

text \<open>
  \<open>view db\<close> is the contents of the tables where the database holds this schema.  An upsert
  replaces the row of its key, an insert that does nothing on a conflict adds the row, \<^verbatim>\<open>ORDER BY\<close> on text
  compares bytes, and a select without one yields its rows in any order.
\<close>

definition engine_ok :: "('db, 'e) engine \<Rightarrow> ('db \<Rightarrow> tables option) \<Rightarrow> bool" where
  "engine_ok eng view \<longleftrightarrow> (\<forall>db t. view db = Some t \<longrightarrow>
     (\<forall>i sp n b. writes eng view db put_channel_sql [SText i, SText sp, SText n, SInt (boolToInt b)]
        (t\<lparr>tab_channel := (tab_channel t)(i \<mapsto> (sp, n, boolToInt b))\<rparr>)) \<and>
     (\<forall>i. answers eng db channel_sql [SText i]
        (case tab_channel t i of None \<Rightarrow> [] | Some (sp, n, on) \<Rightarrow> [[SText sp, SText n, SInt on]])) \<and>
     (\<forall>sp. finite (space_ids t sp) \<longrightarrow> answers eng db channels_in_space_sql [SText sp]
        (map (listed_row t) (sorted_list_of_set (space_ids t sp)))) \<and>
     (\<forall>sp m. writes eng view db put_member_sql [SText sp, SText m]
        (t\<lparr>tab_membership := insert (sp, m) (tab_membership t)\<rparr>)) \<and>
     (\<forall>sp. finite (space_members t sp) \<longrightarrow> answers eng db members_sql [SText sp]
        (map (\<lambda>m. [SText m]) (sorted_list_of_set (space_members t sp)))) \<and>
     (\<forall>a b c d. writes eng view db grant_sql [SText a, SText b, SText c, SText d]
        (t\<lparr>tab_grant := insert (a, b, c, d) (tab_grant t)\<rparr>)) \<and>
     (\<forall>a b c. finite (granted_names t a b c) \<longrightarrow>
        (\<exists>ns. set ns = granted_names t a b c \<and>
              answers eng db granted_sql [SText a, SText b, SText c] (map (\<lambda>n. [SText n]) ns))) \<and>
     (\<forall>l s. writes eng view db clear_gain_sql [SText l, SText s]
        (t\<lparr>tab_gain := (tab_gain t)((l, s) := None)\<rparr>)) \<and>
     (\<forall>l s g. MinGain \<le> g \<longrightarrow> g \<le> MaxGain \<longrightarrow> writes eng view db set_gain_sql [SText l, SText s, SInt g]
        (t\<lparr>tab_gain := (tab_gain t)((l, s) \<mapsto> g)\<rparr>)) \<and>
     (\<forall>l s. answers eng db gain_sql [SText l, SText s]
        (case tab_gain t (l, s) of None \<Rightarrow> [] | Some g \<Rightarrow> [[SInt g]])))"

subsection \<open>Calls and answers\<close>

datatype store_call =
    CallPutChannel "ptr option"
  | CallChannel ID
  | CallChannelsInSpace ID
  | CallPutMember ID ID
  | CallMembers ID
  | CallGrant ID Subject "permission list"
  | CallGranted Principal Subject
  | CallSetGain ID ID int
  | CallGain ID ID

datatype 'e store_answer =
    Wrote "'e option"
  | OneChannel "'e + Channel"
  | ManyChannels "'e + Channel list"
  | ManyMembers "'e + ID list"
  | HeldPermissions "permission list"
  | GainIs "'e + int"

definition held_of :: "PermissionSet \<Rightarrow> permission list" where
  "held_of s = filter (has s) all_Permissions"

fun written :: "Memory \<Rightarrow> store_error + Memory \<Rightarrow> store_error store_answer \<times> Memory" where
  "written m (Inl err) = (Wrote (Some err), m)"
| "written m (Inr m') = (Wrote None, m')"

fun memory_step :: "heap \<Rightarrow> store_call \<Rightarrow> Memory \<Rightarrow> store_error store_answer \<times> Memory" where
  "memory_step h (CallPutChannel cp) m = written m (Memory_PutChannel h cp m)"
| "memory_step h (CallChannel i) m = (OneChannel (map_sum id (channel_at h) (Memory_Channel i m)), m)"
| "memory_step h (CallChannelsInSpace sp) m =
     (ManyChannels (Inr (map (channel_at h) (Memory_ChannelsInSpace h sp m))), m)"
| "memory_step h (CallPutMember sp i) m = written m (Memory_PutMember sp i m)"
| "memory_step h (CallMembers sp) m = (ManyMembers (Inr (Memory_Members sp m)), m)"
| "memory_step h (CallGrant who sub ps) m = written m (Memory_Grant who sub ps m)"
| "memory_step h (CallGranted p sub) m = (HeldPermissions (held_of (Memory_Granted m p sub)), m)"
| "memory_step h (CallSetGain l s g) m = written m (Memory_SetGain l s g m)"
| "memory_step h (CallGain l s) m = (GainIs (Inr (Memory_Gain l s m)), m)"

definition channels_read :: "ptr list \<times> heap \<Rightarrow> Channel list" where
  "channels_read r = map (channel_at (snd r)) (fst r)"

fun sqlite_step ::
    "('db, 'e) engine \<Rightarrow> heap \<Rightarrow> store_call \<Rightarrow> 'db \<Rightarrow> 'e sqlite_error store_answer \<times> 'db" where
  "sqlite_step eng h (CallPutChannel cp) db = apfst Wrote (Sqlite_PutChannel eng h cp db)"
| "sqlite_step eng h (CallChannel i) db =
     (OneChannel (map_sum id (\<lambda>(c, h'). channel_at h' c) (Sqlite_Channel eng i db h)), db)"
| "sqlite_step eng h (CallChannelsInSpace sp) db =
     (ManyChannels (map_sum id channels_read (Sqlite_ChannelsInSpace eng sp db h)), db)"
| "sqlite_step eng h (CallPutMember sp i) db = apfst Wrote (Sqlite_PutMember eng sp i db)"
| "sqlite_step eng h (CallMembers sp) db = (ManyMembers (Sqlite_Members eng sp db), db)"
| "sqlite_step eng h (CallGrant who sub ps) db = apfst Wrote (Sqlite_Grant eng who sub ps db)"
| "sqlite_step eng h (CallGranted p sub) db = (HeldPermissions (held_of (Sqlite_Granted eng db p sub)), db)"
| "sqlite_step eng h (CallSetGain l s g) db = apfst Wrote (Sqlite_SetGain eng l s g db)"
| "sqlite_step eng h (CallGain l s) db = (GainIs (Sqlite_Gain eng l s db), db)"

text \<open>The answers of a sequence of calls, one after another.\<close>

fun run_calls :: "('c \<Rightarrow> 's \<Rightarrow> 'a \<times> 's) \<Rightarrow> 'c list \<Rightarrow> 's \<Rightarrow> 'a list" where
  "run_calls step [] st = []"
| "run_calls step (c # cs) st = fst (step c st) # run_calls step cs (snd (step c st))"

lemma run_calls_simulated:
  assumes "\<And>c st st'. ok c \<Longrightarrow> rel st st' \<Longrightarrow>
      fst (step' c st') = f (fst (step c st)) \<and> rel (snd (step c st)) (snd (step' c st'))"
    and "rel st st'" and "\<forall>c \<in> set cs. ok c"
  shows "run_calls step' cs st' = map f (run_calls step cs st)"
  using assms(2,3) by (induction cs arbitrary: st st') (simp_all add: assms(1))

text \<open>The calls a caller outside the packages can make: every identifier is one of the constructors'.\<close>

definition sound_channel :: "Channel \<Rightarrow> bool" where
  "sound_channel c \<longleftrightarrow> valid_ID (channel_id c) \<and> valid_ID (channel_space c) \<and> channel_name c \<noteq> []"

fun sound_call :: "heap \<Rightarrow> store_call \<Rightarrow> bool" where
  "sound_call h (CallPutChannel cp) =
     (case cp of None \<Rightarrow> True | Some p \<Rightarrow> p < length (channel_cells h) \<and> sound_channel (channel_at h p))"
| "sound_call h (CallChannel i) = go_ID i"
| "sound_call h (CallChannelsInSpace sp) = go_ID sp"
| "sound_call h (CallPutMember sp i) = (go_ID sp \<and> go_ID i)"
| "sound_call h (CallMembers sp) = go_ID sp"
| "sound_call h (CallGrant who sub ps) = True"
| "sound_call h (CallGranted p sub) = True"
| "sound_call h (CallSetGain l s g) = True"
| "sound_call h (CallGain l s) = True"

subsection \<open>The relation of the two stores\<close>

definition row_of :: "Channel \<Rightarrow> string \<times> string \<times> int" where
  "row_of c = (ID_String (channel_space c), channel_name c, boolToInt (channel_alwaysOn c))"

definition same_channels :: "heap \<Rightarrow> Memory \<Rightarrow> tables \<Rightarrow> bool" where
  "same_channels h m t \<longleftrightarrow>
     tab_channel t = map_option (\<lambda>p. row_of (channel_at h p)) \<circ> map_of (mem_channels m) \<and>
     (\<forall>k p. map_of (mem_channels m) k = Some p \<longrightarrow>
        k = ID_String (cell_id h p) \<and> sound_channel (channel_at h p))"

definition same_members :: "Memory \<Rightarrow> tables \<Rightarrow> bool" where
  "same_members m t \<longleftrightarrow>
     tab_membership t =
       {(s, k). \<exists>x. map_of (mem_members m) s = Some x \<and> k \<in> dom (map_of x)}"

definition same_grants :: "Memory \<Rightarrow> tables \<Rightarrow> bool" where
  "same_grants m t \<longleftrightarrow>
     (\<forall>k. gm_has (mem_grants m) k \<longleftrightarrow>
        (gk_principal k, gk_space k, gk_channel k, gk_permission k) \<in> tab_grant t) \<and> finite (tab_grant t)"

definition same_gains :: "Memory \<Rightarrow> tables \<Rightarrow> bool" where
  "same_gains m t \<longleftrightarrow> (\<forall>l s. map_of (mem_gains m) \<lparr>nk_listener = l, nk_speaker = s\<rparr> = tab_gain t (l, s))"

definition same_data :: "('db \<Rightarrow> tables option) \<Rightarrow> heap \<Rightarrow> Memory \<Rightarrow> 'db \<Rightarrow> bool" where
  "same_data view h m db \<longleftrightarrow> mem_inv m \<and>
     (\<exists>t. view db = Some t \<and> same_channels h m t \<and> same_members m t \<and> same_grants m t \<and> same_gains m t)"

subsection \<open>The laws, one by one\<close>

lemmas engine_okD = engine_ok_def [THEN iffD1, THEN spec, THEN spec, THEN mp]

lemmas put_channel_law = engine_okD [THEN conjunct1, rule_format]

lemmas channel_law = engine_okD [THEN conjunct2, THEN conjunct1, rule_format]

lemmas listing_law = engine_okD [THEN conjunct2, THEN conjunct2, THEN conjunct1, rule_format]

lemmas put_member_law = engine_okD [THEN conjunct2, THEN conjunct2, THEN conjunct2, THEN conjunct1, rule_format]

lemmas members_law = engine_okD [
    THEN conjunct2, THEN conjunct2, THEN conjunct2, THEN conjunct2, THEN conjunct1, rule_format]

lemmas grant_law = engine_okD [
    THEN conjunct2, THEN conjunct2, THEN conjunct2, THEN conjunct2, THEN conjunct2, THEN conjunct1, rule_format]

lemmas granted_law = engine_okD [
    THEN conjunct2, THEN conjunct2, THEN conjunct2, THEN conjunct2, THEN conjunct2, THEN conjunct2, THEN conjunct1, rule_format]

lemmas clear_gain_law = engine_okD [
    THEN conjunct2, THEN conjunct2, THEN conjunct2, THEN conjunct2, THEN conjunct2, THEN conjunct2, THEN conjunct2, THEN conjunct1, rule_format]

lemmas set_gain_law = engine_okD [
    THEN conjunct2, THEN conjunct2, THEN conjunct2, THEN conjunct2, THEN conjunct2, THEN conjunct2, THEN conjunct2, THEN conjunct2, THEN conjunct1, rule_format]

lemmas gain_law = engine_okD [
    THEN conjunct2, THEN conjunct2, THEN conjunct2, THEN conjunct2, THEN conjunct2, THEN conjunct2, THEN conjunct2, THEN conjunct2, THEN conjunct2, rule_format]

lemma write_result_law:
  "writes eng view db stmt args t' \<Longrightarrow>
     fst (write_result (sql_Exec eng stmt args db)) = None \<and>
     view (snd (write_result (sql_Exec eng stmt args db))) = Some t'"
  by (simp add: writes_def write_result_def)

lemma queryRow_law:
  "answers eng db stmt args rows \<Longrightarrow> queryRow eng stmt args scan db =
     (case rows of [] \<Rightarrow> Inr None
      | r # _ \<Rightarrow> (case scan r of Inl f \<Rightarrow> Inl (BadRow f) | Inr x \<Rightarrow> Inr (Some x)))"
  by (simp add: answers_def queryRow_def split: list.split sum.split)

lemma eachRow_law:
  "answers eng db stmt args rows \<Longrightarrow> eachRow eng stmt args scan row db st =
     (case eachRow_loop scan row rows st of Inl f \<Rightarrow> Inl (BadRow f) | Inr st' \<Rightarrow> Inr st')"
  by (simp add: answers_def eachRow_def split: sum.split)

lemma subjectChannel_same: "Sqlite_subjectChannel s = subjectChannel s"
  by (simp add: Sqlite_subjectChannel_def subjectChannel_def)

lemma checkPair_eq: "checkPair what a b = (if IsZero a \<or> IsZero b then Some (ErrInvalid (ZeroIdentifier what)) else None)"
  by (simp add: checkPair_def)

subsection \<open>Each operation keeps the relation and answers alike\<close>

lemma same_data_channels:
  assumes "mem_inv m" "same_channels h m t" "sound_channel (channel_at h p)"
  shows "mem_inv (put_channel h p m) \<and>
    same_channels h (put_channel h p m)
      (t\<lparr>tab_channel := (tab_channel t)(ID_String (cell_id h p) \<mapsto> row_of (channel_at h p))\<rparr>)"
  using assms
  by (auto simp: same_channels_def put_channel_eq mem_inv_def inner_def cell_id_def split: if_splits)

definition agree ::
    "('db \<Rightarrow> tables option) \<Rightarrow> heap \<Rightarrow> store_error store_answer \<times> Memory \<Rightarrow>
     'e sqlite_error store_answer \<times> 'db \<Rightarrow> bool" where
  "agree view h r r' \<longleftrightarrow>
     fst r' = map_store_answer Refused (fst r) \<and> same_data view h (snd r) (snd r')"

lemma agree_read:
  "same_data view h m db \<Longrightarrow> a' = map_store_answer Refused a \<Longrightarrow> agree view h (a, m) (a', db)"
  by (simp add: agree_def)

lemma agree_write:
  assumes "writes eng view db stmt args t'" "mem_inv m'" "same_channels h m' t'" "same_members m' t'"
    "same_grants m' t'" "same_gains m' t'"
  shows "agree view h (Wrote None, m') (apfst Wrote (write_result (sql_Exec eng stmt args db)))"
  using assms write_result_law [OF assms(1)] by (auto simp: agree_def same_data_def)

lemma PutChannel_agrees:
  assumes "engine_ok eng view" and "same_data view h m db" and "sound_call h (CallPutChannel cp)"
  shows "agree view h (memory_step h (CallPutChannel cp) m) (sqlite_step eng h (CallPutChannel cp) db)"
proof (cases cp)
  case None
  then show ?thesis using assms(2) by (simp add: Memory_PutChannel_def Sqlite_PutChannel_def agree_def)
next
  case (Some p)
  obtain t where t: "mem_inv m" "view db = Some t" "same_channels h m t" "same_members m t"
      "same_grants m t" "same_gains m t"
    using assms(2) by (auto simp: same_data_def)
  have mem: "memory_step h (CallPutChannel cp) m = (Wrote None, put_channel h p m)"
    by (simp add: Some Memory_PutChannel_def put_channel_eq cell_id_def)
  let ?t = "t\<lparr>tab_channel := (tab_channel t)(ID_String (cell_id h p) \<mapsto> row_of (channel_at h p))\<rparr>"
  have rest: "same_members (put_channel h p m) ?t" "same_grants (put_channel h p m) ?t"
      "same_gains (put_channel h p m) ?t"
    using t by (simp_all add: same_members_def same_grants_def same_gains_def put_channel_eq)
  have "sound_channel (channel_at h p)" using assms(3) Some by simp
  note ch = same_data_channels [OF t(1,3) this]
  have "writes eng view db put_channel_sql
      [SText (ID_String (channel_id (channel_at h p))), SText (ID_String (channel_space (channel_at h p))),
       SText (channel_name (channel_at h p)), SInt (boolToInt (channel_alwaysOn (channel_at h p)))] ?t"
    using put_channel_law [OF assms(1) t(2)] by (simp add: row_of_def cell_id_def)
  from agree_write [OF this conjunct1 [OF ch] conjunct2 [OF ch] rest]
  show ?thesis by (simp only: mem) (simp add: Some Sqlite_PutChannel_def Let_def)
qed

lemma buildChannel_ok:
  assumes "sound_channel c"
  shows "\<exists>h'. buildChannel (channel_id c) (channel_space c) (channel_name c) (boolToInt (channel_alwaysOn c)) h =
      Inr (length (channel_cells h), h') \<and> channel_cells h' = channel_cells h @ [c]"
  using assms valid_ID_not_zero
  by (auto simp: buildChannel_def NewChannel_def sound_channel_def boolToInt_def Let_def)

lemma Channel_agrees:
  assumes "engine_ok eng view" and "same_data view h m db" and "sound_call h (CallChannel i)"
  shows "agree view h (memory_step h (CallChannel i) m) (sqlite_step eng h (CallChannel i) db)"
proof -
  obtain t where t: "view db = Some t" "same_channels h m t"
    using assms(2) by (auto simp: same_data_def)
  note q = queryRow_law [OF channel_law [OF assms(1) t(1), of "ID_String i"]]
  have row: "tab_channel t (ID_String i) = map_option (\<lambda>p. row_of (channel_at h p)) (map_of (mem_channels m) (ID_String i))"
    using t(2) by (simp add: same_channels_def)
  show ?thesis
  proof (cases "map_of (mem_channels m) (ID_String i)")
    case None
    then show ?thesis
      using row assms(2) by (simp add: q Memory_Channel_def Sqlite_Channel_def agree_def)
  next
    case (Some p)
    let ?c = "channel_at h p"
    from Some t(2) have key: "ID_String i = ID_String (cell_id h p)" and snd: "sound_channel ?c"
      unfolding same_channels_def by blast+
    then have id: "channel_id ?c = i"
      using assms(3) ID_String_go_eq by (simp add: sound_channel_def cell_id_def go_ID_def)
    obtain h' where h': "buildChannel (channel_id ?c) (channel_space ?c) (channel_name ?c)
        (boolToInt (channel_alwaysOn ?c)) h = Inr (length (channel_cells h), h')"
      "channel_cells h' = channel_cells h @ [?c]"
      using buildChannel_ok [OF snd, of h] by blast
    have "valid_ID (channel_space ?c)" using snd by (simp add: sound_channel_def)
    then have "Sqlite_Channel eng i db h = Inr (length (channel_cells h), h')"
      using row Some h'(1) id by (simp add: Sqlite_Channel_def q row_of_def ParseID_ID_String)
    moreover have "channel_at h' (length (channel_cells h)) = ?c" using h'(2) by (simp add: channel_at_def)
    ultimately show ?thesis using assms(2) Some by (simp add: Memory_Channel_def agree_def)
  qed
qed

lemma distinct_map_sort_key: "distinct (map f (sort_key g xs)) = distinct (map f xs)"
  unfolding distinct_map by simp

text \<open>Listing a space: the ids in order, and one new cell per row.\<close>

lemma found_loop:
  assumes "\<forall>c \<in> set cs. sound_channel c \<and> channel_space c = sp"
    and "\<forall>p \<in> set ps. p < length (channel_cells h)"
  shows "\<exists>ps' h'. eachRow_loop (scan_three identifier_Scan scan_text scan_number) (found_channel sp)
      (map (\<lambda>c. [SText (ID_String (channel_id c)), SText (channel_name c), SInt (boolToInt (channel_alwaysOn c))]) cs)
      (ps, h) = Inr (ps', h') \<and>
    map (channel_at h') ps' = map (channel_at h) ps @ cs"
  using assms
proof (induction cs arbitrary: ps h)
  case Nil
  then show ?case by simp
next
  case (Cons c cs)
  then have c: "sound_channel c" "channel_space c = sp" by auto
  obtain h1 where h1: "buildChannel (channel_id c) sp (channel_name c) (boolToInt (channel_alwaysOn c)) h =
      Inr (length (channel_cells h), h1)" "channel_cells h1 = channel_cells h @ [c]"
    using buildChannel_ok [OF c(1), of h] c(2) by auto
  let ?ps = "ps @ [length (channel_cells h)]"
  have old: "map (channel_at h1) ps = map (channel_at h) ps"
    using Cons.prems(2) h1(2) by (simp add: channel_at_def nth_append)
  have "\<forall>p \<in> set ?ps. p < length (channel_cells h1)"
    using Cons.prems(2) h1(2) by auto
  with Cons.IH [of ?ps h1] Cons.prems(1) obtain ps' h' where rest:
    "eachRow_loop (scan_three identifier_Scan scan_text scan_number) (found_channel sp)
      (map (\<lambda>c. [SText (ID_String (channel_id c)), SText (channel_name c), SInt (boolToInt (channel_alwaysOn c))]) cs)
      (?ps, h1) = Inr (ps', h')"
    "map (channel_at h') ps' = map (channel_at h1) ?ps @ cs" by auto
  have "valid_ID (channel_id c)" using c(1) by (simp add: sound_channel_def)
  then have "eachRow_loop (scan_three identifier_Scan scan_text scan_number) (found_channel sp)
      (map (\<lambda>c. [SText (ID_String (channel_id c)), SText (channel_name c), SInt (boolToInt (channel_alwaysOn c))]) (c # cs))
      (ps, h) = Inr (ps', h')"
    using h1(1) rest(1) by (simp add: ParseID_ID_String found_channel_def)
  moreover have "map (channel_at h') ps' = map (channel_at h) ps @ c # cs"
    using rest(2) old h1(2) by (simp add: channel_at_def)
  ultimately show ?case by blast
qed

lemma listed_ids:
  assumes inv: "mem_inv m" and ch: "same_channels h m t" and sp: "go_ID sp"
  shows "space_ids t (ID_String sp) =
      set (map (\<lambda>p. ID_String (cell_id h p)) (Memory_ChannelsInSpace h sp m)) \<and>
    sorted_list_of_set (space_ids t (ID_String sp)) =
      map (\<lambda>p. ID_String (cell_id h p)) (Memory_ChannelsInSpace h sp m)"
proof -
  let ?ps = "Memory_ChannelsInSpace h sp m" and ?f = "\<lambda>p. ID_String (cell_id h p)"
  let ?held = "filter (\<lambda>p. channel_space (channel_at h p) = sp) (map snd (mem_channels m))"
  have ok: "gm_ok (mem_channels m)" using inv by (simp add: mem_inv_def)
  have key: "k = ?f p \<and> sound_channel (channel_at h p)" if "(k, p) \<in> set (mem_channels m)" for k p
    using that ch gm_mem [OF ok] by (auto simp: same_channels_def)
  have space: "ID_String (channel_space (channel_at h p)) = ID_String sp \<longleftrightarrow> channel_space (channel_at h p) = sp"
    if "sound_channel (channel_at h p)" for p
    using that sp by (intro ID_String_go_eq) (simp_all add: sound_channel_def go_ID_def)
  have ids: "space_ids t (ID_String sp) = set (map ?f ?ps)"
  proof (rule set_eqI)
    fix i
    have "i \<in> space_ids t (ID_String sp) \<longleftrightarrow>
        (\<exists>p. (i, p) \<in> set (mem_channels m) \<and> ID_String (channel_space (channel_at h p)) = ID_String sp)"
      using ch gm_mem [OF ok] by (auto simp: space_ids_def same_channels_def row_of_def)
    also have "\<dots> \<longleftrightarrow> (\<exists>p. (i, p) \<in> set (mem_channels m) \<and> channel_space (channel_at h p) = sp)"
      using key space by blast
    also have "\<dots> \<longleftrightarrow> i \<in> set (map ?f ?ps)"
      unfolding Memory_ChannelsInSpace_def using key by (force simp: cell_id_def)
    finally show "i \<in> space_ids t (ID_String sp) \<longleftrightarrow> i \<in> set (map ?f ?ps)" .
  qed
  have keys: "map ?f (map snd (mem_channels m)) = map fst (mem_channels m)"
    using key by auto
  have "distinct (map ?f (map snd (mem_channels m)))" unfolding keys by (rule ok)
  then have "distinct (map ?f ?held)" by (rule distinct_map_filter)
  then have "distinct (map ?f (sort_key ?f ?held))"
    unfolding distinct_map_sort_key .
  then have dis: "distinct (map ?f ?ps)" by (simp add: Memory_ChannelsInSpace_def cell_id_def)
  have srt: "sorted (map ?f ?ps)"
    unfolding Memory_ChannelsInSpace_def cell_id_def by (rule sorted_sort_key)
  have "sorted_list_of_set (set (map ?f ?ps)) = map ?f ?ps"
    by (rule sorted_list_of_set.idem_if_sorted_distinct [OF srt dis])
  then show ?thesis using ids by simp
qed

lemma ChannelsInSpace_agrees:
  assumes "engine_ok eng view" and "same_data view h m db" and "sound_call h (CallChannelsInSpace sp)"
  shows "agree view h (memory_step h (CallChannelsInSpace sp) m) (sqlite_step eng h (CallChannelsInSpace sp) db)"
proof -
  obtain t where t: "mem_inv m" "view db = Some t" "same_channels h m t"
    using assms(2) by (auto simp: same_data_def)
  have sp: "go_ID sp" using assms(3) by simp
  let ?ps = "Memory_ChannelsInSpace h sp m"
  let ?cs = "map (channel_at h) ?ps"
  note ids = listed_ids [OF t(1,3) sp]
  have held: "map_of (mem_channels m) (ID_String (cell_id h p)) = Some p \<and> sound_channel (channel_at h p) \<and>
      channel_space (channel_at h p) = sp" if p: "p \<in> set ?ps" for p
  proof -
    have ok: "gm_ok (mem_channels m)" using t(1) by (simp add: mem_inv_def)
    obtain k where "(k, p) \<in> set (mem_channels m)" and s: "channel_space (channel_at h p) = sp"
      using p by (auto simp: Memory_ChannelsInSpace_def)
    then have "map_of (mem_channels m) k = Some p" using gm_mem [OF ok] by blast
    with s t(3) show ?thesis unfolding same_channels_def by blast
  qed
  have "map (listed_row t) (sorted_list_of_set (space_ids t (ID_String sp))) =
      map (\<lambda>c. [SText (ID_String (channel_id c)), SText (channel_name c), SInt (boolToInt (channel_alwaysOn c))]) ?cs"
    unfolding conjunct2 [OF ids] using held t(3)
    by (simp add: listed_row_def same_channels_def row_of_def) (simp add: cell_id_def)
  moreover have "finite (space_ids t (ID_String sp))" using ids by simp
  ultimately have ans: "answers eng db channels_in_space_sql [SText (ID_String sp)]
      (map (\<lambda>c. [SText (ID_String (channel_id c)), SText (channel_name c), SInt (boolToInt (channel_alwaysOn c))]) ?cs)"
    using listing_law [OF assms(1) t(2)] by metis
  have "\<forall>c \<in> set ?cs. sound_channel c \<and> channel_space c = sp" using held by auto
  from found_loop [OF this, of "[]" h] obtain ps' h' where
    loop: "eachRow_loop (scan_three identifier_Scan scan_text scan_number) (found_channel sp)
      (map (\<lambda>c. [SText (ID_String (channel_id c)), SText (channel_name c), SInt (boolToInt (channel_alwaysOn c))]) ?cs)
      ([], h) = Inr (ps', h')" and cs: "map (channel_at h') ps' = ?cs" by auto
  have "Sqlite_ChannelsInSpace eng sp db h = Inr (ps', h')"
    unfolding Sqlite_ChannelsInSpace_def eachRow_law [OF ans] loop by simp
  with cs have "Sqlite_ChannelsInSpace eng sp db h = Inr (ps', h')" "map (channel_at h') ps' = ?cs" by blast+
  then show ?thesis
    using assms(2) by (simp add: agree_def channels_read_def)
qed

lemma PutMember_agrees:
  assumes "engine_ok eng view" and "same_data view h m db" and "sound_call h (CallPutMember sp i)"
  shows "agree view h (memory_step h (CallPutMember sp i) m) (sqlite_step eng h (CallPutMember sp i) db)"
proof (cases "IsZero sp \<or> IsZero i")
  case True
  then show ?thesis
    using assms(2) by (simp add: Memory_PutMember_def checkPair_eq Sqlite_PutMember_def agree_def)
next
  case False
  then have v: "valid_ID sp" "valid_ID i" using assms(3) go_ID_valid by auto
  obtain t where t: "mem_inv m" "view db = Some t" "same_channels h m t" "same_members m t"
      "same_grants m t" "same_gains m t"
    using assms(2) by (auto simp: same_data_def)
  let ?inner = "AList.update (ID_String i) i (inner sp m)"
  let ?m = "m\<lparr>mem_members := AList.update (ID_String sp) ?inner (mem_members m)\<rparr>"
  have mem: "Memory_PutMember sp i m = Inr ?m"
    using False by (simp add: Memory_PutMember_def checkPair_eq inner_def Let_def)
  let ?t = "t\<lparr>tab_membership := insert (ID_String sp, ID_String i) (tab_membership t)\<rparr>"
  have "same_members ?m ?t"
    using t(4) by (auto simp: same_members_def inner_def split: if_splits option.splits)
  moreover have "same_channels h ?m ?t" "same_grants ?m ?t" "same_gains ?m ?t"
    using t by (simp_all add: same_channels_def same_grants_def same_gains_def)
  ultimately show ?thesis
    using agree_write [OF put_member_law [OF assms(1) t(2)] PutMember_inv [OF t(1) v mem]] mem False
    by (simp add: Sqlite_PutMember_def)
qed

lemma listed_members:
  assumes "mem_inv m" and "same_members m t"
  shows "finite (space_members t (ID_String sp)) \<and>
    sorted_list_of_set (space_members t (ID_String sp)) = map ID_String (Memory_Members sp m) \<and>
    (\<forall>i \<in> set (Memory_Members sp m). valid_ID i)"
proof -
  have iok: "inner_ok (inner sp m)" using assms(1) by (simp add: mem_inv_def)
  then have ok: "gm_ok (inner sp m)" by (simp add: inner_ok_def)
  have key: "k = ID_String i \<and> valid_ID i" if "(k, i) \<in> set (inner sp m)" for k i
    using inner_okD [OF iok, of k i] gm_mem [OF ok, of k i] that by blast
  have keys: "map ID_String (map snd (inner sp m)) = map fst (inner sp m)"
    using key by auto
  have mem: "Memory_Members sp m = sort_key ID_String (map snd (inner sp m))"
    by (simp add: Memory_Members_def inner_def)
  have "distinct (map ID_String (map snd (inner sp m)))" unfolding keys by (rule ok)
  then have dis: "distinct (map ID_String (Memory_Members sp m))"
    unfolding mem distinct_map_sort_key .
  have srt: "sorted (map ID_String (Memory_Members sp m))" unfolding mem by (rule sorted_sort_key)
  have "space_members t (ID_String sp) = dom (map_of (inner sp m))"
    using assms(2) by (auto simp: space_members_def same_members_def inner_def split: option.splits)
  also have "\<dots> = set (map ID_String (map snd (inner sp m)))"
    unfolding keys by (rule gm_dom)
  also have "\<dots> = set (map ID_String (Memory_Members sp m))" unfolding mem by (simp add: image_image)
  finally have sets: "space_members t (ID_String sp) = set (map ID_String (Memory_Members sp m))" .
  have "sorted_list_of_set (set (map ID_String (Memory_Members sp m))) = map ID_String (Memory_Members sp m)"
    by (rule sorted_list_of_set.idem_if_sorted_distinct [OF srt dis])
  moreover have "valid_ID i" if "i \<in> set (Memory_Members sp m)" for i
    using that key unfolding mem by auto
  ultimately show ?thesis using sets by simp
qed

lemma Members_agrees:
  assumes "engine_ok eng view" and "same_data view h m db"
  shows "agree view h (memory_step h (CallMembers sp) m) (sqlite_step eng h (CallMembers sp) db)"
proof -
  obtain t where t: "mem_inv m" "view db = Some t" "same_members m t"
    using assms(2) by (auto simp: same_data_def)
  note l = listed_members [OF t(1,3), of sp]
  have ans: "answers eng db members_sql [SText (ID_String sp)]
      (map (\<lambda>k. [SText k]) (map ID_String (Memory_Members sp m)))"
    using members_law [OF assms(1) t(2) conjunct1 [OF l]] l by simp
  have "map (scan_one identifier_Scan) (map (\<lambda>k. [SText k]) (map ID_String (Memory_Members sp m))) =
      map Inr (Memory_Members sp m)"
    using l ParseID_ID_String by simp
  from eachRow_loop_collect_ok [OF this, of "[]"]
  have "Sqlite_Members eng sp db = Inr (Memory_Members sp m)"
    unfolding Sqlite_Members_def eachRow_law [OF ans] by simp
  then show ?thesis using assms(2) by (simp add: agree_def)
qed

subsection \<open>Grants and gains agree\<close>

lemma grant_each_law:
  assumes "engine_ok eng view" and "view db = Some t"
  shows "\<exists>db'. grant_each eng who sub ps db = (None, db') \<and>
    view db' = Some (t\<lparr>tab_grant := tab_grant t \<union>
      (\<lambda>p. (ID_String who, ID_String (subject_space sub), subjectChannel sub, Permission_String p)) ` set ps\<rparr>)"
  using assms(2)
proof (induction ps arbitrary: db t)
  case (Cons p ps)
  let ?row = "\<lambda>p. (ID_String who, ID_String (subject_space sub), subjectChannel sub, Permission_String p)"
  have "writes eng view db grant_sql (grant_args who sub p) (t\<lparr>tab_grant := insert (?row p) (tab_grant t)\<rparr>)"
    unfolding grant_args_def subjectChannel_same by (rule grant_law [OF assms(1) Cons.prems])
  then obtain db1 where db1: "sql_Exec eng grant_sql (grant_args who sub p) db = (None, db1)"
      "view db1 = Some (t\<lparr>tab_grant := insert (?row p) (tab_grant t)\<rparr>)"
    unfolding writes_def by (metis prod.collapse)
  from Cons.IH [OF db1(2)] db1(1) show ?case by auto
qed simp

lemma Grant_agrees:
  assumes "engine_ok eng view" and "same_data view h m db"
  shows "agree view h (memory_step h (CallGrant who sub ps) m) (sqlite_step eng h (CallGrant who sub ps) db)"
proof (cases "grantable who sub ps")
  case False
  then show ?thesis
    using assms(2) first_undeclared_None [of ps]
    by (auto simp: Memory_Grant_def Sqlite_Grant_def grantable_def agree_def split: option.split)
next
  case True
  obtain t where t: "mem_inv m" "view db = Some t" "same_channels h m t" "same_members m t"
      "same_grants m t" "same_gains m t"
    using assms(2) by (auto simp: same_data_def)
  let ?row = "\<lambda>p. (ID_String who, ID_String (subject_space sub), subjectChannel sub, Permission_String p)"
  let ?t = "t\<lparr>tab_grant := tab_grant t \<union> ?row ` set ps\<rparr>"
  let ?g = "fold (\<lambda>p. AList.update (grant_key who sub p) ()) ps (mem_grants m)"
  let ?m = "m\<lparr>mem_grants := ?g\<rparr>"
  have none: "first_undeclared ps = None"
    using True first_undeclared_None [of ps] by (simp add: grantable_def)
  obtain db' where db': "grant_each eng who sub ps db = (None, db')" "view db' = Some ?t"
    using grant_each_law [OF assms(1) t(2), of who sub ps] by blast
  have "gm_ok (fold (\<lambda>p. AList.update (grant_key who sub p) ()) qs g)" if "gm_ok g" for qs g
    using that by (induction qs arbitrary: g) auto
  then have "mem_inv ?m" using t(1) by (simp add: mem_inv_def inner_def)
  moreover have "same_channels h ?m ?t" "same_members ?m ?t" "same_gains ?m ?t"
    using t by (simp_all add: same_channels_def same_members_def same_gains_def)
  moreover have "same_grants ?m ?t"
  proof -
    have "k \<in> grant_key who sub ` set ps \<longleftrightarrow>
        (gk_principal k, gk_space k, gk_channel k, gk_permission k) \<in> ?row ` set ps" for k
      by (cases k) (auto simp: grant_key_def)
    then show ?thesis
      using t(5) gm_has_fold_grants [of "grant_key who sub" ps "mem_grants m"]
      by (simp add: same_grants_def)
  qed
  ultimately have "same_data view h ?m db'" using db'(2) unfolding same_data_def by blast
  then show ?thesis
    using True none db'(1)
    by (simp add: Memory_Grant_def Sqlite_Grant_def grantable_def agree_def)
qed

lemma held_names_loop:
  "eachRow_loop (scan_one scan_text) held_name (map (\<lambda>n. [SText n]) ns) hs =
     Inr (hs @ concat (map (\<lambda>n. case ParsePermission n of Inl _ \<Rightarrow> [] | Inr p \<Rightarrow> [p]) ns))"
  by (induction ns arbitrary: hs) (auto simp: held_name_def split: sum.split)

lemma parse_in_Inr: "parse_in ps n = Inr p \<Longrightarrow> p \<in> set ps \<and> Permission_String p = n"
  by (induction ps) (auto split: if_splits)

lemma ParsePermission_Inr: "ParsePermission n = Inr p \<longleftrightarrow> declared p \<and> n = Permission_String p"
  using parse_in_Inr [of all_Permissions n p] ParsePermission_String [of p]
  by (auto simp: ParsePermission_def declared_iff)

text \<open>What a granted set read from the tables holds.\<close>

lemma Granted_reads:
  assumes "engine_ok eng view" and "view db = Some t" and "finite (tab_grant t)"
  shows "has (Sqlite_Granted eng db p sub) q \<longleftrightarrow>
    declared q \<and> (ID_String (principal_id p), ID_String (subject_space sub), subjectChannel sub,
      Permission_String q) \<in> tab_grant t"
proof -
  let ?a = "ID_String (principal_id p)" and ?b = "ID_String (subject_space sub)" and ?c = "subjectChannel sub"
  have "granted_names t ?a ?b ?c \<subseteq> (\<lambda>(_, _, _, n). n) ` tab_grant t"
    by (force simp: granted_names_def)
  then have "finite (granted_names t ?a ?b ?c)"
    using assms(3) by (auto intro: finite_subset)
  then obtain ns where ns: "set ns = granted_names t ?a ?b ?c"
      and ans: "answers eng db granted_sql [SText ?a, SText ?b, SText ?c] (map (\<lambda>n. [SText n]) ns)"
    using granted_law [OF assms(1,2)] by blast
  have sq: "Sqlite_Granted eng db p sub =
      NewPermissionSet (concat (map (\<lambda>n. case ParsePermission n of Inl _ \<Rightarrow> [] | Inr p \<Rightarrow> [p]) ns))"
    unfolding Sqlite_Granted_def subjectChannel_same eachRow_law [OF ans] held_names_loop by simp
  have "has (Sqlite_Granted eng db p sub) q \<longleftrightarrow>
      declared q \<and> (\<exists>n \<in> set ns. ParsePermission n = Inr q)"
    unfolding sq has_NewPermissionSet by (force split: sum.splits)
  then show ?thesis by (auto simp: ns ParsePermission_Inr granted_names_def)
qed

lemma Granted_agrees:
  assumes "engine_ok eng view" and "same_data view h m db"
  shows "agree view h (memory_step h (CallGranted p sub) m) (sqlite_step eng h (CallGranted p sub) db)"
proof -
  obtain t where t: "view db = Some t" "same_grants m t"
    using assms(2) by (auto simp: same_data_def)
  then have fin: "finite (tab_grant t)" by (simp add: same_grants_def)
  have "has (Sqlite_Granted eng db p sub) q \<longleftrightarrow> has (Memory_Granted m p sub) q" for q
    using t(2) unfolding Granted_reads [OF assms(1) t(1) fin] has_Granted
    by (simp add: same_grants_def grant_key_def)
  then have "has (Sqlite_Granted eng db p sub) = has (Memory_Granted m p sub)" by blast
  then have "held_of (Sqlite_Granted eng db p sub) = held_of (Memory_Granted m p sub)"
    by (simp add: held_of_def)
  then show ?thesis using assms(2) by (simp add: agree_def)
qed

lemma SetGain_agrees:
  assumes "engine_ok eng view" and "same_data view h m db"
  shows "agree view h (memory_step h (CallSetGain l s g) m) (sqlite_step eng h (CallSetGain l s g) db)"
proof (cases "IsZero l \<or> IsZero s \<or> g < MinGain \<or> MaxGain < g")
  case True
  then show ?thesis
    using assms(2)
    by (auto simp: Memory_SetGain_def checkPair_eq checkGain_def Sqlite_SetGain_def agree_def)
next
  case False
  obtain t where t: "mem_inv m" "view db = Some t" "same_channels h m t" "same_members m t"
      "same_grants m t" "same_gains m t"
    using assms(2) by (auto simp: same_data_def)
  let ?g = "if g = DefaultGain then AList.delete (gain_key l s) (mem_gains m)
      else AList.update (gain_key l s) g (mem_gains m)"
  let ?m = "m\<lparr>mem_gains := ?g\<rparr>"
  let ?t = "t\<lparr>tab_gain := (tab_gain t)((ID_String l, ID_String s) := (if g = DefaultGain then None else Some g))\<rparr>"
  have mem: "Memory_SetGain l s g m = Inr ?m"
    using False by (simp add: Memory_SetGain_def checkPair_eq checkGain_def)
  have "mem_inv ?m" by (rule mem_inv_gains [OF t(1)]) (use t(1) in \<open>simp add: mem_inv_def\<close>)
  moreover have "same_gains ?m ?t"
    using t(6) by (auto simp: same_gains_def gain_key_def)
  moreover have "same_channels h ?m ?t" "same_members ?m ?t" "same_grants ?m ?t"
    using t by (simp_all add: same_channels_def same_members_def same_grants_def)
  moreover have "writes eng view db (if g = DefaultGain then clear_gain_sql else set_gain_sql)
      (if g = DefaultGain then [SText (ID_String l), SText (ID_String s)]
       else [SText (ID_String l), SText (ID_String s), SInt g]) ?t"
    using clear_gain_law [OF assms(1) t(2), of "ID_String l" "ID_String s"]
      set_gain_law [OF assms(1) t(2), of g "ID_String l" "ID_String s"] False by auto
  ultimately show ?thesis
    using agree_write mem False by (auto simp: Sqlite_SetGain_def)
qed

lemma Gain_agrees:
  assumes "engine_ok eng view" and "same_data view h m db"
  shows "agree view h (memory_step h (CallGain l s) m) (sqlite_step eng h (CallGain l s) db)"
proof -
  obtain t where t: "view db = Some t" "same_gains m t"
    using assms(2) by (auto simp: same_data_def)
  note q = queryRow_law [OF gain_law [OF assms(1) t(1), of "ID_String l" "ID_String s"]]
  show ?thesis
    using t(2) assms(2)
    by (auto simp: Memory_Gain_def Sqlite_Gain_def q same_gains_def gain_key_def agree_def split: option.split)
qed

lemma store_step_agrees:
  assumes "engine_ok eng view" and "same_data view h m db" and "sound_call h c"
  shows "agree view h (memory_step h c m) (sqlite_step eng h c db)"
  using assms
  by (cases c) (blast intro: PutChannel_agrees Channel_agrees ChannelsInSpace_agrees PutMember_agrees
      Members_agrees Grant_agrees Granted_agrees SetGain_agrees Gain_agrees)+

lemma same_data_empty: "view db = Some empty_tables \<Longrightarrow> same_data view h NewMemory db"
  unfolding same_data_def
  by (simp add: mem_inv_new)
    (simp add: same_channels_def same_members_def same_grants_def same_gains_def empty_tables_def
      NewMemory_def fun_eq_iff)

subsection \<open>An engine over the tables themselves\<close>

definition table_exec :: "string \<Rightarrow> sqlval list \<Rightarrow> tables \<Rightarrow> unit option \<times> tables" where
  "table_exec stmt args t =
     (case args of
        [SText a, SText b, SText c, SInt d] \<Rightarrow>
          if stmt = put_channel_sql then (None, t\<lparr>tab_channel := (tab_channel t)(a \<mapsto> (b, c, d))\<rparr>)
          else (Some (), t)
      | [SText a, SText b, SText c, SText d] \<Rightarrow>
          if stmt = grant_sql then (None, t\<lparr>tab_grant := insert (a, b, c, d) (tab_grant t)\<rparr>)
          else (Some (), t)
      | [SText a, SText b, SInt c] \<Rightarrow>
          if stmt = set_gain_sql then (None, t\<lparr>tab_gain := (tab_gain t)((a, b) \<mapsto> c)\<rparr>)
          else (Some (), t)
      | [SText a, SText b] \<Rightarrow>
          if stmt = put_member_sql then (None, t\<lparr>tab_membership := insert (a, b) (tab_membership t)\<rparr>)
          else if stmt = clear_gain_sql then (None, t\<lparr>tab_gain := (tab_gain t)((a, b) := None)\<rparr>)
          else (Some (), t)
      | _ \<Rightarrow> (Some (), t))"

definition table_rows :: "string \<Rightarrow> sqlval list \<Rightarrow> tables \<Rightarrow> sqlval list list" where
  "table_rows stmt args t =
     (case args of
        [SText a, SText b, SText c] \<Rightarrow> map (\<lambda>n. [SText n]) (sorted_list_of_set (granted_names t a b c))
      | [SText a, SText b] \<Rightarrow> (case tab_gain t (a, b) of None \<Rightarrow> [] | Some g \<Rightarrow> [[SInt g]])
      | [SText a] \<Rightarrow>
          if stmt = channel_sql then
            (case tab_channel t a of None \<Rightarrow> [] | Some (sp, n, on) \<Rightarrow> [[SText sp, SText n, SInt on]])
          else if stmt = channels_in_space_sql then
            map (listed_row t) (sorted_list_of_set (space_ids t a))
          else map (\<lambda>m. [SText m]) (sorted_list_of_set (space_members t a))
      | _ \<Rightarrow> [])"

definition table_engine :: "(tables, unit) engine" where
  "table_engine =
     \<lparr>sql_Open = (\<lambda>_ _. Inr empty_tables), sql_Ping = (\<lambda>_. None), sql_Close = (\<lambda>t. (None, t)),
      sql_Exec = table_exec,
      sql_Query = (\<lambda>stmt args t. Inr \<lparr>ans_rows = table_rows stmt args t, ans_err = None, ans_close = None\<rparr>),
      tx_Begin = (\<lambda>t. (None, t)), tx_Exec = (\<lambda>_ t. (None, t)), tx_Commit = (\<lambda>t. (None, t)),
      tx_Rollback = (\<lambda>t. t)\<rparr>"

lemma table_engine_ok: "engine_ok table_engine Some"
proof -
  have "put_member_sql \<noteq> clear_gain_sql" "channel_sql \<noteq> channels_in_space_sql"
      "channel_sql \<noteq> members_sql" "channels_in_space_sql \<noteq> members_sql"
    by (simp_all add: statement_defs)
  then show ?thesis
    unfolding engine_ok_def
    by (simp add: writes_def answers_def table_engine_def table_exec_def table_rows_def)
      (metis set_sorted_list_of_set)
qed

subsection \<open>Properties\<close>

text \<open>
  C3: The durable store and the in-memory store are one store: starting from empty data, any sequence
  of calls other than \<^verbatim>\<open>Close\<close> gets the same answers from both, errors included, where the database does
  what SQLite documents for the statements the code sends it and no channel changes its always-on flag during the
  sequence: one heap of channels serves the whole of it.  A channel that does change after it was put is answered
  differently until it is put again, because the in-memory store keeps the caller's pointer; and a call after
  \<^verbatim>\<open>Close\<close> is answered by the in-memory store alone.
\<close>

theorem stores_agree:
  assumes "engine_ok eng view" and "view db = Some empty_tables" and "\<forall>c \<in> set calls. sound_call h c"
  shows "run_calls (sqlite_step eng h) calls db =
     map (map_store_answer Refused) (run_calls (memory_step h) calls NewMemory)"
proof (rule run_calls_simulated [where rel = "same_data view h" and ok = "sound_call h", OF _ _ assms(3)])
  show "fst (sqlite_step eng h c st') = map_store_answer Refused (fst (memory_step h c st)) \<and>
      same_data view h (snd (memory_step h c st)) (snd (sqlite_step eng h c st'))"
    if "sound_call h c" "same_data view h st st'" for c st st'
    using store_step_agrees [OF assms(1) that(2,1)] by (simp add: agree_def)
  show "same_data view h NewMemory db" by (rule same_data_empty) (rule assms(2))
qed

definition ex_store_calls :: "store_call list" where
  "ex_store_calls =
     [CallPutMember home bob, CallPutMember home alice, CallMembers home,
      CallGrant alice (SpaceSubject home) [ManageSpace], CallGranted (Person alice) (SpaceSubject home),
      CallSetGain alice bob 30, CallGain alice bob, CallSetGain alice bob 300,
      CallPutChannel (Some 0), CallChannel lobby, CallChannel attic]"

theorem stores_agree_witness:
  "run_calls (sqlite_step table_engine ex_heap) ex_store_calls empty_tables =
     [Wrote None, Wrote None, ManyMembers (Inr [alice, bob]),
      Wrote None, HeldPermissions [ManageSpace],
      Wrote None, GainIs (Inr 30), Wrote (Some (Refused (ErrInvalid (GainOutsideRange 300)))),
      Wrote None, OneChannel (Inr ex_channel), OneChannel (Inl (Refused (ErrNotFound attic)))]"
proof -
  have "\<forall>c \<in> set ex_store_calls. sound_call ex_heap c"
    by (simp add: ex_store_calls_def go_ID_def channel_at_def ex_heap_def ex_channel_def sound_channel_def)
  note run = stores_agree [OF table_engine_ok refl this]
  have "run_calls (memory_step ex_heap) ex_store_calls NewMemory =
     [Wrote None, Wrote None, ManyMembers (Inr [alice, bob]),
      Wrote None, HeldPermissions [ManageSpace],
      Wrote None, GainIs (Inr 30), Wrote (Some (ErrInvalid (GainOutsideRange 300))),
      Wrote None, OneChannel (Inr ex_channel), OneChannel (Inl (ErrNotFound attic))]"
    by code_simp
  with run show ?thesis by simp
qed

text \<open>
  Grants that cannot be read grant nothing: where the query fails, its iteration ends in an
  error or a row has not the one column asked for, every permission question is answered no.
\<close>

theorem unreadable_grants_refuse:
  assumes "args = [SText (ID_String (principal_id p)), SText (ID_String (subject_space s)),
      SText (Sqlite_subjectChannel s)]"
    and "\<nexists>rows closed. sql_Query eng granted_sql args db =
        Inr \<lparr>ans_rows = rows, ans_err = None, ans_close = closed\<rparr> \<and> list_all (\<lambda>r. length r = 1) rows"
  shows "\<not> Allow (Some (Sqlite_Granted eng db)) p perm s"
proof -
  have len: "eachRow_loop (scan_one f) row rs st = Inr st' \<Longrightarrow> list_all (\<lambda>r. length r = 1) rs"
    for f :: "sqlval \<Rightarrow> row_fault + string" and row :: "string \<Rightarrow> permission list \<Rightarrow> row_fault + permission list"
      and rs st st'
    by (induction rs arbitrary: st) (auto split: sum.splits dest: scan_one_InrD)
  have "eachRow eng granted_sql args (scan_one scan_text) held_name db [] \<noteq> Inr hs" for hs
  proof
    assume "eachRow eng granted_sql args (scan_one scan_text) held_name db [] = Inr hs"
    then obtain a where a: "sql_Query eng granted_sql args db = Inr a" "ans_err a = None"
        "eachRow_loop (scan_one scan_text) held_name (ans_rows a) [] = Inr hs"
      by (auto simp: eachRow_ok_iff)
    then have "sql_Query eng granted_sql args db =
        Inr \<lparr>ans_rows = ans_rows a, ans_err = None, ans_close = ans_close a\<rparr>"
      by (cases a) simp
    then show False using assms(2) len [OF a(3)] by blast
  qed
  then have "\<not> has (Sqlite_Granted eng db p s) q" for q
    using Granted_unreadable [of eng p s db q] assms(1) by simp
  then show ?thesis by (simp add: Allow_iff_may may_def)
qed

text \<open>An engine whose reads of grants stop with an error after a row.\<close>

definition torn_engine :: "(tables, unit) engine" where
  "torn_engine = table_engine\<lparr>sql_Query := (\<lambda>_ _ _.
     Inr \<lparr>ans_rows = [[SText ''manage-space'']], ans_err = Some (), ans_close = None\<rparr>)\<rparr>"

theorem unreadable_grants_refuse_witness:
  "\<not> Allow (Some (Sqlite_Granted torn_engine empty_tables)) (Person alice) ManageSpace (SpaceSubject home)"
  by (rule unreadable_grants_refuse [OF refl]) (simp add: torn_engine_def)

text \<open>
  C28: A listing is whole or an error: members are returned exactly when the query answered, its
  iteration ended without an error and its rows are the returned members, each a valid
  identifier.
\<close>

theorem Sqlite_Members_whole_or_error:
  "Sqlite_Members eng space db = Inr ids \<longleftrightarrow>
     list_all valid_ID ids \<and>
     (\<exists>closed. sql_Query eng members_sql [SText (ID_String space)] db =
        Inr \<lparr>ans_rows = map (\<lambda>i. [SText (ID_String i)]) ids, ans_err = None, ans_close = closed\<rparr>)"
    (is "?l \<longleftrightarrow> ?r")
proof
  assume l: ?l
  from Members_InrD [OF l] obtain a where a: "sql_Query eng members_sql [SText (ID_String space)] db = Inr a" "ans_err a = None"
     "ans_rows a = map (\<lambda>i. [SText (ID_String i)]) ids" "\<forall>i \<in> set ids. valid_ID i"
    by blast
  then show ?r by (cases a) (auto simp: list_all_iff)
next
  assume r: ?r
  then have "map (scan_one identifier_Scan) (map (\<lambda>i. [SText (ID_String i)]) ids) = map Inr ids"
    by (simp add: list_all_iff ParseID_ID_String)
  from eachRow_loop_collect_ok [OF this, of "[]"] r show ?l
    by (auto simp: Sqlite_Members_def eachRow_def)
qed

end
