(* ===== verification/Store_Migrations.thy ===== *)
theory Store_Migrations
  imports Store_Sqlite
begin

text \<open>
  Opening the durable store: the numbered migrations of \<^verbatim>\<open>internal/store/sqlite/migrate.go\<close> and
  \<^verbatim>\<open>Open\<close> of \<^verbatim>\<open>sqlite.go\<close>.  The history is the code's, statement by statement.  A database is
  seen through what is committed in it and what an open transaction has pending;
  \<open>transactions_ok\<close> says what SQLite documents of transactions, and it lets every step
  fail.  Under it the schema and the version stamp agree whatever fails and however often the run is
  repeated.
\<close>

subsection \<open>The history\<close>

record migration =
  m_version :: int
  m_name :: string
  m_statements :: "string list"

definition create_channel :: string where
  "create_channel =
       ''CREATE TABLE channel ('' @
       line_break 4 @ ''id        TEXT    NOT NULL PRIMARY KEY,'' @
       line_break 4 @ ''space     TEXT    NOT NULL,'' @
       line_break 4 @ ''name      TEXT    NOT NULL,'' @
       line_break 4 @ ''always_on INTEGER NOT NULL CHECK (always_on IN (0, 1))'' @
       line_break 3 @ '') STRICT''"

definition index_channel :: string where
  "index_channel =
       ''CREATE INDEX channel_by_space ON channel (space)''"

definition create_membership :: string where
  "create_membership =
       ''CREATE TABLE membership ('' @
       line_break 4 @ ''space  TEXT NOT NULL,'' @
       line_break 4 @ ''member TEXT NOT NULL,'' @
       line_break 4 @ ''PRIMARY KEY (space, member)'' @
       line_break 3 @ '') STRICT''"

definition create_grant :: string where
  "create_grant =
       ''CREATE TABLE permission_grant ('' @
       line_break 4 @ ''principal  TEXT NOT NULL,'' @
       line_break 4 @ ''space      TEXT NOT NULL,'' @
       line_break 4 @ ''channel    TEXT NOT NULL,'' @
       line_break 4 @ ''permission TEXT NOT NULL,'' @
       line_break 4 @ ''PRIMARY KEY (principal, space, channel, permission)'' @
       line_break 3 @ '') STRICT''"

definition create_gain :: string where
  "create_gain =
       ''CREATE TABLE gain ('' @
       line_break 4 @ ''listener TEXT    NOT NULL,'' @
       line_break 4 @ ''speaker  TEXT    NOT NULL,'' @
       line_break 4 @ ''percent  INTEGER NOT NULL CHECK (percent BETWEEN 0 AND 200),'' @
       line_break 4 @ ''PRIMARY KEY (listener, speaker)'' @
       line_break 3 @ '') STRICT''"

definition migrations :: "migration list" where
  "migrations =
     [\<lparr>m_version = 1, m_name = ''the durable half of the domain'',
       m_statements = [create_channel, index_channel, create_membership, create_grant, create_gain]\<rparr>]"

subsection \<open>Running it\<close>

datatype list_fault =
    NoMigrations
  | WrongNumber nat int
  | NoStatements int

datatype 'e apply_error =
    BeginFailed 'e
  | StatementFailed 'e string
  | CommitFailed 'e

datatype 'e migrate_error =
    BadHistory list_fault
  | VersionUnread "'e sqlite_error"
  | VersionMissing
  | NewerSchema int int
  | ApplyingSchema int string "'e apply_error"

fun firstLine :: "string \<Rightarrow> string" where
  "firstLine [] = []"
| "firstLine (c # cs) = (if c = CHR 0x0A then [] else c # firstLine cs)"

definition stamp :: "int \<Rightarrow> string" where
  "stamp version = ''PRAGMA user_version = '' @ itoa version"

definition version_sql :: string where
  "version_sql = ''PRAGMA user_version''"

fun check_from :: "nat \<Rightarrow> migration list \<Rightarrow> list_fault option" where
  "check_from i [] = None"
| "check_from i (m # ms) =
     (if m_version m \<noteq> int i + 1 then Some (WrongNumber (i + 1) (m_version m))
      else if m_statements m = [] then Some (NoStatements (m_version m))
      else check_from (Suc i) ms)"

definition checkList :: "migration list \<Rightarrow> list_fault option" where
  "checkList ms = (if ms = [] then Some NoMigrations else check_from 0 ms)"

fun exec_each :: "('db, 'e) engine \<Rightarrow> string list \<Rightarrow> 'db \<Rightarrow> 'e apply_error option \<times> 'db" where
  "exec_each eng [] db = (None, db)"
| "exec_each eng (s # ss) db =
     (case tx_Exec eng s db of
        (Some err, db') \<Rightarrow> (Some (StatementFailed err (firstLine s)), db')
      | (None, db') \<Rightarrow> exec_each eng ss db')"

text \<open>
  The deferred \<^verbatim>\<open>Rollback\<close> reaches the driver only when \<^verbatim>\<open>Commit\<close> was not called; after it
  \<^verbatim>\<open>database/sql\<close> answers \<^verbatim>\<open>ErrTxDone\<close> by itself.
\<close>

definition apply_migration :: "('db, 'e) engine \<Rightarrow> migration \<Rightarrow> 'db \<Rightarrow> 'e apply_error option \<times> 'db" where
  "apply_migration eng m db =
     (case tx_Begin eng db of
        (Some err, db1) \<Rightarrow> (Some (BeginFailed err), db1)
      | (None, db1) \<Rightarrow>
          (case exec_each eng (m_statements m @ [stamp (m_version m)]) db1 of
             (Some err, db2) \<Rightarrow> (Some err, tx_Rollback eng db2)
           | (None, db2) \<Rightarrow>
               (case tx_Commit eng db2 of
                  (Some err, db3) \<Rightarrow> (Some (CommitFailed err), db3)
                | (None, db3) \<Rightarrow> (None, db3))))"

fun apply_later :: "('db, 'e) engine \<Rightarrow> int \<Rightarrow> migration list \<Rightarrow> 'db \<Rightarrow> 'e migrate_error option \<times> 'db" where
  "apply_later eng current [] db = (None, db)"
| "apply_later eng current (m # ms) db =
     (if m_version m \<le> current then apply_later eng current ms db
      else
        (case apply_migration eng m db of
           (Some err, db') \<Rightarrow> (Some (ApplyingSchema (m_version m) (m_name m) err), db')
         | (None, db') \<Rightarrow> apply_later eng current ms db'))"

definition migrate :: "('db, 'e) engine \<Rightarrow> migration list \<Rightarrow> 'db \<Rightarrow> 'e migrate_error option \<times> 'db" where
  "migrate eng ms db =
     (case checkList ms of
        Some f \<Rightarrow> (Some (BadHistory f), db)
      | None \<Rightarrow>
          (case queryRow eng version_sql [] (scan_one scan_number) db of
             Inl err \<Rightarrow> (Some (VersionUnread err), db)
           | Inr None \<Rightarrow> (Some VersionMissing, db)
           | Inr (Some current) \<Rightarrow>
               let latest = m_version (last ms) in
               if current > latest then (Some (NewerSchema current latest), db)
               else apply_later eng current ms db))"

datatype 'e open_error =
    EmptyPath
  | Opening string 'e
  | Reaching string 'e
  | Migrating "'e migrate_error"

definition driverName :: string where "driverName = ''sqlite''"

text \<open>A failed open closes the database and drops the error of doing so.\<close>

definition Sqlite_open :: "('db, 'e) engine \<Rightarrow> string \<Rightarrow> string \<Rightarrow> 'e open_error + 'db" where
  "Sqlite_open eng driver path =
     (if path = [] then Inl EmptyPath
      else
        (case sql_Open eng driver path of
           Inl err \<Rightarrow> Inl (Opening path err)
         | Inr db \<Rightarrow>
             (case sql_Ping eng db of
                Some err \<Rightarrow> Inl (Reaching path err)
              | None \<Rightarrow>
                  (case migrate eng migrations db of
                     (Some err, _) \<Rightarrow> Inl (Migrating err)
                   | (None, db') \<Rightarrow> Inr db'))))"

definition Sqlite_Open :: "('db, 'e) engine \<Rightarrow> string \<Rightarrow> 'e open_error + 'db" where
  "Sqlite_Open eng path = Sqlite_open eng driverName path"

subsection \<open>Transactions\<close>

record schema =
  sch_version :: int
  sch_statements :: "string list"

definition is_pragma :: "string \<Rightarrow> bool" where
  "is_pragma s \<longleftrightarrow> take 7 s = ''PRAGMA ''"

text \<open>
  What is committed, and what the open transaction would commit.  Every step may fail; a failed
  step leaves what is committed as it was.  The version is a signed 32 bit number in the header.
\<close>

definition transactions_ok :: "('db, 'e) engine \<Rightarrow> ('db \<Rightarrow> schema \<times> schema option) \<Rightarrow> bool" where
  "transactions_ok eng view \<longleftrightarrow>
     (\<forall>db db' c. view db = (c, None) \<longrightarrow> tx_Begin eng db = (None, db') \<longrightarrow> view db' = (c, Some c)) \<and>
     (\<forall>db db' err. tx_Begin eng db = (Some err, db') \<longrightarrow> fst (view db') = fst (view db)) \<and>
     (\<forall>db db' c p n. view db = (c, Some p) \<longrightarrow> 0 \<le> n \<longrightarrow> n < 2 ^ 31 \<longrightarrow>
        tx_Exec eng (stamp n) db = (None, db') \<longrightarrow> view db' = (c, Some (p\<lparr>sch_version := n\<rparr>))) \<and>
     (\<forall>db db' c p s. view db = (c, Some p) \<longrightarrow> \<not> is_pragma s \<longrightarrow> tx_Exec eng s db = (None, db') \<longrightarrow>
        view db' = (c, Some (p\<lparr>sch_statements := sch_statements p @ [s]\<rparr>))) \<and>
     (\<forall>db db' s err. tx_Exec eng s db = (Some err, db') \<longrightarrow> fst (view db') = fst (view db)) \<and>
     (\<forall>db db' c p. view db = (c, Some p) \<longrightarrow> tx_Commit eng db = (None, db') \<longrightarrow> view db' = (p, None)) \<and>
     (\<forall>db db' err. tx_Commit eng db = (Some err, db') \<longrightarrow> fst (view db') = fst (view db)) \<and>
     (\<forall>db. view (tx_Rollback eng db) = (fst (view db), None)) \<and>
     (\<forall>db c a. view db = (c, None) \<longrightarrow> sql_Query eng version_sql [] db = Inr a \<longrightarrow> ans_rows a \<noteq> [] \<longrightarrow>
        hd (ans_rows a) = [SInt (sch_version c)])"

lemmas begin_ok = transactions_ok_def [THEN iffD1, THEN conjunct1, rule_format]

lemmas begin_failed = transactions_ok_def [THEN iffD1, THEN conjunct2, THEN conjunct1, rule_format]

lemmas stamp_ok = transactions_ok_def
  [THEN iffD1, THEN conjunct2, THEN conjunct2, THEN conjunct1, rule_format]

lemmas exec_ok = transactions_ok_def
  [THEN iffD1, THEN conjunct2, THEN conjunct2, THEN conjunct2, THEN conjunct1, rule_format]

lemmas exec_failed = transactions_ok_def
  [THEN iffD1, THEN conjunct2, THEN conjunct2, THEN conjunct2, THEN conjunct2, THEN conjunct1, rule_format]

lemmas commit_ok = transactions_ok_def
  [THEN iffD1, THEN conjunct2, THEN conjunct2, THEN conjunct2, THEN conjunct2, THEN conjunct2,
    THEN conjunct1, rule_format]

lemmas commit_failed = transactions_ok_def
  [THEN iffD1, THEN conjunct2, THEN conjunct2, THEN conjunct2, THEN conjunct2, THEN conjunct2,
    THEN conjunct2, THEN conjunct1, rule_format]

lemmas rollback_ok = transactions_ok_def
  [THEN iffD1, THEN conjunct2, THEN conjunct2, THEN conjunct2, THEN conjunct2, THEN conjunct2,
    THEN conjunct2, THEN conjunct2, THEN conjunct1, rule_format]

lemmas version_ok = transactions_ok_def
  [THEN iffD1, THEN conjunct2, THEN conjunct2, THEN conjunct2, THEN conjunct2, THEN conjunct2,
    THEN conjunct2, THEN conjunct2, THEN conjunct2, rule_format]

subsection \<open>The schema follows its stamp\<close>

definition schema_at :: "migration list \<Rightarrow> nat \<Rightarrow> schema" where
  "schema_at ms k =
     \<lparr>sch_version = int k, sch_statements = concat (map m_statements (take k ms))\<rparr>"

definition sound_history :: "migration list \<Rightarrow> bool" where
  "sound_history ms \<longleftrightarrow>
     checkList ms = None \<and> length ms < 2 ^ 31 \<and>
     list_all (\<lambda>m. list_all (\<lambda>s. \<not> is_pragma s) (m_statements m)) ms"

lemma check_from_nth:
  "check_from i ms = None \<Longrightarrow> j < length ms \<Longrightarrow> m_version (ms ! j) = int (i + j) + 1"
proof (induction ms arbitrary: i j)
  case (Cons m ms)
  then show ?case by (cases j) (auto split: if_splits)
qed simp

lemma sound_version: "sound_history ms \<Longrightarrow> j < length ms \<Longrightarrow> m_version (ms ! j) = int j + 1"
  using check_from_nth [of 0 ms j] by (auto simp: sound_history_def checkList_def split: if_splits)

lemma sound_latest: "sound_history ms \<Longrightarrow> m_version (last ms) = int (length ms)"
  using sound_version [of ms "length ms - 1"]
  by (cases ms rule: rev_cases) (auto simp: sound_history_def checkList_def)

lemma exec_each_view:
  assumes ok: "transactions_ok eng view" and "\<forall>s \<in> set ss. \<not> is_pragma s" and n: "0 \<le> n" "n < 2 ^ 31"
    and "view db = (c, Some p)" and "exec_each eng (ss @ [stamp n]) db = (r, db')"
  shows "fst (view db') = c \<and>
     (r = None \<longrightarrow> view db' = (c, Some \<lparr>sch_version = n, sch_statements = sch_statements p @ ss\<rparr>))"
  using assms(2,5,6)
proof (induction ss arbitrary: db p)
  case Nil
  show ?case
  proof (cases "tx_Exec eng (stamp n) db")
    case (Pair e db1)
    then show ?thesis
      using Nil stamp_ok [OF ok Nil(2) n] exec_failed [OF ok, of "stamp n" db]
      by (cases e) auto
  qed
next
  case (Cons s ss)
  obtain e db1 where e: "tx_Exec eng s db = (e, db1)" by (cases "tx_Exec eng s db")
  show ?case
  proof (cases e)
    case None
    have np: "\<not> is_pragma s" using Cons.prems(1) by simp
    from exec_ok [OF ok Cons.prems(2) np] e None
    have v: "view db1 = (c, Some (p\<lparr>sch_statements := sch_statements p @ [s]\<rparr>))" by simp
    from Cons.IH [OF _ v] Cons.prems(1,3) e None show ?thesis by simp
  next
    case (Some err)
    with exec_failed [OF ok, of s db err db1] e Cons.prems show ?thesis by auto
  qed
qed

lemma apply_migration_view:
  assumes ok: "transactions_ok eng view" and np: "\<forall>s \<in> set (m_statements m). \<not> is_pragma s"
    and n: "0 \<le> m_version m" "m_version m < 2 ^ 31" and v: "view db = (c, None)"
    and app: "apply_migration eng m db = (r, db')"
  shows "fst (view db') = (if r = None
       then \<lparr>sch_version = m_version m, sch_statements = sch_statements c @ m_statements m\<rparr> else c) \<and>
     (r = None \<longrightarrow> snd (view db') = None)"
proof (cases "tx_Begin eng db")
  case beg: (Pair b db1)
  show ?thesis
  proof (cases b)
    case (Some err)
    then show ?thesis using beg app v begin_failed [OF ok, of db err db1] by (auto simp: apply_migration_def)
  next
    case None
    then have v1: "view db1 = (c, Some c)" using begin_ok [OF ok v, of db1] beg by simp
    obtain e db2 where e: "exec_each eng (m_statements m @ [stamp (m_version m)]) db1 = (e, db2)"
      by (cases "exec_each eng (m_statements m @ [stamp (m_version m)]) db1")
    note v2 = exec_each_view [OF ok np n v1 e]
    show ?thesis
    proof (cases e)
      case (Some err)
      then show ?thesis
        using beg None app e v2 rollback_ok [OF ok, of db2] by (auto simp: apply_migration_def)
    next
      case fin: None
      then have p: "view db2 =
          (c, Some \<lparr>sch_version = m_version m, sch_statements = sch_statements c @ m_statements m\<rparr>)"
        using v2 by simp
      obtain k db3 where k: "tx_Commit eng db2 = (k, db3)" by (cases "tx_Commit eng db2")
      show ?thesis
        using beg None app e fin k p commit_ok [OF ok p, of db3] commit_failed [OF ok, of db2 _ db3]
        by (cases k) (auto simp: apply_migration_def)
    qed
  qed
qed

lemma schema_at_Suc:
  assumes "sound_history ms" and "i < length ms"
  shows "schema_at ms (Suc i) =
    \<lparr>sch_version = m_version (ms ! i), sch_statements = sch_statements (schema_at ms i) @ m_statements (ms ! i)\<rparr>"
  using sound_version [OF assms] assms(2) by (simp add: schema_at_def take_Suc_conv_app_nth)

lemma apply_later_view:
  assumes ok: "transactions_ok eng view" and ms: "sound_history ms"
    and "i \<le> length ms" and "k \<le> length ms" and "view db = (schema_at ms (max i k), None)"
    and "apply_later eng (int k) (drop i ms) db = (r, db')"
  shows "\<exists>j. max i k \<le> j \<and> j \<le> length ms \<and> fst (view db') = schema_at ms j \<and>
     (r = None \<longrightarrow> view db' = (schema_at ms (length ms), None))"
  using assms(3,5,6)
proof (induction "length ms - i" arbitrary: i db)
  case 0
  then show ?case using assms(4) by auto
next
  case (Suc d)
  then have i: "i < length ms" by simp
  have dr: "drop i ms = ms ! i # drop (Suc i) ms" using i by (rule Cons_nth_drop_Suc [symmetric])
  have ver: "m_version (ms ! i) = int i + 1" by (rule sound_version [OF ms i])
  have d: "d = length ms - Suc i" using Suc.hyps(2) by simp
  show ?case
  proof (cases "i < k")
    case True
    then have "apply_later eng (int k) (drop (Suc i) ms) db = (r, db')" "max (Suc i) k = max i k"
      using Suc.prems(3) ver by (simp_all add: dr)
    with Suc.hyps(1) [OF d, of db] i Suc.prems(2) show ?thesis by auto
  next
    case False
    obtain e db1 where e: "apply_migration eng (ms ! i) db = (e, db1)"
      by (cases "apply_migration eng (ms ! i) db")
    have "ms ! i \<in> set ms" using i by simp
    then have np: "\<forall>s \<in> set (m_statements (ms ! i)). \<not> is_pragma s"
      using ms unfolding sound_history_def list_all_iff by blast
    have small: "0 \<le> m_version (ms ! i)" "m_version (ms ! i) < 2 ^ 31"
      using ver i ms by (simp_all add: sound_history_def)
    have v: "view db = (schema_at ms i, None)" using Suc.prems(2) False by (simp add: max_def)
    note step = apply_migration_view [OF ok np small v e, folded schema_at_Suc [OF ms i]]
    show ?thesis
    proof (cases e)
      case None
      have v1: "view db1 = (schema_at ms (max (Suc i) k), None)"
        using None step False by (simp add: prod_eq_iff max_def)
      have later: "apply_later eng (int k) (drop (Suc i) ms) db1 = (r, db')"
        using Suc.prems(3) False ver e None by (simp add: dr)
      have "Suc i \<le> length ms" using i by simp
      from Suc.hyps(1) [OF d this v1 later] obtain j where "max (Suc i) k \<le> j" "j \<le> length ms" "fst (view db') = schema_at ms j"
          "r = None \<longrightarrow> view db' = (schema_at ms (length ms), None)"
        using Suc.hyps(1) [OF d] i by blast
      then show ?thesis by (intro exI [of _ j]) auto
    next
      case (Some err)
      then have "r \<noteq> None" "db' = db1" using Suc.prems(3) False ver e by (auto simp: dr)
      with step Some i False show ?thesis by (intro exI [of _ i]) auto
    qed
  qed
qed

text \<open>What the version query can answer.\<close>

lemma version_read:
  assumes "transactions_ok eng view" and "view db = (c, None)"
  shows "queryRow eng version_sql [] (scan_one scan_number) db \<in>
     {Inr None, Inr (Some (sch_version c))} \<union> range Inl"
  using version_ok [OF assms]
  by (auto simp: queryRow_def split: sum.split list.split option.split)

lemma migrate_cases:
  assumes "transactions_ok eng view" and "view db = (c, None)" and "sound_history ms"
  shows "(\<exists>err. migrate eng ms db = (Some err, db) \<and> (err = VersionMissing \<or> (\<exists>f. err = VersionUnread f))) \<or>
    migrate eng ms db =
      (if sch_version c > int (length ms) then (Some (NewerSchema (sch_version c) (int (length ms))), db)
       else apply_later eng (sch_version c) ms db)"
proof -
  have "checkList ms = None" using assms(3) by (simp add: sound_history_def)
  with version_read [OF assms(1,2)] show ?thesis
    by (auto simp: migrate_def sound_latest [OF assms(3)] Let_def)
qed

lemma migrate_view:
  assumes "transactions_ok eng view" and "sound_history ms" and "k \<le> length ms"
    and "view db = (schema_at ms k, None)"
  shows "\<exists>j. k \<le> j \<and> j \<le> length ms \<and> fst (view (snd (migrate eng ms db))) = schema_at ms j \<and>
     (fst (migrate eng ms db) = None \<longrightarrow> view (snd (migrate eng ms db)) = (schema_at ms (length ms), None))"
proof -
  obtain r db' where later: "apply_later eng (int k) (drop 0 ms) db = (r, db')"
    by (cases "apply_later eng (int k) (drop 0 ms) db")
  have ver: "sch_version (schema_at ms k) = int k" by (simp add: schema_at_def)
  from migrate_cases [OF assms(1,4,2)]
  consider err where "migrate eng ms db = (Some err, db)" | "migrate eng ms db = (r, db')"
    using later assms(3) unfolding ver by auto
  then show ?thesis
  proof cases
    case 1
    then show ?thesis using assms(3,4) by (intro exI [of _ k]) simp
  next
    case 2
    then show ?thesis using apply_later_view [OF assms(1,2) _ assms(3) _ later] assms(4) by auto
  qed
qed

text \<open>
  One start of the server: a run of the migrations, and whatever it left open is rolled back when the
  database is closed.
\<close>

definition attempt :: "('db, 'e) engine \<Rightarrow> migration list \<Rightarrow> 'db \<Rightarrow> 'db" where
  "attempt eng ms db = tx_Rollback eng (snd (migrate eng ms db))"

lemma attempt_view:
  "transactions_ok eng view \<Longrightarrow> view (attempt eng ms db) = (fst (view (snd (migrate eng ms db))), None)"
  by (simp add: attempt_def rollback_ok)

lemma attempts_view:
  assumes ok: "transactions_ok eng view" and ms: "sound_history ms" and "k \<le> length ms"
    and "view db = (schema_at ms k, None)"
  shows "\<exists>j. k \<le> j \<and> j \<le> length ms \<and> view ((attempt eng ms ^^ n) db) = (schema_at ms j, None)"
proof (induction n)
  case 0
  then show ?case using assms(3,4) by auto
next
  case (Suc n)
  then obtain j where j: "k \<le> j" "j \<le> length ms" "view ((attempt eng ms ^^ n) db) = (schema_at ms j, None)"
    by blast
  from migrate_view [OF ok ms j(2,3)] obtain i where "j \<le> i" "i \<le> length ms"
      "fst (view (snd (migrate eng ms ((attempt eng ms ^^ n) db)))) = schema_at ms i" by blast
  with j(1) show ?case
    by (intro exI [of _ i]) (simp add: attempt_view [OF ok])
qed

lemma sound_migrations: "sound_history migrations"
  by (simp add: sound_history_def checkList_def migrations_def is_pragma_def create_channel_def
      index_channel_def create_membership_def create_grant_def create_gain_def)

subsection \<open>An engine whose statements fail once\<close>

text \<open>
  A database with a fuse: the statement that burns it down fails.  The transaction is a copy of the
  schema.
\<close>

type_synonym fused = "schema \<times> schema option \<times> nat"

definition run_statement :: "string \<Rightarrow> schema \<Rightarrow> schema" where
  "run_statement s p =
     (if is_pragma s then (case Atoi (drop 22 s) of None \<Rightarrow> p | Some n \<Rightarrow> p\<lparr>sch_version := n\<rparr>)
      else p\<lparr>sch_statements := sch_statements p @ [s]\<rparr>)"

definition fused_engine :: "(fused, unit) engine" where
  "fused_engine =
     \<lparr>sql_Open = (\<lambda>_ _. Inr (schema_at [] 0, None, 3)), sql_Ping = (\<lambda>_. None),
      sql_Close = (\<lambda>db. (None, db)), sql_Exec = (\<lambda>_ _ db. (None, db)),
      sql_Query = (\<lambda>_ _ (c, _, _).
        Inr \<lparr>ans_rows = [[SInt (sch_version c)]], ans_err = None, ans_close = None\<rparr>),
      tx_Begin = (\<lambda>(c, _, f). (None, (c, Some c, f))),
      tx_Exec = (\<lambda>s (c, p, f).
        if f = 1 then (Some (), (c, p, 0)) else (None, (c, map_option (run_statement s) p, f - 1))),
      tx_Commit = (\<lambda>(c, p, f). case p of None \<Rightarrow> (Some (), (c, None, f)) | Some q \<Rightarrow> (None, (q, None, f))),
      tx_Rollback = (\<lambda>(c, _, f). (c, None, f))\<rparr>"

definition fused_view :: "fused \<Rightarrow> schema \<times> schema option" where
  "fused_view = (\<lambda>(c, p, _). (c, p))"

lemma run_stamp: "0 \<le> n \<Longrightarrow> n < 2 ^ 31 \<Longrightarrow> run_statement (stamp n) p = p\<lparr>sch_version := n\<rparr>"
  by (simp add: run_statement_def stamp_def is_pragma_def Atoi_itoa)

lemma run_plain: "\<not> is_pragma s \<Longrightarrow> run_statement s p = p\<lparr>sch_statements := sch_statements p @ [s]\<rparr>"
  by (simp add: run_statement_def)

lemma fused_steps:
  "tx_Begin fused_engine (c, p, f) = (None, (c, Some c, f))"
  "tx_Exec fused_engine s (c, p, f) =
     (if f = 1 then (Some (), (c, p, 0)) else (None, (c, map_option (run_statement s) p, f - 1)))"
  "tx_Commit fused_engine (c, p, f) =
     (case p of None \<Rightarrow> (Some (), (c, None, f)) | Some q \<Rightarrow> (None, (q, None, f)))"
  "tx_Rollback fused_engine (c, p, f) = (c, None, f)"
  "sql_Query fused_engine stmt args (c, p, f) =
     Inr \<lparr>ans_rows = [[SInt (sch_version c)]], ans_err = None, ans_close = None\<rparr>"
  by (simp_all add: fused_engine_def)

lemma fused_engine_ok: "transactions_ok fused_engine fused_view"
  unfolding transactions_ok_def fused_view_def split_paired_all split_paired_All
proof (intro conjI)
qed (auto simp: fused_steps run_stamp run_plain split: if_splits option.splits)

lemma transactions_ok_Open [simp]: "transactions_ok (eng\<lparr>sql_Open := f\<rparr>) view = transactions_ok eng view"
  by (simp add: transactions_ok_def)

subsection \<open>Properties\<close>

text \<open>
  C4: The schema and its version stamp agree whatever fails: however many starts of the server ended
  anywhere in the migrations, what is committed is exactly what the first so many migrations of the history
  make, stamped with that number and never earlier than before; and a run that reports no error has committed the
  whole history.
\<close>

theorem schema_follows_its_stamp:
  assumes "transactions_ok eng view" and "sound_history ms"
    and "k \<le> length ms" and "view db = (schema_at ms k, None)" and "db' = (attempt eng ms ^^ n) db"
  shows "\<exists>j. k \<le> j \<and> j \<le> length ms \<and> view db' = (schema_at ms j, None) \<and>
     (fst (migrate eng ms db') = None \<longrightarrow> view (snd (migrate eng ms db')) = (schema_at ms (length ms), None))"
proof -
  obtain j where j: "k \<le> j" "j \<le> length ms" "view db' = (schema_at ms j, None)"
    using attempts_view [OF assms(1-4), of n] assms(5) by blast
  from migrate_view [OF assms(1,2) j(2,3)]
  have "fst (migrate eng ms db') = None \<longrightarrow> view (snd (migrate eng ms db')) = (schema_at ms (length ms), None)"
    by (elim exE conjE)
  with j show ?thesis by (intro exI [of _ j] conjI)
qed

text \<open>The third statement of the first run fails; the next run completes.\<close>

definition ex_fused :: fused where
  "ex_fused = (schema_at [] 0, None, 3)"

theorem schema_follows_its_stamp_witness:
  "\<exists>j. 0 \<le> j \<and> j \<le> length migrations \<and>
     fused_view (attempt fused_engine migrations ex_fused) = (schema_at migrations j, None)"
proof -
  have start: "fused_view ex_fused = (schema_at migrations 0, None)"
    by (simp add: fused_view_def ex_fused_def schema_at_def)
  have once: "attempt fused_engine migrations ex_fused = (attempt fused_engine migrations ^^ 1) ex_fused"
    by simp
  from schema_follows_its_stamp [OF fused_engine_ok sound_migrations _ start once]
  show ?thesis by auto
qed

text \<open>
  Data from a later build is refused and left alone: where the version is past the end of the
  history the run reports an error and the database is the one it was given.
\<close>

theorem newer_data_is_left_alone:
  assumes "transactions_ok eng view" and "sound_history ms"
    and "view db = (c, None)" and "int (length ms) < sch_version c"
  shows "snd (migrate eng ms db) = db \<and> fst (migrate eng ms db) \<noteq> None"
  using migrate_cases [OF assms(1,3,2)] assms(4) by auto

theorem newer_data_is_left_alone_witness:
  "snd (migrate fused_engine migrations (\<lparr>sch_version = 2, sch_statements = []\<rparr>, None, 0)) =
     (\<lparr>sch_version = 2, sch_statements = []\<rparr>, None, 0)"
  using newer_data_is_left_alone [OF fused_engine_ok sound_migrations,
      of "(\<lparr>sch_version = 2, sch_statements = []\<rparr>, None, 0)" "\<lparr>sch_version = 2, sch_statements = []\<rparr>"]
  by (simp add: fused_view_def migrations_def)

text \<open>
  C27: A store that opens is at the schema of this build: where the file held some prefix of the
  history, \<open>Open\<close> with a path that is not empty either reports an error or has committed all of it.
\<close>

theorem Open_reaches_the_schema:
  assumes "transactions_ok eng view"
    and "\<And>db. sql_Open eng driverName path = Inr db \<Longrightarrow>
      \<exists>k \<le> length migrations. view db = (schema_at migrations k, None)"
    and "Sqlite_Open eng path = Inr db'"
  shows "path \<noteq> [] \<and> view db' = (schema_at migrations (length migrations), None)"
proof -
  obtain db where db: "path \<noteq> []" "sql_Open eng driverName path = Inr db" "migrate eng migrations db = (None, db')"
    using assms(3)
    by (auto simp: Sqlite_Open_def Sqlite_open_def split: if_splits sum.splits option.splits prod.splits)
  then obtain k where k: "k \<le> length migrations" "view db = (schema_at migrations k, None)"
    using assms(2) by blast
  from migrate_view [OF assms(1) sound_migrations k] db(1,3) show ?thesis by auto
qed

text \<open>The same file with the fuse burnt.\<close>

definition whole_engine :: "(fused, unit) engine" where
  "whole_engine = fused_engine\<lparr>sql_Open := (\<lambda>_ _. Inr (schema_at [] 0, None, 0))\<rparr>"

lemma whole_engine_ok: "transactions_ok whole_engine fused_view"
  using fused_engine_ok by (simp add: whole_engine_def)

theorem Open_reaches_the_schema_witness:
  "\<exists>db. Sqlite_Open whole_engine ''stammtisch.db'' = Inr db \<and>
     fused_view db = (schema_at migrations 1, None)"
proof -
  have start: "\<exists>k \<le> length migrations. fused_view db = (schema_at migrations k, None)"
    if "sql_Open whole_engine driverName ''stammtisch.db'' = Inr db" for db
    using that by (intro exI [of _ 0]) (auto simp: whole_engine_def fused_view_def schema_at_def)
  have "checkList migrations = None" using sound_migrations by (simp add: sound_history_def)
  then obtain db where db: "Sqlite_Open whole_engine ''stammtisch.db'' = Inr db"
    by (simp add: Sqlite_Open_def Sqlite_open_def migrate_def whole_engine_def fused_engine_def queryRow_def
        schema_at_def migrations_def apply_migration_def)
  from Open_reaches_the_schema [OF whole_engine_ok start db] db show ?thesis
    by (simp add: migrations_def)
qed

text \<open>
  A history is accepted exactly when there is one, it is numbered from one without a gap or a
  repeat, and every step does something.
\<close>

theorem checkList_accepts_exactly_histories:
  "checkList ms = None \<longleftrightarrow>
     ms \<noteq> [] \<and> map m_version ms = map (\<lambda>i. int i + 1) [0..<length ms] \<and> [] \<notin> set (map m_statements ms)"
proof -
  have "check_from i ms = None \<longleftrightarrow>
      map m_version ms = map (\<lambda>j. int j + 1) [i..<i + length ms] \<and> [] \<notin> set (map m_statements ms)" for i
  proof (induction ms arbitrary: i)
    case (Cons m ms)
    have "[i..<i + length (m # ms)] = i # [Suc i..<Suc i + length ms]"
      using upt_conv_Cons [of i "i + length (m # ms)"] by simp
    with Cons.IH [of "Suc i"] show ?case by auto
  qed simp
  from this [of 0] show ?thesis by (simp add: checkList_def)
qed

end
