(* ===== verification/Media_Port.thy ===== *)
theory Media_Port
  imports Clocks
begin

text \<open>
  The media plane's port, \<^verbatim>\<open>internal/media/port.go\<close>: its vocabulary, its errors, the set of errors
  each operation may answer with, and the refusals every implementation owes.  Room and member
  identities are Go strings; a capability set is one byte.
\<close>

unbundle bit_operations_syntax

subsection \<open>Numbers that may not be numbers\<close>

text \<open>
  A \<^verbatim>\<open>float64\<close> as the port uses one: it is stored, copied and compared.  Every finite value is a
  rational; a comparison with the not-a-number value is false.
\<close>

datatype gofloat = NaN | NegInf | Fin rat | PosInf

fun float_less :: "gofloat \<Rightarrow> gofloat \<Rightarrow> bool" where
  "float_less NaN y = False"
| "float_less x NaN = False"
| "float_less x NegInf = False"
| "float_less NegInf y = True"
| "float_less PosInf y = False"
| "float_less (Fin x) PosInf = True"
| "float_less (Fin x) (Fin y) = (x < y)"

subsection \<open>Vocabulary\<close>

type_synonym RoomID = string

type_synonym MemberID = string

type_synonym SourceKind = "8 word"

definition Audio :: SourceKind where "Audio = 1"

definition Video :: SourceKind where "Video = 2"

definition SourceKind_String :: "SourceKind \<Rightarrow> string" where
  "SourceKind_String k = (if k = Audio then ''audio'' else if k = Video then ''video'' else [])"

record Source =
  src_member :: MemberID
  src_kind :: SourceKind

type_synonym Capability = "8 word"

type_synonym Capabilities = "8 word"

definition MayPublishAudio :: Capability where "MayPublishAudio = 1"

definition MayPublishVideo :: Capability where "MayPublishVideo = 2"

definition MaySubscribe :: Capability where "MaySubscribe = 4"

definition Allows :: "Capabilities \<Rightarrow> Capability \<Rightarrow> bool" where
  "Allows s c \<longleftrightarrow> s AND c \<noteq> 0"

definition With :: "Capabilities \<Rightarrow> Capability \<Rightarrow> Capabilities" where
  "With s c = s OR c"

record Credential =
  cred_opaque :: string

definition zero_Credential :: Credential where
  "zero_Credential = \<lparr>cred_opaque = []\<rparr>"

definition NewCredential :: "string \<Rightarrow> Credential" where
  "NewCredential s = \<lparr>cred_opaque = s\<rparr>"

definition Credential_String :: "Credential \<Rightarrow> string" where
  "Credential_String c = cred_opaque c"

definition Credential_IsZero :: "Credential \<Rightarrow> bool" where
  "Credential_IsZero c \<longleftrightarrow> cred_opaque c = []"

type_synonym Gain = gofloat

record Speaking =
  sp_member :: MemberID
  sp_speaking :: bool

record Hop =
  hop_member :: MemberID
  hop_delay :: duration
  hop_loss :: gofloat
  hop_observed :: instant

subsection \<open>Errors\<close>

datatype identity_fault = EmptyRoomIdentity | EmptyMemberIdentity | UnknownSourceKind SourceKind

datatype media_error =
    ErrUnavailable
  | ErrCancelled
  | ErrInternal
  | ErrRoomLimitReached
  | ErrInvalidIdentity identity_fault
  | ErrNoSuchRoom
  | ErrMemberAlreadyAdmitted
  | ErrPermissionsNotExpressible
  | ErrNoSuchMember
  | ErrNotPermittedByUnit
  | ErrSourceAlreadyPublished
  | ErrNoSuchSource
  | ErrGainNotSupported
  | ErrNoSuchSubscription
  | ErrGainOutOfRange
  | ErrNotObservable
  | ErrDrainDeadlineExceeded

text \<open>The text each error carries.\<close>

fun media_error_text :: "media_error \<Rightarrow> string" where
  "media_error_text ErrUnavailable = ''media: the unit could not be reached''"
| "media_error_text ErrCancelled = ''media: the caller'' @ [CHR 0x27] @ ''s deadline expired''"
| "media_error_text ErrInternal =
     ''media: the unit answered outside this port'' @ [CHR 0x27] @ ''s vocabulary''"
| "media_error_text ErrRoomLimitReached = ''media: the unit will hold no further room''"
| "media_error_text (ErrInvalidIdentity why) =
     ''media: that is not an identity this port names anything by: '' @
     (case why of
        EmptyRoomIdentity \<Rightarrow> ''a room identity is empty''
      | EmptyMemberIdentity \<Rightarrow> ''a member identity is empty''
      | UnknownSourceKind k \<Rightarrow>
          ''source kind '' @ itoa (uint k) @ '' is not in this build'' @ [CHR 0x27] @ ''s set'')"
| "media_error_text ErrNoSuchRoom = ''media: there is no such room''"
| "media_error_text ErrMemberAlreadyAdmitted =
     ''media: that member is already admitted to that room''"
| "media_error_text ErrPermissionsNotExpressible = ''media: the unit cannot enforce those capabilities''"
| "media_error_text ErrNoSuchMember = ''media: there is no such member in that room''"
| "media_error_text ErrNotPermittedByUnit =
     ''media: that member'' @ [CHR 0x27] @ ''s capabilities do not allow it''"
| "media_error_text ErrSourceAlreadyPublished = ''media: that source is already published''"
| "media_error_text ErrNoSuchSource = ''media: there is no such source in that room''"
| "media_error_text ErrGainNotSupported = ''media: the unit does not apply gain per subscriber''"
| "media_error_text ErrNoSuchSubscription = ''media: there is no such subscription''"
| "media_error_text ErrGainOutOfRange = ''media: that gain is outside what the unit will apply''"
| "media_error_text ErrNotObservable = ''media: the unit does not report that''"
| "media_error_text ErrDrainDeadlineExceeded =
     ''media: the room did not empty before the deadline''"

definition ValidRoom :: "RoomID \<Rightarrow> media_error option" where
  "ValidRoom r = (if r = [] then Some (ErrInvalidIdentity EmptyRoomIdentity) else None)"

definition ValidMember :: "MemberID \<Rightarrow> media_error option" where
  "ValidMember m = (if m = [] then Some (ErrInvalidIdentity EmptyMemberIdentity) else None)"

definition ValidKind :: "SourceKind \<Rightarrow> media_error option" where
  "ValidKind k =
     (if SourceKind_String k = [] then Some (ErrInvalidIdentity (UnknownSourceKind k)) else None)"

lemma ValidKind_None: "ValidKind k = None \<longleftrightarrow> k = Audio \<or> k = Video"
  by (simp add: ValidKind_def SourceKind_String_def)

subsection \<open>The operations of the port\<close>

text \<open>The interface's methods with the arguments a caller passes beside the context.\<close>

datatype port_op =
    CreateRoom RoomID
  | DestroyRoom RoomID
  | AdmitMember RoomID MemberID Capabilities
  | RevokeMember RoomID MemberID
  | PublishSource RoomID MemberID SourceKind
  | UnpublishSource RoomID MemberID SourceKind
  | PortSubscribe RoomID MemberID Source
  | PortUnsubscribe RoomID MemberID Source
  | SetSubscriberGain RoomID MemberID Source Gain
  | SpeakingState RoomID
  | HopMetrics RoomID
  | DrainRoom RoomID

fun op_name :: "port_op \<Rightarrow> string" where
  "op_name (CreateRoom _) = ''CreateRoom''"
| "op_name (DestroyRoom _) = ''DestroyRoom''"
| "op_name (AdmitMember _ _ _) = ''AdmitMember''"
| "op_name (RevokeMember _ _) = ''RevokeMember''"
| "op_name (PublishSource _ _ _) = ''PublishSource''"
| "op_name (UnpublishSource _ _ _) = ''UnpublishSource''"
| "op_name (PortSubscribe _ _ _) = ''Subscribe''"
| "op_name (PortUnsubscribe _ _ _) = ''Unsubscribe''"
| "op_name (SetSubscriberGain _ _ _ _) = ''SetSubscriberGain''"
| "op_name (SpeakingState _) = ''SpeakingState''"
| "op_name (HopMetrics _) = ''HopMetrics''"
| "op_name (DrainRoom _) = ''DrainRoom''"

definition Operations :: "string list" where
  "Operations =
     [''CreateRoom'', ''DestroyRoom'', ''AdmitMember'', ''RevokeMember'', ''PublishSource'',
      ''UnpublishSource'', ''Subscribe'', ''Unsubscribe'', ''SetSubscriberGain'', ''SpeakingState'',
      ''HopMetrics'', ''DrainRoom'']"

lemma op_name_Operations: "op_name op \<in> set Operations"
  by (cases op) (simp_all add: Operations_def)

text \<open>The errors the interface lists for each operation, beside the three common ones.\<close>

fun is_identity_error :: "media_error \<Rightarrow> bool" where
  "is_identity_error (ErrInvalidIdentity _) = True"
| "is_identity_error _ = False"

fun listed :: "port_op \<Rightarrow> media_error \<Rightarrow> bool" where
  "listed (CreateRoom _) e \<longleftrightarrow> e = ErrRoomLimitReached \<or> is_identity_error e"
| "listed (DestroyRoom _) e \<longleftrightarrow> is_identity_error e"
| "listed (AdmitMember _ _ _) e \<longleftrightarrow>
     e = ErrNoSuchRoom \<or> e = ErrMemberAlreadyAdmitted \<or> e = ErrPermissionsNotExpressible \<or>
     is_identity_error e"
| "listed (RevokeMember _ _) e \<longleftrightarrow> e = ErrNoSuchRoom"
| "listed (PublishSource _ _ _) e \<longleftrightarrow>
     e = ErrNoSuchRoom \<or> e = ErrNoSuchMember \<or> e = ErrNotPermittedByUnit \<or>
     e = ErrSourceAlreadyPublished \<or> is_identity_error e"
| "listed (UnpublishSource _ _ _) e \<longleftrightarrow>
     e = ErrNoSuchRoom \<or> e = ErrNoSuchMember \<or> is_identity_error e"
| "listed (PortSubscribe _ _ _) e \<longleftrightarrow>
     e = ErrNoSuchRoom \<or> e = ErrNoSuchMember \<or> e = ErrNoSuchSource \<or> e = ErrNotPermittedByUnit \<or>
     is_identity_error e"
| "listed (PortUnsubscribe _ _ _) e \<longleftrightarrow>
     e = ErrNoSuchRoom \<or> e = ErrNoSuchMember \<or> is_identity_error e"
| "listed (SetSubscriberGain _ _ _ _) e \<longleftrightarrow>
     e = ErrGainNotSupported \<or> e = ErrNoSuchSubscription \<or> e = ErrGainOutOfRange"
| "listed (SpeakingState _) e \<longleftrightarrow> e = ErrNoSuchRoom \<or> e = ErrNotObservable"
| "listed (HopMetrics _) e \<longleftrightarrow> e = ErrNoSuchRoom \<or> e = ErrNotObservable"
| "listed (DrainRoom _) e \<longleftrightarrow> e = ErrNoSuchRoom \<or> e = ErrDrainDeadlineExceeded"

definition common_error :: "media_error \<Rightarrow> bool" where
  "common_error e \<longleftrightarrow> e = ErrUnavailable \<or> e = ErrCancelled \<or> e = ErrInternal"

subsection \<open>Capability sets\<close>

lemma Allows_With: "Allows (With s c) d \<longleftrightarrow> Allows s d \<or> c AND d \<noteq> 0"
  by (auto simp: Allows_def With_def bit_eq_iff bit_simps)

lemma Allows_zero [simp]: "\<not> Allows 0 c"
  by (simp add: Allows_def)

end
