(* ===== verification/Media_Fake.thy ===== *)
theory Media_Fake
  imports Media_Port
begin

text \<open>
  The in-memory media plane, \<^verbatim>\<open>internal/media/fake/fake.go\<close>: its rooms, the twelve operations of
  the port, what a test reads from it and the faults a test can arm.  An operation takes whether
  the caller's context has already expired; where the code reads its clock, the definition takes the
  instants read.  An operation returns its results and the new state, its call log included.  The
  counter of minted credentials is an unbounded \<open>int\<close>: it stands for Go's \<^verbatim>\<open>int\<close> below
  \<open>2 ^ 63\<close>.
\<close>

subsection \<open>State\<close>

record Call =
  call_op :: string
  call_room :: RoomID
  call_member :: MemberID
  call_source :: Source
  call_gain :: Gain
  call_caps :: Capabilities
  call_err :: "media_error option"

definition plain_call :: "string \<Rightarrow> RoomID \<Rightarrow> Call" where
  "plain_call opname r =
     \<lparr>call_op = opname, call_room = r, call_member = [], call_source = \<lparr>src_member = [], src_kind = 0\<rparr>,
      call_gain = Fin 0, call_caps = 0, call_err = None\<rparr>"

definition Call_String :: "Call \<Rightarrow> string" where
  "Call_String c =
     call_op c @ ''('' @ call_room c
     @ (if call_member c \<noteq> [] then '', '' @ call_member c else [])
     @ (if src_kind (call_source c) \<noteq> 0
        then '', '' @ src_member (call_source c) @ ''/'' @ SourceKind_String (src_kind (call_source c))
        else [])
     @ '')''
     @ (case call_err c of None \<Rightarrow> [] | Some e \<Rightarrow> '' -> '' @ media_error_text e)"

record subscription =
  sub_subscriber :: MemberID
  sub_source :: Source

record seat =
  seat_room :: RoomID
  seat_member :: MemberID

record media_room =
  rm_members :: "(MemberID, Capabilities) gomap"
  rm_sources :: "(Source, bool) gomap"
  rm_subscribers :: "(subscription, bool) gomap"
  rm_speaking :: "(MemberID, bool) gomap"
  rm_hops :: "(MemberID, Hop) gomap"
  rm_draining :: bool

definition new_room :: media_room where
  "new_room = \<lparr>rm_members = [], rm_sources = [], rm_subscribers = [], rm_speaking = [], rm_hops = [],
               rm_draining = False\<rparr>"

record Fake =
  fk_calls :: "Call list"
  fk_rooms :: "(RoomID, media_room) gomap"
  fk_minted :: int
  fk_roomLimit :: int
  fk_gainSupported :: bool
  fk_gainRange :: "Gain \<times> Gain"
  fk_observable :: bool
  fk_unreachable :: bool
  fk_admissionTimesOut :: "(seat, bool) gomap"
  fk_roomCreationFails :: "(RoomID, bool) gomap"
  fk_sourceNeverArives :: "(Source, bool) gomap"
  fk_capsNotExpressible :: "(Capability, bool) gomap"

datatype fake_error = NoClock

definition Fake_New :: "bool \<Rightarrow> fake_error + Fake" where
  "Fake_New clock_given =
     (if \<not> clock_given then Inl NoClock
      else Inr \<lparr>fk_calls = [], fk_rooms = [], fk_minted = 0, fk_roomLimit = -1,
                fk_gainSupported = False, fk_gainRange = (Fin 0, Fin 4), fk_observable = True,
                fk_unreachable = False, fk_admissionTimesOut = [], fk_roomCreationFails = [],
                fk_sourceNeverArives = [], fk_capsNotExpressible = []\<rparr>)"

subsection \<open>What a test reads\<close>

definition Calls :: "Fake \<Rightarrow> Call list" where
  "Calls f = fk_calls f"

definition Fake_Operations :: "Fake \<Rightarrow> string list" where
  "Fake_Operations f = map call_op (Calls f)"

definition Subscribed :: "RoomID \<Rightarrow> MemberID \<Rightarrow> Source \<Rightarrow> Fake \<Rightarrow> bool" where
  "Subscribed r subscriber source f =
     (case map_of (fk_rooms f) r of
        None \<Rightarrow> False
      | Some rm \<Rightarrow> flagged (rm_subscribers rm) \<lparr>sub_subscriber = subscriber, sub_source = source\<rparr>)"

definition SourcePublished :: "RoomID \<Rightarrow> Source \<Rightarrow> Fake \<Rightarrow> bool" where
  "SourcePublished r source f =
     (case map_of (fk_rooms f) r of None \<Rightarrow> False | Some rm \<Rightarrow> flagged (rm_sources rm) source)"

definition Admitted :: "RoomID \<Rightarrow> MemberID \<Rightarrow> Fake \<Rightarrow> bool" where
  "Admitted r member f =
     (case map_of (fk_rooms f) r of None \<Rightarrow> False | Some rm \<Rightarrow> gm_has (rm_members rm) member)"

subsection \<open>What a test sets\<close>

definition put_room :: "RoomID \<Rightarrow> media_room \<Rightarrow> Fake \<Rightarrow> Fake" where
  "put_room r rm f = f\<lparr>fk_rooms := AList.update r rm (fk_rooms f)\<rparr>"

definition SetRoomLimit :: "int \<Rightarrow> Fake \<Rightarrow> Fake" where
  "SetRoomLimit n f = f\<lparr>fk_roomLimit := n\<rparr>"

definition SetGainSupported :: "bool \<Rightarrow> Fake \<Rightarrow> Fake" where
  "SetGainSupported ok f = f\<lparr>fk_gainSupported := ok\<rparr>"

definition SetGainRange :: "Gain \<Rightarrow> Gain \<Rightarrow> Fake \<Rightarrow> Fake" where
  "SetGainRange low high f = f\<lparr>fk_gainRange := (low, high)\<rparr>"

definition SetObservable :: "bool \<Rightarrow> Fake \<Rightarrow> Fake" where
  "SetObservable ok f = f\<lparr>fk_observable := ok\<rparr>"

definition SetSpeaking :: "RoomID \<Rightarrow> MemberID \<Rightarrow> bool \<Rightarrow> Fake \<Rightarrow> Fake" where
  "SetSpeaking r member talking f =
     (case map_of (fk_rooms f) r of
        None \<Rightarrow> f
      | Some rm \<Rightarrow> put_room r (rm\<lparr>rm_speaking := AList.update member talking (rm_speaking rm)\<rparr>) f)"

definition SetHop :: "instant \<Rightarrow> RoomID \<Rightarrow> Hop \<Rightarrow> Fake \<Rightarrow> Fake" where
  "SetHop now r hop f =
     (case map_of (fk_rooms f) r of
        None \<Rightarrow> f
      | Some rm \<Rightarrow>
          let hop' = hop\<lparr>hop_observed := now\<rparr>
          in put_room r (rm\<lparr>rm_hops := AList.update (hop_member hop') hop' (rm_hops rm)\<rparr>) f)"

definition SetUnreachable :: "bool \<Rightarrow> Fake \<Rightarrow> Fake" where
  "SetUnreachable b f = f\<lparr>fk_unreachable := b\<rparr>"

definition FailRoomCreation :: "RoomID \<Rightarrow> bool \<Rightarrow> Fake \<Rightarrow> Fake" where
  "FailRoomCreation r fail f = f\<lparr>fk_roomCreationFails := AList.update r fail (fk_roomCreationFails f)\<rparr>"

definition TimeOutAdmission :: "RoomID \<Rightarrow> MemberID \<Rightarrow> bool \<Rightarrow> Fake \<Rightarrow> Fake" where
  "TimeOutAdmission r member timeOut f =
     f\<lparr>fk_admissionTimesOut :=
         AList.update \<lparr>seat_room = r, seat_member = member\<rparr> timeOut (fk_admissionTimesOut f)\<rparr>"

definition NeverDeliverSource :: "Source \<Rightarrow> bool \<Rightarrow> Fake \<Rightarrow> Fake" where
  "NeverDeliverSource source never f =
     f\<lparr>fk_sourceNeverArives := AList.update source never (fk_sourceNeverArives f)\<rparr>"

definition DropSubscription :: "RoomID \<Rightarrow> MemberID \<Rightarrow> Source \<Rightarrow> Fake \<Rightarrow> Fake" where
  "DropSubscription r subscriber source f =
     (case map_of (fk_rooms f) r of
        None \<Rightarrow> f
      | Some rm \<Rightarrow>
          put_room r
            (rm\<lparr>rm_subscribers :=
                 AList.delete \<lparr>sub_subscriber = subscriber, sub_source = source\<rparr> (rm_subscribers rm)\<rparr>) f)"

definition RefuseCapability :: "Capability \<Rightarrow> bool \<Rightarrow> Fake \<Rightarrow> Fake" where
  "RefuseCapability c refuse f =
     f\<lparr>fk_capsNotExpressible := AList.update c refuse (fk_capsNotExpressible f)\<rparr>"

subsection \<open>The port\<close>

text \<open>
  \<^verbatim>\<open>record\<close> and \<^verbatim>\<open>begin\<close>.  \<open>refuse\<close> is the three lines each refusal is written with: the error
  goes into the call, the call into the log, and the error to the caller.
\<close>

definition record_call :: "Call \<Rightarrow> Fake \<Rightarrow> media_error option \<times> Fake" where
  "record_call c f = (call_err c, f\<lparr>fk_calls := fk_calls f @ [c]\<rparr>)"

definition begin_call :: "bool \<Rightarrow> Fake \<Rightarrow> media_error option" where
  "begin_call expired f =
     (if expired then Some ErrCancelled
      else if fk_unreachable f then Some ErrUnavailable
      else None)"

definition refuse :: "Call \<Rightarrow> Fake \<Rightarrow> media_error \<Rightarrow> media_error option \<times> Fake" where
  "refuse c f e = record_call (c\<lparr>call_err := Some e\<rparr>) f"

definition memberOf :: "RoomID \<Rightarrow> MemberID \<Rightarrow> Fake \<Rightarrow> media_error + media_room \<times> Capabilities" where
  "memberOf r member f =
     (case map_of (fk_rooms f) r of
        None \<Rightarrow> Inl ErrNoSuchRoom
      | Some rm \<Rightarrow>
          (case map_of (rm_members rm) member of
             None \<Rightarrow> Inl ErrNoSuchMember
           | Some caps \<Rightarrow> Inr (rm, caps)))"

definition publishing :: "SourceKind \<Rightarrow> Capability" where
  "publishing k = (if k = Video then MayPublishVideo else MayPublishAudio)"

definition Fake_CreateRoom :: "bool \<Rightarrow> RoomID \<Rightarrow> Fake \<Rightarrow> media_error option \<times> Fake" where
  "Fake_CreateRoom expired r f =
     (let call = plain_call ''CreateRoom'' r in
      case begin_call expired f of Some e \<Rightarrow> refuse call f e | None \<Rightarrow>
      case ValidRoom r of Some e \<Rightarrow> refuse call f e | None \<Rightarrow>
      if gm_has (fk_rooms f) r then record_call call f
      else if flagged (fk_roomCreationFails f) r then refuse call f ErrRoomLimitReached
      else if 0 \<le> fk_roomLimit f \<and> fk_roomLimit f \<le> int (length (fk_rooms f))
      then refuse call f ErrRoomLimitReached
      else record_call call (put_room r new_room f))"

definition Fake_DestroyRoom :: "bool \<Rightarrow> RoomID \<Rightarrow> Fake \<Rightarrow> bool \<times> media_error option \<times> Fake" where
  "Fake_DestroyRoom expired r f =
     (let call = plain_call ''DestroyRoom'' r in
      case begin_call expired f of Some e \<Rightarrow> (False, refuse call f e) | None \<Rightarrow>
      case ValidRoom r of Some e \<Rightarrow> (False, refuse call f e) | None \<Rightarrow>
      (\<not> gm_has (fk_rooms f) r,
       record_call call (f\<lparr>fk_rooms := AList.delete r (fk_rooms f)\<rparr>)))"

definition Fake_AdmitMember ::
    "bool \<Rightarrow> RoomID \<Rightarrow> MemberID \<Rightarrow> Capabilities \<Rightarrow> Fake \<Rightarrow> Credential \<times> media_error option \<times> Fake" where
  "Fake_AdmitMember expired r member caps f =
     (let call = (plain_call ''AdmitMember'' r)\<lparr>call_member := member, call_caps := caps\<rparr>;
          no = (\<lambda>e. (zero_Credential, refuse call f e)) in
      case begin_call expired f of Some e \<Rightarrow> no e | None \<Rightarrow>
      case ValidRoom r of Some e \<Rightarrow> no e | None \<Rightarrow>
      case ValidMember member of Some e \<Rightarrow> no e | None \<Rightarrow>
      if flagged (fk_admissionTimesOut f) \<lparr>seat_room = r, seat_member = member\<rparr> then no ErrCancelled
      else case map_of (fk_rooms f) r of None \<Rightarrow> no ErrNoSuchRoom | Some rm \<Rightarrow>
      if gm_has (rm_members rm) member then no ErrMemberAlreadyAdmitted
      else if list_ex (\<lambda>(c, refused). refused \<and> Allows caps c) (fk_capsNotExpressible f)
      then no ErrPermissionsNotExpressible
      else if rm_draining rm then no ErrNoSuchRoom
      else
        (let f' = (put_room r (rm\<lparr>rm_members := AList.update member caps (rm_members rm)\<rparr>) f)
                    \<lparr>fk_minted := fk_minted f + 1\<rparr>
         in (NewCredential (''fake-'' @ r @ ''-'' @ member @ ''-'' @ itoa (fk_minted f')),
             record_call call f')))"

definition Fake_RevokeMember :: "bool \<Rightarrow> RoomID \<Rightarrow> MemberID \<Rightarrow> Fake \<Rightarrow> media_error option \<times> Fake" where
  "Fake_RevokeMember expired r member f =
     (let call = (plain_call ''RevokeMember'' r)\<lparr>call_member := member\<rparr> in
      case begin_call expired f of Some e \<Rightarrow> refuse call f e | None \<Rightarrow>
      case map_of (fk_rooms f) r of None \<Rightarrow> refuse call f ErrNoSuchRoom | Some rm \<Rightarrow>
      record_call call
        (put_room r
          (rm\<lparr>rm_members := AList.delete member (rm_members rm),
              rm_speaking := AList.delete member (rm_speaking rm),
              rm_hops := AList.delete member (rm_hops rm),
              rm_sources := filter (\<lambda>(s, _). src_member s \<noteq> member) (rm_sources rm),
              rm_subscribers :=
                filter (\<lambda>(b, _). \<not> (sub_subscriber b = member \<or> src_member (sub_source b) = member))
                  (rm_subscribers rm)\<rparr>) f))"

definition Fake_PublishSource ::
    "bool \<Rightarrow> RoomID \<Rightarrow> MemberID \<Rightarrow> SourceKind \<Rightarrow> Fake \<Rightarrow> media_error option \<times> Fake" where
  "Fake_PublishSource expired r member kind f =
     (let source = \<lparr>src_member = member, src_kind = kind\<rparr>;
          call = (plain_call ''PublishSource'' r)\<lparr>call_member := member, call_source := source\<rparr> in
      case begin_call expired f of Some e \<Rightarrow> refuse call f e | None \<Rightarrow>
      case ValidKind kind of Some e \<Rightarrow> refuse call f e | None \<Rightarrow>
      case memberOf r member f of Inl e \<Rightarrow> refuse call f e | Inr (rm, caps) \<Rightarrow>
      if \<not> Allows caps (publishing kind) then refuse call f ErrNotPermittedByUnit
      else if flagged (rm_sources rm) source then refuse call f ErrSourceAlreadyPublished
      else if \<not> flagged (fk_sourceNeverArives f) source
      then record_call call (put_room r (rm\<lparr>rm_sources := AList.update source True (rm_sources rm)\<rparr>) f)
      else record_call call f)"

definition Fake_UnpublishSource ::
    "bool \<Rightarrow> RoomID \<Rightarrow> MemberID \<Rightarrow> SourceKind \<Rightarrow> Fake \<Rightarrow> media_error option \<times> Fake" where
  "Fake_UnpublishSource expired r member kind f =
     (let source = \<lparr>src_member = member, src_kind = kind\<rparr>;
          call = (plain_call ''UnpublishSource'' r)\<lparr>call_member := member, call_source := source\<rparr> in
      case begin_call expired f of Some e \<Rightarrow> refuse call f e | None \<Rightarrow>
      case ValidKind kind of Some e \<Rightarrow> refuse call f e | None \<Rightarrow>
      case memberOf r member f of Inl e \<Rightarrow> refuse call f e | Inr (rm, _) \<Rightarrow>
      record_call call
        (put_room r
          (rm\<lparr>rm_sources := AList.delete source (rm_sources rm),
              rm_subscribers := filter (\<lambda>(b, _). sub_source b \<noteq> source) (rm_subscribers rm)\<rparr>) f))"

definition Fake_Subscribe :: "bool \<Rightarrow> RoomID \<Rightarrow> MemberID \<Rightarrow> Source \<Rightarrow> Fake \<Rightarrow> media_error option \<times> Fake" where
  "Fake_Subscribe expired r subscriber source f =
     (let call = (plain_call ''Subscribe'' r)\<lparr>call_member := subscriber, call_source := source\<rparr> in
      case begin_call expired f of Some e \<Rightarrow> refuse call f e | None \<Rightarrow>
      case ValidKind (src_kind source) of Some e \<Rightarrow> refuse call f e | None \<Rightarrow>
      case memberOf r subscriber f of Inl e \<Rightarrow> refuse call f e | Inr (rm, caps) \<Rightarrow>
      if \<not> gm_has (rm_members rm) (src_member source) then refuse call f ErrNoSuchMember
      else if \<not> Allows caps MaySubscribe then refuse call f ErrNotPermittedByUnit
      else if \<not> flagged (rm_sources rm) source then refuse call f ErrNoSuchSource
      else record_call call
        (put_room r
          (rm\<lparr>rm_subscribers :=
               AList.update \<lparr>sub_subscriber = subscriber, sub_source = source\<rparr> True
                 (rm_subscribers rm)\<rparr>) f))"

definition Fake_Unsubscribe :: "bool \<Rightarrow> RoomID \<Rightarrow> MemberID \<Rightarrow> Source \<Rightarrow> Fake \<Rightarrow> media_error option \<times> Fake" where
  "Fake_Unsubscribe expired r subscriber source f =
     (let call = (plain_call ''Unsubscribe'' r)\<lparr>call_member := subscriber, call_source := source\<rparr> in
      case begin_call expired f of Some e \<Rightarrow> refuse call f e | None \<Rightarrow>
      case ValidKind (src_kind source) of Some e \<Rightarrow> refuse call f e | None \<Rightarrow>
      case memberOf r subscriber f of Inl e \<Rightarrow> refuse call f e | Inr (rm, _) \<Rightarrow>
      record_call call
        (put_room r
          (rm\<lparr>rm_subscribers :=
               AList.delete \<lparr>sub_subscriber = subscriber, sub_source = source\<rparr> (rm_subscribers rm)\<rparr>) f))"

definition Fake_SetSubscriberGain ::
    "bool \<Rightarrow> RoomID \<Rightarrow> MemberID \<Rightarrow> Source \<Rightarrow> Gain \<Rightarrow> Fake \<Rightarrow> media_error option \<times> Fake" where
  "Fake_SetSubscriberGain expired r subscriber source gain f =
     (let call = (plain_call ''SetSubscriberGain'' r)
                   \<lparr>call_member := subscriber, call_source := source, call_gain := gain\<rparr> in
      case begin_call expired f of Some e \<Rightarrow> refuse call f e | None \<Rightarrow>
      if \<not> fk_gainSupported f then refuse call f ErrGainNotSupported
      else if \<not> Subscribed r subscriber source f then refuse call f ErrNoSuchSubscription
      else if float_less gain (fst (fk_gainRange f)) \<or> float_less (snd (fk_gainRange f)) gain
      then refuse call f ErrGainOutOfRange
      else record_call call f)"

definition Fake_SpeakingState :: "bool \<Rightarrow> RoomID \<Rightarrow> Fake \<Rightarrow> Speaking list \<times> media_error option \<times> Fake" where
  "Fake_SpeakingState expired r f =
     (let call = plain_call ''SpeakingState'' r in
      case begin_call expired f of Some e \<Rightarrow> ([], refuse call f e) | None \<Rightarrow>
      case map_of (fk_rooms f) r of None \<Rightarrow> ([], refuse call f ErrNoSuchRoom) | Some rm \<Rightarrow>
      if \<not> fk_observable f then ([], refuse call f ErrNotObservable)
      else
        (sort_key sp_member
           (map (\<lambda>(m, _). \<lparr>sp_member = m, sp_speaking = flagged (rm_speaking rm) m\<rparr>) (rm_members rm)),
         record_call call f))"

text \<open>\<open>now m\<close> is what the clock says when the range reaches a member \<open>m\<close> whose hop was never set.\<close>

definition Fake_HopMetrics ::
    "bool \<Rightarrow> (MemberID \<Rightarrow> instant) \<Rightarrow> RoomID \<Rightarrow> Fake \<Rightarrow> Hop list \<times> media_error option \<times> Fake" where
  "Fake_HopMetrics expired now r f =
     (let call = plain_call ''HopMetrics'' r in
      case begin_call expired f of Some e \<Rightarrow> ([], refuse call f e) | None \<Rightarrow>
      case map_of (fk_rooms f) r of None \<Rightarrow> ([], refuse call f ErrNoSuchRoom) | Some rm \<Rightarrow>
      if \<not> fk_observable f then ([], refuse call f ErrNotObservable)
      else
        (sort_key hop_member
           (map (\<lambda>(m, _). case map_of (rm_hops rm) m of
                    Some hop \<Rightarrow> hop
                  | None \<Rightarrow> \<lparr>hop_member = m, hop_delay = 0, hop_loss = Fin 0, hop_observed = now m\<rparr>)
              (rm_members rm)),
         record_call call f))"

definition Fake_DrainRoom :: "bool \<Rightarrow> RoomID \<Rightarrow> Fake \<Rightarrow> media_error option \<times> Fake" where
  "Fake_DrainRoom expired r f =
     (let call = plain_call ''DrainRoom'' r in
      case begin_call expired f of Some e \<Rightarrow> refuse call f e | None \<Rightarrow>
      case map_of (fk_rooms f) r of None \<Rightarrow> refuse call f ErrNoSuchRoom | Some rm \<Rightarrow>
      let f' = put_room r (rm\<lparr>rm_draining := True\<rparr>) f in
      if length (rm_members rm) > 0 then refuse call f' ErrDrainDeadlineExceeded
      else record_call call f')"

text \<open>Any operation, by its name and arguments: the error it answers and the state it leaves.\<close>

fun perform :: "bool \<Rightarrow> (MemberID \<Rightarrow> instant) \<Rightarrow> port_op \<Rightarrow> Fake \<Rightarrow> media_error option \<times> Fake" where
  "perform expired now (CreateRoom r) f = Fake_CreateRoom expired r f"
| "perform expired now (DestroyRoom r) f = snd (Fake_DestroyRoom expired r f)"
| "perform expired now (AdmitMember r m caps) f = snd (Fake_AdmitMember expired r m caps f)"
| "perform expired now (RevokeMember r m) f = Fake_RevokeMember expired r m f"
| "perform expired now (PublishSource r m k) f = Fake_PublishSource expired r m k f"
| "perform expired now (UnpublishSource r m k) f = Fake_UnpublishSource expired r m k f"
| "perform expired now (PortSubscribe r m s) f = Fake_Subscribe expired r m s f"
| "perform expired now (PortUnsubscribe r m s) f = Fake_Unsubscribe expired r m s f"
| "perform expired now (SetSubscriberGain r m s g) f = Fake_SetSubscriberGain expired r m s g f"
| "perform expired now (SpeakingState r) f = snd (Fake_SpeakingState expired r f)"
| "perform expired now (HopMetrics r) f = snd (Fake_HopMetrics expired now r f)"
| "perform expired now (DrainRoom r) f = Fake_DrainRoom expired r f"

lemmas fake_op_defs =
  Fake_CreateRoom_def Fake_DestroyRoom_def Fake_AdmitMember_def Fake_RevokeMember_def
  Fake_PublishSource_def Fake_UnpublishSource_def Fake_Subscribe_def Fake_Unsubscribe_def
  Fake_SetSubscriberGain_def Fake_SpeakingState_def Fake_HopMetrics_def Fake_DrainRoom_def

text \<open>One thing that happens to the unit: a call of the port, or a test arranging something.\<close>

datatype fake_event =
    Invoke bool "MemberID \<Rightarrow> instant" port_op
  | ArrangeRoomLimit int
  | ArrangeGainSupported bool
  | ArrangeGainRange Gain Gain
  | ArrangeObservable bool
  | ArrangeSpeaking RoomID MemberID bool
  | ArrangeHop instant RoomID Hop
  | ArrangeUnreachable bool
  | ArrangeRoomFailure RoomID bool
  | ArrangeAdmissionTimeout RoomID MemberID bool
  | ArrangeNoDelivery Source bool
  | ArrangeDroppedSubscription RoomID MemberID Source
  | ArrangeRefusedCapability Capability bool

fun fake_step :: "fake_event \<Rightarrow> Fake \<Rightarrow> Fake" where
  "fake_step (Invoke expired now op) f = snd (perform expired now op f)"
| "fake_step (ArrangeRoomLimit n) f = SetRoomLimit n f"
| "fake_step (ArrangeGainSupported b) f = SetGainSupported b f"
| "fake_step (ArrangeGainRange lo hi) f = SetGainRange lo hi f"
| "fake_step (ArrangeObservable b) f = SetObservable b f"
| "fake_step (ArrangeSpeaking r m b) f = SetSpeaking r m b f"
| "fake_step (ArrangeHop now r hop) f = SetHop now r hop f"
| "fake_step (ArrangeUnreachable b) f = SetUnreachable b f"
| "fake_step (ArrangeRoomFailure r b) f = FailRoomCreation r b f"
| "fake_step (ArrangeAdmissionTimeout r m b) f = TimeOutAdmission r m b f"
| "fake_step (ArrangeNoDelivery s b) f = NeverDeliverSource s b f"
| "fake_step (ArrangeDroppedSubscription r m s) f = DropSubscription r m s f"
| "fake_step (ArrangeRefusedCapability c b) f = RefuseCapability c b f"

definition fake_run :: "fake_event list \<Rightarrow> Fake \<Rightarrow> Fake" where
  "fake_run steps f = fold fake_step steps f"

lemma fake_run_Nil [simp]: "fake_run [] f = f"
  by (simp add: fake_run_def)

lemma fake_run_Cons [simp]: "fake_run (s # ss) f = fake_run ss (fake_step s f)"
  by (simp add: fake_run_def)

lemmas fake_setting_defs =
  SetRoomLimit_def SetGainSupported_def SetGainRange_def SetObservable_def SetUnreachable_def
  FailRoomCreation_def TimeOutAdmission_def NeverDeliverSource_def RefuseCapability_def

definition empty_unit :: Fake where
  "empty_unit = (case Fake_New True of Inr f \<Rightarrow> f)"

lemma empty_unit_rooms [simp]: "fk_rooms empty_unit = []" "fk_calls empty_unit = []"
    "fk_minted empty_unit = 0"
  by (simp_all add: empty_unit_def Fake_New_def)

subsection \<open>Refusals and recording\<close>

lemma record_call_simps [simp]:
  "fst (record_call c f) = call_err c"
  "fk_rooms (snd (record_call c f)) = fk_rooms f"
  "fk_calls (snd (record_call c f)) = fk_calls f @ [c]"
  "fk_minted (snd (record_call c f)) = fk_minted f"
  by (simp_all add: record_call_def)

lemma refuse_simps [simp]:
  "fst (refuse c f e) = Some e"
  "fk_rooms (snd (refuse c f e)) = fk_rooms f"
  "fk_calls (snd (refuse c f e)) = fk_calls f @ [c\<lparr>call_err := Some e\<rparr>]"
  "fk_minted (snd (refuse c f e)) = fk_minted f"
  by (simp_all add: refuse_def)

lemma put_room_simps [simp]:
  "fk_rooms (put_room r rm f) = AList.update r rm (fk_rooms f)"
  "fk_calls (put_room r rm f) = fk_calls f"
  "fk_minted (put_room r rm f) = fk_minted f"
  by (simp_all add: put_room_def)

lemma plain_call_simps [simp]: "call_op (plain_call n r) = n" "call_err (plain_call n r) = None"
    "call_room (plain_call n r) = r"
  by (simp_all add: plain_call_def)

lemma begin_call_Some: "begin_call expired f = Some e \<Longrightarrow> common_error e"
  by (auto simp: begin_call_def common_error_def split: if_splits)

lemma Valid_identity:
  "ValidRoom r = Some e \<Longrightarrow> is_identity_error e"
  "ValidMember m = Some e \<Longrightarrow> is_identity_error e"
  "ValidKind k = Some e \<Longrightarrow> is_identity_error e"
  by (auto simp: ValidRoom_def ValidMember_def ValidKind_def split: if_splits)

lemma memberOf_Inl: "memberOf r m f = Inl e \<Longrightarrow> e = ErrNoSuchRoom \<or> e = ErrNoSuchMember"
  by (auto simp: memberOf_def split: option.splits)

lemma memberOf_Inr:
  "memberOf r m f = Inr (rm, caps) \<longleftrightarrow>
     map_of (fk_rooms f) r = Some rm \<and> map_of (rm_members rm) m = Some caps"
  by (auto simp: memberOf_def split: option.splits)

lemma refuse_Some: "refuse c f e = (Some e, f\<lparr>fk_calls := fk_calls f @ [c\<lparr>call_err := Some e\<rparr>]\<rparr>)"
  by (simp add: refuse_def record_call_def)

text \<open>What every operation owes its log: one call more, naming the operation and its error.\<close>

definition logged :: "string \<Rightarrow> Fake \<Rightarrow> media_error option \<times> Fake \<Rightarrow> bool" where
  "logged n f res \<longleftrightarrow>
     (\<exists>c. fk_calls (snd res) = fk_calls f @ [c] \<and> call_op c = n \<and> call_err c = fst res)"

lemma logged_record: "call_op c = n \<Longrightarrow> fk_calls g = fk_calls f \<Longrightarrow> logged n f (record_call c g)"
  by (simp add: logged_def)

lemma logged_refuse: "call_op c = n \<Longrightarrow> fk_calls g = fk_calls f \<Longrightarrow> logged n f (refuse c g e)"
  by (simp add: logged_def)

lemma perform_logged: "logged (op_name op) f (perform expired now op f)"
  by (cases op)
    (auto simp: fake_op_defs Let_def logged_record logged_refuse split: option.splits sum.splits)

text \<open>
  Nothing the unit is asked for goes unrecorded.  Whatever the operation, its arguments and the
  state, it appends exactly one call to the log, under the operation's own name and with the very
  error the caller got.
\<close>

theorem every_operation_is_recorded:
  "Fake_Operations (snd (perform expired now op f)) = Fake_Operations f @ [op_name op] \<and>
   call_err (last (Calls (snd (perform expired now op f)))) = fst (perform expired now op f)"
  using perform_logged [of op f expired now]
  by (auto simp: logged_def Fake_Operations_def Calls_def)

subsection \<open>The error sets of the port\<close>

lemma perform_listed:
  "fst (perform expired now op f) = Some e \<Longrightarrow> listed op e \<or> common_error e"
  by (cases op)
    (auto simp: fake_op_defs Let_def common_error_def split: option.splits sum.splits if_splits
      dest!: begin_call_Some Valid_identity memberOf_Inl)

lemma refused_unchanged:
  "fst (perform expired now op f) = Some e \<Longrightarrow> e \<noteq> ErrDrainDeadlineExceeded \<Longrightarrow>
   snd (perform expired now op f) = f\<lparr>fk_calls := fk_calls (snd (perform expired now op f))\<rparr>"
  by (cases op)
    (auto simp: fake_op_defs Let_def refuse_Some split: option.splits sum.splits if_splits)

lemma overdrawn_drain:
  "fst (perform expired now op f) = Some ErrDrainDeadlineExceeded \<Longrightarrow> \<exists>r. op = DrainRoom r"
  using perform_listed [of expired now op f ErrDrainDeadlineExceeded]
  by (cases op) (auto simp: common_error_def)

text \<open>
  C38: An operation that answers with an error answers with one the port lists for that operation
  or one of the three common ones, and leaves the unit as it was but for the call log; the one
  exception is a drain that ran out of time, whose room goes on draining.
\<close>

theorem refusals_keep_to_the_contract:
  assumes "perform expired now op f = (Some e, f')"
  shows "(listed op e \<or> common_error e) \<and>
         (f' = f\<lparr>fk_calls := fk_calls f'\<rparr> \<or> e = ErrDrainDeadlineExceeded \<and> (\<exists>r. op = DrainRoom r))"
  using perform_listed [of expired now op f e] refused_unchanged [of expired now op f e]
    overdrawn_drain [of expired now op f] assms
  by auto

theorem refusals_keep_to_the_contract_witness:
  "(listed (RevokeMember ''r'' ''m'') ErrNoSuchRoom \<or> common_error ErrNoSuchRoom) \<and>
   (snd (perform False (\<lambda>_. 0) (RevokeMember ''r'' ''m'') empty_unit) =
      empty_unit\<lparr>fk_calls := fk_calls (snd (perform False (\<lambda>_. 0) (RevokeMember ''r'' ''m'') empty_unit))\<rparr> \<or>
    ErrNoSuchRoom = ErrDrainDeadlineExceeded \<and> (\<exists>r. RevokeMember ''r'' ''m'' = DrainRoom r))"
  by (rule refusals_keep_to_the_contract [where expired = False and now = "\<lambda>_. 0"])
    (simp add: Fake_RevokeMember_def begin_call_def refuse_Some empty_unit_def Fake_New_def)

subsection \<open>The rooms' invariant\<close>

definition room_ok :: "media_room \<Rightarrow> bool" where
  "room_ok rm \<longleftrightarrow>
     gm_ok (rm_members rm) \<and>
     (\<forall>s. flagged (rm_sources rm) s \<longrightarrow>
        (\<exists>caps. map_of (rm_members rm) (src_member s) = Some caps \<and>
                Allows caps (publishing (src_kind s)))) \<and>
     (\<forall>b. flagged (rm_subscribers rm) b \<longrightarrow>
        flagged (rm_sources rm) (sub_source b) \<and>
        (\<exists>caps. map_of (rm_members rm) (sub_subscriber b) = Some caps \<and> Allows caps MaySubscribe)) \<and>
     (\<forall>m hop. map_of (rm_hops rm) m = Some hop \<longrightarrow> hop_member hop = m)"

definition fake_inv :: "Fake \<Rightarrow> bool" where
  "fake_inv f \<longleftrightarrow> gm_ok (fk_rooms f) \<and> (\<forall>r rm. map_of (fk_rooms f) r = Some rm \<longrightarrow> room_ok rm)"

lemma fake_inv_room: "fake_inv f \<Longrightarrow> map_of (fk_rooms f) r = Some rm \<Longrightarrow> room_ok rm"
  by (simp add: fake_inv_def)

lemma fake_inv_put: "fake_inv f \<Longrightarrow> room_ok rm \<Longrightarrow> fake_inv (put_room r rm f)"
  by (simp add: fake_inv_def)

lemma fake_inv_rooms: "fake_inv f \<Longrightarrow> fk_rooms g = fk_rooms f \<Longrightarrow> fake_inv g"
  by (simp add: fake_inv_def)

lemma fake_inv_log [simp]:
  "fake_inv (snd (record_call c f)) = fake_inv f" "fake_inv (snd (refuse c f e)) = fake_inv f"
  "fake_inv (f\<lparr>fk_minted := n\<rparr>) = fake_inv f"
  by (simp_all add: fake_inv_def)

lemma fake_inv_destroy: "fake_inv f \<Longrightarrow> fake_inv (f\<lparr>fk_rooms := AList.delete r (fk_rooms f)\<rparr>)"
  by (simp add: fake_inv_def)

lemma room_ok_new: "room_ok new_room"
  by (simp add: room_ok_def new_room_def)

lemma room_ok_admit:
  "room_ok rm \<Longrightarrow> \<not> gm_has (rm_members rm) m \<Longrightarrow>
   room_ok (rm\<lparr>rm_members := AList.update m caps (rm_members rm)\<rparr>)"
  by (auto simp: room_ok_def split: if_splits)

lemma room_ok_revoke:
  "room_ok rm \<Longrightarrow>
   room_ok (rm\<lparr>rm_members := AList.delete m (rm_members rm),
               rm_speaking := AList.delete m (rm_speaking rm),
               rm_hops := AList.delete m (rm_hops rm),
               rm_sources := filter (\<lambda>(s, _). src_member s \<noteq> m) (rm_sources rm),
               rm_subscribers :=
                 filter (\<lambda>(b, _). sub_subscriber b \<noteq> m \<and> src_member (sub_source b) \<noteq> m)
                   (rm_subscribers rm)\<rparr>)"
  by (auto simp: room_ok_def)

lemma room_ok_publish:
  "room_ok rm \<Longrightarrow> map_of (rm_members rm) m = Some caps \<Longrightarrow> Allows caps (publishing k) \<Longrightarrow>
   room_ok (rm\<lparr>rm_sources := AList.update \<lparr>src_member = m, src_kind = k\<rparr> True (rm_sources rm)\<rparr>)"
  by (auto simp: room_ok_def)

lemma room_ok_unpublish:
  "room_ok rm \<Longrightarrow>
   room_ok (rm\<lparr>rm_sources := AList.delete s (rm_sources rm),
               rm_subscribers := filter (\<lambda>(b, _). sub_source b \<noteq> s) (rm_subscribers rm)\<rparr>)"
  by (auto simp: room_ok_def)

lemma room_ok_subscribe:
  "room_ok rm \<Longrightarrow> map_of (rm_members rm) m = Some caps \<Longrightarrow> Allows caps MaySubscribe \<Longrightarrow>
   flagged (rm_sources rm) s \<Longrightarrow>
   room_ok (rm\<lparr>rm_subscribers :=
                 AList.update \<lparr>sub_subscriber = m, sub_source = s\<rparr> True (rm_subscribers rm)\<rparr>)"
  by (auto simp: room_ok_def)

lemma room_ok_unsubscribe:
  "room_ok rm \<Longrightarrow> room_ok (rm\<lparr>rm_subscribers := AList.delete b (rm_subscribers rm)\<rparr>)"
  by (auto simp: room_ok_def)

lemma room_ok_rest:
  "room_ok rm \<Longrightarrow> room_ok (rm\<lparr>rm_draining := d\<rparr>)"
  "room_ok rm \<Longrightarrow> room_ok (rm\<lparr>rm_speaking := sp\<rparr>)"
  "room_ok rm \<Longrightarrow> room_ok (rm\<lparr>rm_hops := AList.update (hop_member hop) hop (rm_hops rm)\<rparr>)"
  by (auto simp: room_ok_def)

lemmas room_ok_intros =
  room_ok_new room_ok_admit room_ok_revoke room_ok_publish room_ok_unpublish room_ok_subscribe
  room_ok_unsubscribe room_ok_rest

lemma fake_inv_perform: "fake_inv f \<Longrightarrow> fake_inv (snd (perform expired now op f))"
  by (cases op)
    (auto simp: fake_op_defs Let_def memberOf_Inr split: option.splits sum.splits
      intro!: fake_inv_put fake_inv_destroy room_ok_intros intro: fake_inv_room)

lemma fake_inv_step: "fake_inv f \<Longrightarrow> fake_inv (fake_step ev f)"
proof (cases ev)
  case (ArrangeHop now r hop)
  assume "fake_inv f"
  then show ?thesis
    unfolding ArrangeHop
    by (auto simp: SetHop_def Let_def split: option.splits
        intro!: fake_inv_put dest: fake_inv_room
        intro: room_ok_rest(3) [where hop = "hop\<lparr>hop_observed := now\<rparr>", simplified])
qed (auto simp: fake_setting_defs SetSpeaking_def DropSubscription_def fake_inv_perform
      split: option.splits
      intro!: fake_inv_put room_ok_intros intro: fake_inv_room elim: fake_inv_rooms)

lemma fake_inv_run: "fake_inv f \<Longrightarrow> fake_inv (fake_run evs f)"
  by (induction evs arbitrary: f) (simp_all add: fake_inv_step)

lemma fake_inv_empty: "fake_inv empty_unit"
  by (simp add: fake_inv_def)

text \<open>
  C22: Whatever the port is asked and a test arranges, in any order, a member who receives a source
  is in the room, the source is published there, and its publisher is in the room too: no
  subscription outlives its source, its subscriber or its publisher.
\<close>

theorem subscriptions_stay_sound:
  assumes "f = fake_run events empty_unit" and "Subscribed r listener source f"
  shows "SourcePublished r source f \<and> Admitted r listener f \<and> Admitted r (src_member source) f"
proof -
  have "fake_inv f"
    using assms(1) fake_inv_run [OF fake_inv_empty] by simp
  moreover obtain rm where "map_of (fk_rooms f) r = Some rm"
    and "flagged (rm_subscribers rm) \<lparr>sub_subscriber = listener, sub_source = source\<rparr>"
    using assms(2) by (auto simp: Subscribed_def split: option.splits)
  ultimately show ?thesis
    using fake_inv_room [of f r rm]
    by (fastforce simp: room_ok_def SourcePublished_def Admitted_def)
qed

text \<open>A room in which a listener hears a speaker.\<close>

definition all_caps :: Capabilities where
  "all_caps = With (With (With 0 MayPublishAudio) MayPublishVideo) MaySubscribe"

definition voice :: "MemberID \<Rightarrow> Source" where
  "voice m = \<lparr>src_member = m, src_kind = Audio\<rparr>"

definition two_in_a_room :: "fake_event list" where
  "two_in_a_room =
     map (Invoke False (\<lambda>_. 0))
       [CreateRoom ''r'', AdmitMember ''r'' ''m'' all_caps, AdmitMember ''r'' ''n'' all_caps,
        PublishSource ''r'' ''m'' Audio, PortSubscribe ''r'' ''n'' (voice ''m'')]"

definition two_unit :: Fake where
  "two_unit = fake_run two_in_a_room empty_unit"

lemma all_caps_Allows [simp]: "Allows all_caps c \<longleftrightarrow> 7 AND c \<noteq> 0"
  by (simp add: all_caps_def With_def MayPublishAudio_def MayPublishVideo_def MaySubscribe_def
      Allows_def)

lemmas fake_eval =
  Let_def two_unit_def two_in_a_room_def fake_op_defs begin_call_def ValidRoom_def ValidMember_def
  ValidKind_def SourceKind_String_def memberOf_def publishing_def record_call_def refuse_def
  put_room_def plain_call_def new_room_def empty_unit_def Fake_New_def voice_def Audio_def Video_def
  MayPublishAudio_def MayPublishVideo_def MaySubscribe_def flagged_def

lemma two_unit_rooms:
  "fk_rooms two_unit =
     [(''r'', \<lparr>rm_members = [(''m'', all_caps), (''n'', all_caps)], rm_sources = [(voice ''m'', True)],
               rm_subscribers = [(\<lparr>sub_subscriber = ''n'', sub_source = voice ''m''\<rparr>, True)],
               rm_speaking = [], rm_hops = [], rm_draining = False\<rparr>)]"
  by (simp add: fake_eval)

lemma two_unit_rest: "fk_unreachable two_unit = False" "fk_minted two_unit = 2"
    "fk_gainSupported two_unit = False"
  by (simp_all add: fake_eval)

theorem subscriptions_stay_sound_witness:
  "SourcePublished ''r'' (voice ''m'') two_unit \<and> Admitted ''r'' ''n'' two_unit \<and>
   Admitted ''r'' (src_member (voice ''m'')) two_unit"
  by (rule subscriptions_stay_sound [where events = two_in_a_room])
    (simp_all add: two_unit_def [symmetric] Subscribed_def two_unit_rooms flagged_def)

subsection \<open>Draining\<close>

definition no_new_members :: "RoomID \<Rightarrow> Fake \<Rightarrow> Fake \<Rightarrow> bool" where
  "no_new_members r f g \<longleftrightarrow>
     (\<exists>rm rm'. map_of (fk_rooms f) r = Some rm \<and> map_of (fk_rooms g) r = Some rm' \<and> rm_draining rm' \<and>
        (\<forall>m. gm_has (rm_members rm') m \<longrightarrow> gm_has (rm_members rm) m))"

definition drained :: "RoomID \<Rightarrow> Fake \<Rightarrow> bool" where
  "drained r f \<longleftrightarrow> (\<exists>rm. map_of (fk_rooms f) r = Some rm \<and> rm_draining rm)"

lemma drained_refl: "drained r f \<Longrightarrow> no_new_members r f f"
  by (auto simp: drained_def no_new_members_def)

lemma no_new_members_trans: "no_new_members r f g \<Longrightarrow> no_new_members r g h \<Longrightarrow> no_new_members r f h"
  by (fastforce simp: no_new_members_def)

lemma no_new_members_drained: "no_new_members r f g \<Longrightarrow> drained r g"
  by (auto simp: drained_def no_new_members_def)

lemma drained_perform:
  assumes "drained r f" and "op \<noteq> DestroyRoom r"
  shows "no_new_members r f (snd (perform expired now op f))"
  using assms
  by (cases op)
    (auto simp: fake_op_defs Let_def drained_def no_new_members_def memberOf_Inr
      split: option.splits sum.splits)

lemma drained_step:
  assumes "drained r f" and "\<And>expired now. ev \<noteq> Invoke expired now (DestroyRoom r)"
  shows "no_new_members r f (fake_step ev f)"
proof (cases ev)
  case (Invoke expired now op)
  then have "op \<noteq> DestroyRoom r"
    using assms(2) by blast
  then show ?thesis
    using assms(1) Invoke by (simp add: drained_perform)
qed (use assms(1) in \<open>auto simp: fake_setting_defs SetSpeaking_def SetHop_def DropSubscription_def
      Let_def drained_def no_new_members_def split: option.splits\<close>)

lemma drained_run:
  assumes "drained r f" and "\<And>expired now. Invoke expired now (DestroyRoom r) \<notin> set events"
  shows "no_new_members r f (fake_run events f)"
  using assms
proof (induction events arbitrary: f)
  case Nil
  then show ?case by (simp add: drained_refl)
next
  case (Cons ev events)
  have step: "no_new_members r f (fake_step ev f)"
    by (rule drained_step) (use Cons.prems in auto)
  have "no_new_members r (fake_step ev f) (fake_run events (fake_step ev f))"
    by (rule Cons.IH) (use Cons.prems no_new_members_drained [OF step] in auto)
  with step show ?case
    using no_new_members_trans by (metis fake_run_Cons)
qed

lemma DrainRoom_drains:
  assumes "fst (Fake_DrainRoom expired r f) = None \<or>
           fst (Fake_DrainRoom expired r f) = Some ErrDrainDeadlineExceeded"
  shows "no_new_members r f (snd (Fake_DrainRoom expired r f))"
  using assms
  by (auto simp: Fake_DrainRoom_def no_new_members_def Let_def begin_call_def
      split: option.splits if_splits)

text \<open>
  A drain, completed or not, closes the door for good.  Whatever happens to the unit afterwards
  short of destroying the room, nobody is in the room who was not in it when the drain began.
\<close>

theorem draining_room_admits_nobody:
  assumes "fst (Fake_DrainRoom expired r f) \<in> {None, Some ErrDrainDeadlineExceeded}"
    and "\<And>ex now. Invoke ex now (DestroyRoom r) \<notin> set events"
    and "Admitted r m (fake_run events (snd (Fake_DrainRoom expired r f)))"
  shows "Admitted r m f"
proof -
  have "no_new_members r f (snd (Fake_DrainRoom expired r f))"
    using assms(1) by (intro DrainRoom_drains) auto
  moreover from this have "no_new_members r (snd (Fake_DrainRoom expired r f))
      (fake_run events (snd (Fake_DrainRoom expired r f)))"
    by (intro drained_run no_new_members_drained assms(2))
  ultimately have "no_new_members r f (fake_run events (snd (Fake_DrainRoom expired r f)))"
    by (rule no_new_members_trans)
  with assms(3) show ?thesis
    by (auto simp: Admitted_def no_new_members_def)
qed

theorem draining_room_admits_nobody_witness: "Admitted ''r'' ''m'' two_unit"
  by (rule draining_room_admits_nobody
      [where expired = False and events = "[Invoke False (\<lambda>_. 0) (AdmitMember ''r'' ''x'' all_caps)]"])
    (simp_all add: Fake_DrainRoom_def begin_call_def two_unit_rooms two_unit_rest Let_def refuse_def
      record_call_def put_room_def Admitted_def Fake_AdmitMember_def ValidRoom_def ValidMember_def
      flagged_def split: option.splits)

subsection \<open>Credentials\<close>

text \<open>The credentials a run of the unit hands out, in order.\<close>

fun credentials_of :: "fake_event \<Rightarrow> Fake \<Rightarrow> Credential list" where
  "credentials_of (Invoke expired now (AdmitMember r m caps)) f =
     (let (cred, err, f') = Fake_AdmitMember expired r m caps f in if err = None then [cred] else [])"
| "credentials_of _ f = []"

fun credentials :: "fake_event list \<Rightarrow> Fake \<Rightarrow> Credential list" where
  "credentials [] f = []"
| "credentials (ev # evs) f = credentials_of ev f @ credentials evs (fake_step ev f)"

definition numbered :: "int \<Rightarrow> Credential \<Rightarrow> bool" where
  "numbered n c \<longleftrightarrow> (\<exists>s. c = NewCredential (s @ CHR ''-'' # itoa n))"

lemma itoa_no_dash: "0 \<le> i \<Longrightarrow> CHR ''-'' \<notin> set (itoa i)"
  by (simp add: itoa_def dec_nat_no_dash)

lemma numbered_unique:
  assumes "numbered i c" and "numbered j c" and "0 \<le> i" and "0 \<le> j"
  shows "i = j"
proof -
  obtain s t where "s @ CHR ''-'' # itoa i = t @ CHR ''-'' # itoa j"
    using assms(1,2) by (auto simp: numbered_def NewCredential_def)
  then have "itoa i = itoa j"
    using append_no_sep_eq itoa_no_dash [OF assms(3)] itoa_no_dash [OF assms(4)] by blast
  then show ?thesis by simp
qed

lemma AdmitMember_minted:
  assumes "Fake_AdmitMember expired r m caps f = (cred, err, f')"
  shows "fk_minted f' = (if err = None then fk_minted f + 1 else fk_minted f) \<and>
         (err = None \<longrightarrow> numbered (fk_minted f + 1) cred) \<and> (err \<noteq> None \<longrightarrow> Credential_IsZero cred)"
proof -
  have "numbered n (NewCredential (''fake-'' @ r @ ''-'' @ m @ ''-'' @ itoa n))" for n
    unfolding numbered_def by (rule exI [of _ "''fake-'' @ r @ ''-'' @ m"]) simp
  with assms show ?thesis
    by (auto simp: Fake_AdmitMember_def Let_def refuse_Some record_call_def Credential_IsZero_def
        zero_Credential_def split: option.splits if_splits)
qed

lemma minted_perform:
  "fk_minted (snd (perform expired now op f)) =
     fk_minted f + int (length (credentials_of (Invoke expired now op) f))"
proof (cases op)
  case (AdmitMember r m caps)
  then show ?thesis
    using AdmitMember_minted [of expired r m caps f]
    by (cases "Fake_AdmitMember expired r m caps f") (auto split: if_splits)
qed (auto simp: fake_op_defs Let_def split: option.splits sum.splits)

lemma minted_step: "fk_minted (fake_step ev f) = fk_minted f + int (length (credentials_of ev f))"
  by (cases ev)
    (simp_all add: minted_perform fake_setting_defs SetSpeaking_def SetHop_def DropSubscription_def
      Let_def split: option.splits)

lemma credentials_of_numbered:
  "credentials_of ev f = [] \<or> (\<exists>c. credentials_of ev f = [c] \<and> numbered (fk_minted f + 1) c)"
  by (cases "(ev, f)" rule: credentials_of.cases)
    (auto split: prod.splits dest: AdmitMember_minted)

lemma credentials_numbered:
  "c \<in> set (credentials evs f) \<Longrightarrow> \<exists>n > fk_minted f. numbered n c"
proof (induction evs arbitrary: f)
  case (Cons ev evs)
  then have "c \<in> set (credentials_of ev f) \<or> c \<in> set (credentials evs (fake_step ev f))"
    by simp
  then show ?case
  proof
    assume "c \<in> set (credentials_of ev f)"
    then show ?thesis
      using credentials_of_numbered [of ev f] by (intro exI [of _ "fk_minted f + 1"]) auto
  next
    assume "c \<in> set (credentials evs (fake_step ev f))"
    then obtain n where "n > fk_minted (fake_step ev f)" "numbered n c"
      using Cons.IH by blast
    then show ?thesis
      using minted_step [of ev f] by (intro exI [of _ n]) simp
  qed
qed simp

lemma credentials_distinct: "0 \<le> fk_minted f \<Longrightarrow> distinct (credentials evs f)"
proof (induction evs arbitrary: f)
  case (Cons ev evs)
  have rest: "distinct (credentials evs (fake_step ev f))"
    by (rule Cons.IH) (use Cons.prems minted_step [of ev f] in simp)
  show ?case
  proof (cases "credentials_of ev f = []")
    case True
    with rest show ?thesis by simp
  next
    case False
    then obtain c where c: "credentials_of ev f = [c]" "numbered (fk_minted f + 1) c"
      using credentials_of_numbered [of ev f] by blast
    have "c \<notin> set (credentials evs (fake_step ev f))"
    proof
      assume "c \<in> set (credentials evs (fake_step ev f))"
      then obtain n where n: "n > fk_minted (fake_step ev f)" "numbered n c"
        using credentials_numbered by blast
      have "n = fk_minted f + 1"
        using numbered_unique [OF n(2) c(2)] n(1) Cons.prems c(1) minted_step [of ev f] by simp
      with n(1) c(1) minted_step [of ev f] show False by simp
    qed
    with rest c(1) show ?thesis by simp
  qed
qed simp

text \<open>
  No credential is minted twice.  In any run of the unit, rooms destroyed and created again and
  members revoked and admitted again included, the credentials handed out are pairwise distinct.
\<close>

theorem credentials_are_never_reused: "distinct (credentials events empty_unit)"
  by (rule credentials_distinct) simp

subsection \<open>Revocation and observation\<close>

text \<open>
  A member revoked is a member absent from the next read: they are not in the room, nothing of
  theirs is published and they receive nothing and nobody receives them, while every other
  member, source and subscription of the room stays exactly as it was.
\<close>

theorem RevokeMember_leaves_no_trace:
  assumes "Fake_RevokeMember expired r m f = (None, f')"
  shows "\<not> Admitted r m f' \<and> (\<forall>k. \<not> SourcePublished r \<lparr>src_member = m, src_kind = k\<rparr> f') \<and>
         (\<forall>s. \<not> Subscribed r m s f') \<and>
         (\<forall>n. Admitted r n f' \<longleftrightarrow> Admitted r n f \<and> n \<noteq> m) \<and>
         (\<forall>n s. Subscribed r n s f' \<longleftrightarrow> Subscribed r n s f \<and> n \<noteq> m \<and> src_member s \<noteq> m) \<and>
         (\<forall>s. SourcePublished r s f' \<longleftrightarrow> SourcePublished r s f \<and> src_member s \<noteq> m)"
  using assms
  by (auto simp: Fake_RevokeMember_def Let_def refuse_Some record_call_def Admitted_def Subscribed_def
      SourcePublished_def put_room_def split: option.splits if_splits)

theorem RevokeMember_leaves_no_trace_witness:
  "let f' = snd (Fake_RevokeMember False ''r'' ''m'' two_unit) in
   \<not> Admitted ''r'' ''m'' f' \<and> (\<forall>k. \<not> SourcePublished ''r'' \<lparr>src_member = ''m'', src_kind = k\<rparr> f') \<and>
   (\<forall>s. \<not> Subscribed ''r'' ''m'' s f') \<and>
   (\<forall>n. Admitted ''r'' n f' \<longleftrightarrow> Admitted ''r'' n two_unit \<and> n \<noteq> ''m'') \<and>
   (\<forall>n s. Subscribed ''r'' n s f' \<longleftrightarrow>
      Subscribed ''r'' n s two_unit \<and> n \<noteq> ''m'' \<and> src_member s \<noteq> ''m'') \<and>
   (\<forall>s. SourcePublished ''r'' s f' \<longleftrightarrow> SourcePublished ''r'' s two_unit \<and> src_member s \<noteq> ''m'')"
  unfolding Let_def
  by (rule RevokeMember_leaves_no_trace [where expired = False])
    (simp add: Fake_RevokeMember_def Let_def begin_call_def two_unit_rooms two_unit_rest
      record_call_def put_room_def)

text \<open>
  What a reading of the unit lists: the members admitted, each once, in the order of their names,
  whatever order the range visits them in.
\<close>

lemma sort_by_name:
  assumes ok: "gm_ok rm" and name: "\<And>m c. (m, c) \<in> set rm \<Longrightarrow> name (g (m, c)) = m"
  shows "map name (sort_key name (map g rm)) = sorted_list_of_set (set (map fst rm))"
proof -
  have names: "map name (map g rm) = map fst rm"
    using name by auto
  have "map name (sort_key name (map g rm)) = sort (map name (map g rm))"
    by (rule sym [OF properties_for_sort]) (simp_all add: multiset.map_comp)
  also have "\<dots> = sorted_list_of_set (set (map fst rm))"
    unfolding names by (rule sort_distinct_is_sorted_list_of_set [OF ok])
  finally show ?thesis .
qed

lemma admitted_set:
  "map_of (fk_rooms f) r = Some rm \<Longrightarrow> {m. Admitted r m f} = set (map fst (rm_members rm))"
  unfolding gm_dom [symmetric] by (simp add: Admitted_def dom_def)

lemma SpeakingState_lists_the_members:
  assumes "fake_inv f" and "Fake_SpeakingState expired r f = (out, None, f')"
  shows "map sp_member out = sorted_list_of_set {m. Admitted r m f}"
proof -
  obtain rm where rm: "map_of (fk_rooms f) r = Some rm"
    and out: "out = sort_key sp_member
      (map (\<lambda>(m, _). \<lparr>sp_member = m, sp_speaking = flagged (rm_speaking rm) m\<rparr>) (rm_members rm))"
    using assms(2)
    by (auto simp: Fake_SpeakingState_def Let_def refuse_Some record_call_def split: option.splits if_splits)
  have "{m. Admitted r m f} = set (map fst (rm_members rm))"
    by (rule admitted_set [OF rm])
  moreover have "map sp_member out = sorted_list_of_set (set (map fst (rm_members rm)))"
    unfolding out using fake_inv_room [OF assms(1) rm]
    by (intro sort_by_name) (simp_all add: room_ok_def)
  ultimately show ?thesis by simp
qed

lemma HopMetrics_lists_the_members:
  assumes "fake_inv f" and "Fake_HopMetrics expired now r f = (out, None, f')"
  shows "map hop_member out = sorted_list_of_set {m. Admitted r m f}"
proof -
  obtain rm where rm: "map_of (fk_rooms f) r = Some rm"
    and out: "out = sort_key hop_member
      (map (\<lambda>(m, _). case map_of (rm_hops rm) m of
                    Some hop \<Rightarrow> hop
                  | None \<Rightarrow> \<lparr>hop_member = m, hop_delay = 0, hop_loss = Fin 0, hop_observed = now m\<rparr>)
              (rm_members rm))"
    using assms(2)
    by (auto simp: Fake_HopMetrics_def Let_def refuse_Some record_call_def split: option.splits if_splits)
  have "{m. Admitted r m f} = set (map fst (rm_members rm))"
    by (rule admitted_set [OF rm])
  moreover have "map hop_member out = sorted_list_of_set (set (map fst (rm_members rm)))"
    unfolding out using fake_inv_room [OF assms(1) rm]
    by (intro sort_by_name) (auto simp: room_ok_def split: option.splits)
  ultimately show ?thesis by simp
qed

text \<open>
  The gain check compares only: the value that is not a number passes every range, the one a test
  fixed included.
\<close>

lemma NaN_gain_is_in_every_range:
  assumes "\<not> expired" and "\<not> fk_unreachable f" and "fk_gainSupported f"
    and "Subscribed r subscriber source f"
  shows "fst (Fake_SetSubscriberGain expired r subscriber source NaN (SetGainRange low high f)) = None"
proof -
  have "float_less x NaN = False" for x
    by (cases x) simp_all
  with assms show ?thesis
    by (simp add: Fake_SetSubscriberGain_def Let_def begin_call_def SetGainRange_def Subscribed_def)
qed

end
