(* ===== verification/Config_File.thy ===== *)
theory Config_File
  imports Go_Numbers "HOL-Library.Sublist"
begin

text \<open>
  \<^verbatim>\<open>internal/config/config.go\<close>: the table of settings, the parser of a configuration file and
  the report of defaulted keys.  A setting's \<^verbatim>\<open>apply\<close> returns the changed configuration and the
  detail of a refusal.  A refusal is a value of \<open>config_error\<close> that carries what its message
  quotes.  The contents of the file \<^verbatim>\<open>Load\<close> reads are an argument, \<open>None\<close> when the read fails.
\<close>

subsection \<open>The settings\<close>

record Config =
  cfg_GracePeriod :: duration
  cfg_ResumeWindow :: duration
  cfg_ResumeBreadth :: int
  cfg_StorePath :: string
  cfg_LogDestination :: string
  cfg_Defaulted :: "string list"

definition zero_Config :: Config where
  "zero_Config = \<lparr>cfg_GracePeriod = 0, cfg_ResumeWindow = 0, cfg_ResumeBreadth = 0, cfg_StorePath = [],
                  cfg_LogDestination = [], cfg_Defaulted = []\<rparr>"

definition DefaultGracePeriod :: string where "DefaultGracePeriod = ''30s''"

definition DefaultResumeWindow :: string where "DefaultResumeWindow = ''30s''"

definition DefaultResumeBreadth :: string where "DefaultResumeBreadth = ''64''"

definition DefaultLogDestination :: string where "DefaultLogDestination = ''stdout''"

datatype refusal_detail =
    NotADuration
  | PeriodNotPositive
  | NotAWholeNumber
  | NoBreadth
  | InMemoryStore
  | FileURI
  | NoLogFile

record setting =
  set_name :: string
  set_why :: string
  set_expected :: string
  set_fallback :: string
  set_faulty :: string
  set_apply :: "Config \<Rightarrow> string \<Rightarrow> Config \<times> refusal_detail option"

definition positiveDuration :: "string \<Rightarrow> duration \<times> refusal_detail option" where
  "positiveDuration raw =
     (case ParseDuration raw of
        None \<Rightarrow> (0, Some NotADuration)
      | Some d \<Rightarrow> if d \<le> 0 then (0, Some PeriodNotPositive) else (d, None))"

definition has_prefix :: "string \<Rightarrow> string \<Rightarrow> bool" where
  "has_prefix p s \<longleftrightarrow> take (length p) s = p"

definition apply_grace :: "Config \<Rightarrow> string \<Rightarrow> Config \<times> refusal_detail option" where
  "apply_grace c raw = (let (d, err) = positiveDuration raw in (c\<lparr>cfg_GracePeriod := d\<rparr>, err))"

definition apply_window :: "Config \<Rightarrow> string \<Rightarrow> Config \<times> refusal_detail option" where
  "apply_window c raw = (let (d, err) = positiveDuration raw in (c\<lparr>cfg_ResumeWindow := d\<rparr>, err))"

definition apply_breadth :: "Config \<Rightarrow> string \<Rightarrow> Config \<times> refusal_detail option" where
  "apply_breadth c raw =
     (case Atoi raw of
        None \<Rightarrow> (c, Some NotAWholeNumber)
      | Some n \<Rightarrow> if n \<le> 0 then (c, Some NoBreadth) else (c\<lparr>cfg_ResumeBreadth := n\<rparr>, None))"

definition apply_store :: "Config \<Rightarrow> string \<Rightarrow> Config \<times> refusal_detail option" where
  "apply_store c raw =
     (if raw = '':memory:'' then (c, Some InMemoryStore)
      else if has_prefix ''file:'' raw then (c, Some FileURI)
      else (c\<lparr>cfg_StorePath := raw\<rparr>, None))"

definition apply_log :: "Config \<Rightarrow> string \<Rightarrow> Config \<times> refusal_detail option" where
  "apply_log c raw =
     (if raw \<noteq> ''stdout'' \<and> raw \<noteq> ''stderr'' then (c, Some NoLogFile)
      else (c\<lparr>cfg_LogDestination := raw\<rparr>, None))"

definition settings :: "setting list" where
  "settings =
     [\<lparr>set_name = ''grace-period'',
       set_why = ''how long a room is held open after its last member leaves'',
       set_expected = ''a positive duration such as 30s'',
       set_fallback = DefaultGracePeriod, set_faulty = ''0s'', set_apply = apply_grace\<rparr>,
      \<lparr>set_name = ''resume-window'',
       set_why = ''how long a dropped client may claim its session back'',
       set_expected = ''a positive duration such as 30s'',
       set_fallback = DefaultResumeWindow, set_faulty = ''-5s'', set_apply = apply_window\<rparr>,
      \<lparr>set_name = ''resume-breadth'',
       set_why = ''how many changed channels a resume answer names before it sends the whole state instead'',
       set_expected = ''a positive whole number'',
       set_fallback = DefaultResumeBreadth, set_faulty = ''0'', set_apply = apply_breadth\<rparr>,
      \<lparr>set_name = ''store-path'',
       set_why = ''the file the durable store lives in'',
       set_expected = ''a filesystem path'',
       set_fallback = [], set_faulty = '':memory:'', set_apply = apply_store\<rparr>,
      \<lparr>set_name = ''log-destination'',
       set_why = ''where this process writes its log'',
       set_expected = ''stdout or stderr'',
       set_fallback = DefaultLogDestination, set_faulty = ''/var/log/stammtisch.log'',
       set_apply = apply_log\<rparr>]"

definition declaredSetting :: "string \<Rightarrow> setting option" where
  "declaredSetting name = find (\<lambda>s. set_name s = name) settings"

definition declaredNames :: "string list" where
  "declaredNames = map set_name settings"

subsection \<open>Parsing\<close>

datatype config_error =
    NotASettingLine nat string
  | NamesNoKey nat
  | HasNoValue nat string
  | UndeclaredKey nat string "string list"
  | SetAgain nat string nat
  | NotSet string string
  | BadValue string string string refusal_detail
  | ReadingFailed string

text \<open>The lines of a file, numbered from one, and what the first loop collects of them.\<close>

record collected =
  col_seen :: "(string, nat) gomap"
  col_values :: "(string, string) gomap"

definition TrimSuffixCR :: "string \<Rightarrow> string" where
  "TrimSuffixCR s = (if s \<noteq> [] \<and> last s = CHR 0x0D then butlast s else s)"

definition collect_line :: "nat \<Rightarrow> string \<Rightarrow> collected \<Rightarrow> config_error + collected" where
  "collect_line number raw_line col =
     (let line = TrimSpace (TrimSuffixCR raw_line) in
      if line = [] \<or> has_prefix ''#'' line then Inr col
      else case str_cut (CHR ''='') line of
        None \<Rightarrow> Inl (NotASettingLine number line)
      | Some (k, v) \<Rightarrow>
          let key = TrimSpace k; raw = TrimSpace v in
          if key = [] then Inl (NamesNoKey number)
          else if raw = [] then Inl (HasNoValue number key)
          else if declaredSetting key = None then Inl (UndeclaredKey number key declaredNames)
          else case map_of (col_seen col) key of
            Some first \<Rightarrow> Inl (SetAgain number key first)
          | None \<Rightarrow>
              Inr \<lparr>col_seen = AList.update key number (col_seen col),
                   col_values = AList.update key raw (col_values col)\<rparr>)"

fun collect :: "nat \<Rightarrow> string list \<Rightarrow> collected \<Rightarrow> config_error + collected" where
  "collect i [] col = Inr col"
| "collect i (line # lines) col =
     (case collect_line (i + 1) line col of
        Inl err \<Rightarrow> Inl err
      | Inr col' \<Rightarrow> collect (i + 1) lines col')"

text \<open>The second loop: each setting in turn, from its value or its default.\<close>

definition apply_setting :: "(string, string) gomap \<Rightarrow> setting \<Rightarrow> Config \<Rightarrow> config_error + Config" where
  "apply_setting values s c =
     (let attempt = (\<lambda>c raw.
        (case set_apply s c raw of
           (c', None) \<Rightarrow> Inr c'
         | (c', Some detail) \<Rightarrow> Inl (BadValue (set_name s) raw (set_expected s) detail)))
      in case map_of values (set_name s) of
           Some raw \<Rightarrow> attempt c raw
         | None \<Rightarrow>
             if set_fallback s = [] then Inl (NotSet (set_name s) (set_why s))
             else attempt (c\<lparr>cfg_Defaulted := cfg_Defaulted c @ [set_name s]\<rparr>) (set_fallback s))"

fun apply_settings :: "(string, string) gomap \<Rightarrow> setting list \<Rightarrow> Config \<Rightarrow> config_error + Config" where
  "apply_settings values [] c = Inr c"
| "apply_settings values (s # ss) c =
     (case apply_setting values s c of Inl err \<Rightarrow> Inl err | Inr c' \<Rightarrow> apply_settings values ss c')"

definition Parse :: "string \<Rightarrow> config_error + Config" where
  "Parse txt =
     (case collect 0 (str_split (CHR 0x0A) txt) \<lparr>col_seen = [], col_values = []\<rparr> of
        Inl err \<Rightarrow> Inl err
      | Inr col \<Rightarrow> apply_settings (col_values col) settings zero_Config)"

definition Load :: "string \<Rightarrow> string option \<Rightarrow> config_error + Config" where
  "Load path contents = (case contents of None \<Rightarrow> Inl (ReadingFailed path) | Some b \<Rightarrow> Parse b)"

text \<open>\<open>None\<close> is the panic on a name no setting has.\<close>

definition Report :: "Config \<Rightarrow> string list option" where
  "Report c =
     those (map (\<lambda>name.
       map_option (\<lambda>s. ''configuration: '' @ name @ '' is not set, and this run uses the default '' @ set_fallback s)
         (declaredSetting name)) (cfg_Defaulted c))"

subsection \<open>The table\<close>

lemma declaredNames_eq:
  "declaredNames = [''grace-period'', ''resume-window'', ''resume-breadth'', ''store-path'', ''log-destination'']"
  by (simp add: declaredNames_def settings_def)

lemma declaredSetting_iff: "declaredSetting key \<noteq> None \<longleftrightarrow> key \<in> set declaredNames"
  by (auto simp: declaredSetting_def declaredNames_def find_None_iff)

text \<open>A whole number of seconds, written in decimal, is read as that duration.\<close>

lemma digits_grow: "y \<le> foldl (\<lambda>acc c. 10 * acc + digit_value c) y ds"
proof (induction ds arbitrary: y)
  case (Cons d ds)
  have "y \<le> 10 * y + digit_value d" by simp
  also note Cons.IH [of "10 * y + digit_value d"]
  finally show ?case by simp
qed simp

lemma leading_int_digits:
  assumes "list_all is_digit ds" and "foldl (\<lambda>acc c. 10 * acc + digit_value c) x ds \<le> 2 ^ 63"
    and "rest = [] \<or> \<not> is_digit (hd rest)"
  shows "leading_int x (ds @ rest) = Some (foldl (\<lambda>acc c. 10 * acc + digit_value c) x ds, rest)"
  using assms(1,2)
proof (induction ds arbitrary: x)
  case Nil
  then show ?case using assms(3) by (cases rest) auto
next
  case (Cons d ds)
  have le: "10 * x + digit_value d \<le> 2 ^ 63"
    using Cons.prems(2) digits_grow [of "10 * x + digit_value d" ds] by simp
  then have "\<not> x > 2 ^ 63 div 10" by simp
  with le Cons show ?case by (simp add: Let_def mult.commute)
qed

lemma duration_parts_seconds:
  assumes "n * 1000000000 < 2 ^ 63"
  shows "duration_parts 0 (dec_nat n @ ''s'') = Some (n * 1000000000)"
proof -
  have digits: "list_all is_digit (dec_nat n)"
    using dec_nat_digits by (fastforce simp: list_all_iff is_digit_def)
  obtain d ds where d: "dec_nat n = d # ds" "is_digit d"
    using digits by (cases "dec_nat n") auto
  have val: "foldl (\<lambda>acc c. 10 * acc + digit_value c) 0 (dec_nat n) = n"
    using undec_dec_nat [of n] by (simp add: undec_def digit_value_def)
  have lead: "leading_int 0 (dec_nat n @ ''s'') = Some (n, ''s'')"
    using leading_int_digits [OF digits, of 0 "''s''"] val assms by (simp add: is_digit_def)
  have "duration_part (dec_nat n @ ''s'') = Some (n * 1000000000, [])"
    using lead d assms
    by (simp add: duration_part_def unit_char_def duration_unit_def is_digit_def Let_def)
  then show ?thesis
    using assms by (simp add: duration_parts.simps [of 0] duration_parts.simps [of _ "[]"])
qed

lemma seconds_text:
  "dec_nat n @ ''s'' \<noteq> ''0''" "hd (dec_nat n @ ''s'') \<noteq> CHR ''-''" "hd (dec_nat n @ ''s'') \<noteq> CHR ''+''"
proof -
  obtain d where "d < 10" "hd (dec_nat n) = dec_digit d"
    using dec_nat_digits [of "hd (dec_nat n)" n] by auto
  then have "is_digit (hd (dec_nat n @ ''s''))"
    by (simp add: is_digit_def)
  then show "hd (dec_nat n @ ''s'') \<noteq> CHR ''-''" "hd (dec_nat n @ ''s'') \<noteq> CHR ''+''"
    by (auto simp: is_digit_def)
  show "dec_nat n @ ''s'' \<noteq> ''0''"
    by (metis dec_nat_nonempty append_is_Nil_conv butlast_snoc butlast.simps(2))
qed

lemma ParseDuration_seconds:
  assumes "n * 1000000000 < 2 ^ 63"
  shows "ParseDuration (dec_nat n @ ''s'') = Some (int n * Second)"
    and "ParseDuration (CHR ''-'' # dec_nat n @ ''s'') = Some (- (int n * Second))"
  using duration_parts_seconds [OF assms] seconds_text [of n] assms
  by (simp_all add: ParseDuration_def Let_def Second_def)

lemma dec_nat_30: "dec_nat 30 = ''30''"
  by code_simp

lemma default_durations: "ParseDuration ''30s'' = Some (30 * Second)"
  using ParseDuration_seconds(1) [of 30] by (simp add: dec_nat_30)

lemma faulty_durations: "ParseDuration ''0s'' = Some 0" "ParseDuration ''-5s'' = Some (- 5 * Second)"
proof -
  have "dec_nat 0 = ''0''" "dec_nat 5 = ''5''" by code_simp+
  then show "ParseDuration ''0s'' = Some 0" "ParseDuration ''-5s'' = Some (- 5 * Second)"
    using ParseDuration_seconds(1) [of 0] ParseDuration_seconds(2) [of 5] by simp_all
qed

subsection \<open>Reading lines\<close>

text \<open>A file as an operator writes one: blank lines, comments and assignments.\<close>

datatype config_line = Blank | Comment string | Assign string string

definition plain_text :: "string \<Rightarrow> bool" where
  "plain_text s \<longleftrightarrow> s \<noteq> [] \<and> plain_char (hd s) \<and> plain_char (last s) \<and> CHR 0x0A \<notin> set s"

fun line_text :: "config_line \<Rightarrow> string" where
  "line_text Blank = []"
| "line_text (Comment s) = CHR ''#'' # s"
| "line_text (Assign k v) = k @ '' = '' @ v"

fun line_fine :: "config_line \<Rightarrow> bool" where
  "line_fine Blank = True"
| "line_fine (Comment s) = (s = [] \<or> plain_char (last s) \<and> CHR 0x0A \<notin> set s)"
| "line_fine (Assign k v) = (k \<in> set declaredNames \<and> plain_text v)"

fun assigns :: "config_line list \<Rightarrow> (string \<times> string) list" where
  "assigns [] = []"
| "assigns (Assign k v # ls) = (k, v) # assigns ls"
| "assigns (_ # ls) = assigns ls"

definition config_text :: "config_line list \<Rightarrow> string" where
  "config_text ls = concat (map (\<lambda>l. line_text l @ [CHR 0x0A]) ls)"

lemma trim_space: "trim_left (CHR '' '' # s) = trim_left s" "trim_right (s @ [CHR '' '']) = trim_right s"
  by (subst trim_left.simps, simp add: decode_rune_ascii is_space_rune_def del: decode_rune.simps)
    (subst trim_right.simps, simp add: decode_last_rune_def is_space_rune_def)

lemma trim_plain_text:
  assumes "plain_text s"
  shows "TrimSpace s = s" "TrimSpace (s @ '' '') = s" "TrimSpace (CHR '' '' # s) = s"
proof -
  obtain a b where s: "s = hd s # a" "s = b @ [last s]"
    using assms by (metis append_butlast_last_id list.collapse plain_text_def)
  have "s @ '' '' = hd s # (a @ '' '')"
    by (subst s(1)) simp
  then have l: "trim_left s = s" "trim_left (s @ '' '') = s @ '' ''"
    using assms s(1) trim_left_plain [of "hd s"] unfolding plain_text_def by metis+
  have r: "trim_right s = s"
    using assms s(2) trim_right_plain [of "last s" b] by (simp add: plain_text_def)
  then show "TrimSpace s = s" "TrimSpace (s @ '' '') = s" "TrimSpace (CHR '' '' # s) = s"
    using l trim_space(2) [of s] by (simp_all add: TrimSpace_def trim_space(1))
qed

lemma plain_names: "k \<in> set declaredNames \<Longrightarrow> plain_text k \<and> CHR ''='' \<notin> set k \<and> CHR ''#'' \<notin> set k"
  by (auto simp: declaredNames_eq plain_text_def plain_char_def)

lemma not_CR: "s \<noteq> [] \<Longrightarrow> plain_char (last s) \<Longrightarrow> TrimSuffixCR s = s"
  by (auto simp: TrimSuffixCR_def plain_char_def)

lemma collect_assign:
  assumes "line_fine (Assign k v)" and "map_of (col_seen col) k = None"
  shows "collect_line n (line_text (Assign k v)) col =
    Inr \<lparr>col_seen = AList.update k n (col_seen col), col_values = AList.update k v (col_values col)\<rparr>"
proof -
  have k: "plain_text k" "CHR ''='' \<notin> set k" "CHR ''#'' \<notin> set k" and v: "plain_text v"
    using assms(1) plain_names by auto
  let ?l = "k @ '' = '' @ v"
  have "?l \<noteq> []" "hd ?l = hd k" "last ?l = last v" "k \<noteq> []"
    using k v by (simp_all add: plain_text_def)
  moreover have "plain_char (hd k)" "plain_char (last v)"
    using k v by (simp_all add: plain_text_def)
  ultimately have "trimmed ?l" "TrimSuffixCR ?l = ?l"
    using trimmed_plain [of ?l] not_CR [of ?l] by metis+
  then have line: "TrimSpace (TrimSuffixCR ?l) = ?l"
    by (simp only: trimmed_def)
  have "\<not> has_prefix ''#'' ?l"
    using k \<open>k \<noteq> []\<close> by (cases k) (auto simp: has_prefix_def)
  moreover have "str_cut (CHR ''='') ?l = Some (k @ '' '', '' '' @ v)"
    using str_cut_append [of "CHR ''=''" "k @ '' ''" "'' '' @ v"] k(2) by simp
  moreover have "declaredSetting k \<noteq> None"
    using assms(1) unfolding declaredSetting_iff by simp
  ultimately show ?thesis
    using line trim_plain_text [OF k(1)] trim_plain_text [OF v] assms(2) k(1) v
    by (simp add: collect_line_def Let_def plain_text_def)
qed

lemma collect_comment:
  assumes "line_fine (Comment s)"
  shows "collect_line n (line_text (Comment s)) col = Inr col"
proof -
  let ?l = "CHR ''#'' # s"
  have ends: "plain_char (last ?l)" "plain_char (hd ?l)"
    using assms by (auto simp: plain_char_def)
  then have "TrimSpace (TrimSuffixCR ?l) = ?l"
    using not_CR [of ?l] trimmed_plain [of ?l] by (simp add: trimmed_def)
  then show ?thesis
    by (simp add: collect_line_def has_prefix_def)
qed

lemma collect_blank: "collect_line n [] col = Inr col"
  by (simp add: collect_line_def TrimSuffixCR_def)

lemma collect_lines:
  assumes "list_all line_fine ls" and "distinct (map fst (assigns ls))"
    and "\<And>k. k \<in> fst ` set (assigns ls) \<Longrightarrow> map_of (col_seen col) k = None"
  shows "\<exists>seen. collect n (map line_text ls @ [[]]) col =
    Inr \<lparr>col_seen = seen, col_values = fold (\<lambda>(k, v). AList.update k v) (assigns ls) (col_values col)\<rparr>"
  using assms
proof (induction ls arbitrary: n col)
  case Nil
  then show ?case by (cases col) (simp add: collect_blank)
next
  case (Cons l ls)
  show ?case
  proof (cases l)
    case (Assign k v)
    let ?col = "\<lparr>col_seen = AList.update k (n + 1) (col_seen col), col_values = AList.update k v (col_values col)\<rparr>"
    have "collect_line (n + 1) (line_text l) col = Inr ?col"
      using collect_assign [of k v col "n + 1"] Cons.prems Assign by simp
    moreover have "\<exists>seen. collect (n + 1) (map line_text ls @ [[]]) ?col =
        Inr \<lparr>col_seen = seen, col_values = fold (\<lambda>(k, v). AList.update k v) (assigns ls) (col_values ?col)\<rparr>"
      by (rule Cons.IH) (use Cons.prems Assign in auto)
    ultimately show ?thesis using Assign by simp
  next
    case Blank
    then show ?thesis using Cons collect_blank by simp
  next
    case (Comment s)
    then show ?thesis using Cons collect_comment by simp
  qed
qed

lemma line_no_newline: "line_fine l \<Longrightarrow> CHR 0x0A \<notin> set (line_text l)"
  using plain_names by (cases l) (auto simp: plain_text_def)

lemma split_config_text:
  "list_all line_fine ls \<Longrightarrow> str_split (CHR 0x0A) (config_text ls) = map line_text ls @ [[]]"
  by (induction ls) (simp_all add: config_text_def str_split_sep line_no_newline)

lemma map_of_fold_update:
  "distinct (map fst kvs) \<Longrightarrow> map_of (fold (\<lambda>(k, v). AList.update k v) kvs m) = map_of m ++ map_of kvs"
proof (induction kvs arbitrary: m)
  case (Cons kv kvs)
  obtain k v where kv: "kv = (k, v)" by (cases kv)
  have "map_of kvs k = None"
    using Cons.prems kv by (simp add: map_of_eq_None_iff)
  with Cons kv show ?case by (auto simp: map_add_def fun_eq_iff split: option.splits)
qed simp

lemma apply_setting_cong: "map_of vs = map_of ws \<Longrightarrow> apply_setting vs s c = apply_setting ws s c"
  by (simp add: apply_setting_def)

lemma apply_settings_cong: "map_of vs = map_of ws \<Longrightarrow> apply_settings vs ss c = apply_settings ws ss c"
proof (induction ss arbitrary: c)
  case (Cons s ss)
  have "apply_setting vs s c = apply_setting ws s c"
    by (rule apply_setting_cong [OF Cons.prems])
  with Cons show ?case by (cases "apply_setting ws s c") simp_all
qed simp

lemma Parse_config_text:
  assumes "list_all line_fine ls" and "distinct (map fst (assigns ls))"
  shows "Parse (config_text ls) = apply_settings (assigns ls) settings zero_Config"
proof -
  obtain seen where "collect 0 (map line_text ls @ [[]]) \<lparr>col_seen = [], col_values = []\<rparr> =
      Inr \<lparr>col_seen = seen, col_values = fold (\<lambda>(k, v). AList.update k v) (assigns ls) []\<rparr>"
    using collect_lines [OF assms, of "\<lparr>col_seen = [], col_values = []\<rparr>" 0] by auto
  then have "Parse (config_text ls) =
      apply_settings (fold (\<lambda>(k, v). AList.update k v) (assigns ls) []) settings zero_Config"
    by (simp only: Parse_def split_config_text [OF assms(1)] sum.case collected.simps)
  also have "\<dots> = apply_settings (assigns ls) settings zero_Config"
    by (rule apply_settings_cong) (simp add: map_of_fold_update [OF assms(2)])
  finally show ?thesis .
qed

subsection \<open>What was accepted\<close>

lemma positiveDuration_ok: "positiveDuration raw = (d, None) \<Longrightarrow> 0 < d \<and> d \<le> max_duration"
  using ParseDuration_range by (auto simp: positiveDuration_def split: option.splits if_splits)

lemma Atoi_range: "Atoi s = Some n \<Longrightarrow> - (2 ^ 63) \<le> n \<and> n < 2 ^ 63"
  by (auto simp: Atoi_def Let_def split: if_splits)

definition config_ok :: "Config \<Rightarrow> bool" where
  "config_ok c \<longleftrightarrow>
     0 < cfg_GracePeriod c \<and> cfg_GracePeriod c \<le> max_duration \<and>
     0 < cfg_ResumeWindow c \<and> cfg_ResumeWindow c \<le> max_duration \<and>
     0 < cfg_ResumeBreadth c \<and> cfg_ResumeBreadth c < 2 ^ 63 \<and>
     cfg_StorePath c \<noteq> [] \<and> cfg_StorePath c \<noteq> '':memory:'' \<and> \<not> has_prefix ''file:'' (cfg_StorePath c) \<and>
     cfg_LogDestination c \<in> {''stdout'', ''stderr''}"

lemma apply_setting_Inr:
  assumes "apply_setting values s c = Inr c'"
  obtains raw c0 where "set_apply s c0 raw = (c', None)" and "c0 = c \<or> c0 = c\<lparr>cfg_Defaulted := cfg_Defaulted c @ [set_name s]\<rparr>"
    and "map_of values (set_name s) = Some raw \<or> raw = set_fallback s \<and> raw \<noteq> []"
proof (cases "map_of values (set_name s)")
  case (Some raw)
  then show ?thesis
    using assms that [of c raw] by (auto simp: apply_setting_def split: prod.splits option.splits)
next
  case None
  then show ?thesis
    using assms that [of "c\<lparr>cfg_Defaulted := cfg_Defaulted c @ [set_name s]\<rparr>" "set_fallback s"]
    by (auto simp: apply_setting_def split: prod.splits option.splits if_splits)
qed

text \<open>What each setting's own field satisfies once applied; the others are left as they were.\<close>

lemma apply_grace_Inr: "apply_grace c raw = (c', None) \<Longrightarrow>
    \<exists>d. 0 < d \<and> d \<le> max_duration \<and> c' = c\<lparr>cfg_GracePeriod := d\<rparr>"
  using positiveDuration_ok by (auto simp: apply_grace_def split: prod.splits)

lemma apply_window_Inr: "apply_window c raw = (c', None) \<Longrightarrow>
    \<exists>d. 0 < d \<and> d \<le> max_duration \<and> c' = c\<lparr>cfg_ResumeWindow := d\<rparr>"
  using positiveDuration_ok by (auto simp: apply_window_def split: prod.splits)

lemma apply_breadth_Inr: "apply_breadth c raw = (c', None) \<Longrightarrow>
    \<exists>n. 0 < n \<and> n < 2 ^ 63 \<and> c' = c\<lparr>cfg_ResumeBreadth := n\<rparr>"
proof (cases "Atoi raw")
  case (Some n)
  assume "apply_breadth c raw = (c', None)"
  with Some Atoi_range [OF Some] show ?thesis
    by (intro exI [of _ n]) (auto simp: apply_breadth_def split: if_splits)
qed (simp add: apply_breadth_def)

lemma apply_store_Inr: "apply_store c raw = (c', None) \<Longrightarrow>
    raw \<noteq> '':memory:'' \<and> \<not> has_prefix ''file:'' raw \<and> c' = c\<lparr>cfg_StorePath := raw\<rparr>"
  by (auto simp: apply_store_def split: if_splits)

lemma apply_log_Inr: "apply_log c raw = (c', None) \<Longrightarrow>
    raw \<in> {''stdout'', ''stderr''} \<and> c' = c\<lparr>cfg_LogDestination := raw\<rparr>"
  by (auto simp: apply_log_def split: if_splits)

lemma apply_settings_Cons_Inr:
  assumes "apply_settings values (s # ss) c = Inr c'"
  obtains c1 where "apply_setting values s c = Inr c1" and "apply_settings values ss c1 = Inr c'"
  using assms by (auto split: sum.splits)

definition nonempty_values :: "collected \<Rightarrow> bool" where
  "nonempty_values col \<longleftrightarrow>
     (\<forall>k v. map_of (col_values col) k = Some v \<longrightarrow> v \<noteq> [] \<and> k \<in> set declaredNames)"

lemma collect_line_cases:
  assumes "collect_line n line col = Inr col'"
  shows "col' = col \<or>
    (\<exists>k v. k \<in> set declaredNames \<and> v \<noteq> [] \<and>
       col' = \<lparr>col_seen = AList.update k n (col_seen col), col_values = AList.update k v (col_values col)\<rparr>)"
proof -
  have "k \<in> set declaredNames" if "declaredSetting k \<noteq> None" for k
    using that declaredSetting_iff by blast
  then show ?thesis
    using assms unfolding collect_line_def Let_def
    by (auto split: if_splits option.splits prod.splits)
qed

lemma collect_line_nonempty:
  assumes "collect_line n line col = Inr col'" and "nonempty_values col"
  shows "nonempty_values col'"
  using collect_line_cases [OF assms(1)] assms(2)
  by (auto simp: nonempty_values_def split: if_splits) blast

lemma collect_nonempty:
  "collect n ls col = Inr col' \<Longrightarrow> nonempty_values col \<Longrightarrow> nonempty_values col'"
  by (induction n ls col rule: collect.induct) (auto split: sum.splits dest: collect_line_nonempty)

lemma apply_settings_steps:
  assumes "apply_settings values settings zero_Config = Inr c"
  obtains c1 c2 c3 c4 where
    "apply_setting values (settings ! 0) zero_Config = Inr c1" "apply_setting values (settings ! Suc 0) c1 = Inr c2"
    "apply_setting values (settings ! 2) c2 = Inr c3" "apply_setting values (settings ! 3) c3 = Inr c4"
    "apply_setting values (settings ! 4) c4 = Inr c"
  using assms by (auto simp: settings_def split: sum.splits)

lemma setting_fields:
  "set_apply (settings ! 0) = apply_grace" "set_apply (settings ! Suc 0) = apply_window"
  "set_apply (settings ! 2) = apply_breadth" "set_apply (settings ! 3) = apply_store"
  "set_apply (settings ! 4) = apply_log" "set_name (settings ! 3) = ''store-path''"
  "set_fallback (settings ! 3) = []"
  "set_name (settings ! Suc 0) = ''resume-window''" "set_fallback (settings ! Suc 0) = ''30s''"
  "set_name (settings ! 2) = ''resume-breadth''" "set_fallback (settings ! 2) = ''64''"
  by (simp_all add: settings_def DefaultResumeWindow_def DefaultResumeBreadth_def)

lemma apply_settings_ok:
  assumes "apply_settings values settings zero_Config = Inr c"
    and "\<And>v. map_of values ''store-path'' = Some v \<Longrightarrow> v \<noteq> []"
  shows "config_ok c"
proof -
  note fields = setting_fields
  obtain c1 c2 c3 c4 where steps:
    "apply_setting values (settings ! 0) zero_Config = Inr c1" "apply_setting values (settings ! Suc 0) c1 = Inr c2"
    "apply_setting values (settings ! 2) c2 = Inr c3" "apply_setting values (settings ! 3) c3 = Inr c4"
    "apply_setting values (settings ! 4) c4 = Inr c"
    using assms(1) by (rule apply_settings_steps)
  from steps(1) have 1: "0 < cfg_GracePeriod c1 \<and> cfg_GracePeriod c1 \<le> max_duration"
    by (rule apply_setting_Inr) (auto simp: fields dest!: apply_grace_Inr)
  from steps(2) have 2: "0 < cfg_ResumeWindow c2 \<and> cfg_ResumeWindow c2 \<le> max_duration \<and>
      cfg_GracePeriod c2 = cfg_GracePeriod c1"
    by (rule apply_setting_Inr) (auto simp: fields dest!: apply_window_Inr)
  from steps(3) have 3: "0 < cfg_ResumeBreadth c3 \<and> cfg_ResumeBreadth c3 < 2 ^ 63 \<and>
      cfg_GracePeriod c3 = cfg_GracePeriod c2 \<and> cfg_ResumeWindow c3 = cfg_ResumeWindow c2"
    by (rule apply_setting_Inr) (auto simp: fields dest!: apply_breadth_Inr)
  from steps(4) have 4: "cfg_StorePath c4 \<noteq> [] \<and> cfg_StorePath c4 \<noteq> '':memory:'' \<and>
      \<not> has_prefix ''file:'' (cfg_StorePath c4) \<and> cfg_GracePeriod c4 = cfg_GracePeriod c3 \<and>
      cfg_ResumeWindow c4 = cfg_ResumeWindow c3 \<and> cfg_ResumeBreadth c4 = cfg_ResumeBreadth c3"
    by (rule apply_setting_Inr) (use assms(2) in \<open>auto simp: fields dest!: apply_store_Inr\<close>)
  from steps(5) have 5: "cfg_LogDestination c \<in> {''stdout'', ''stderr''} \<and> cfg_StorePath c = cfg_StorePath c4 \<and>
      cfg_GracePeriod c = cfg_GracePeriod c4 \<and>
      cfg_ResumeWindow c = cfg_ResumeWindow c4 \<and> cfg_ResumeBreadth c = cfg_ResumeBreadth c4"
    by (rule apply_setting_Inr) (auto simp: fields dest!: apply_log_Inr)
  show ?thesis
    using 1 2 3 4 5 unfolding config_ok_def by metis
qed

text \<open>The values behind the defaults of the resumption.\<close>

lemma apply_settings_resume_defaults:
  assumes "apply_settings values settings zero_Config = Inr c"
  shows "(map_of values ''resume-window'' = None \<longrightarrow> cfg_ResumeWindow c = 30 * Second) \<and>
     (map_of values ''resume-breadth'' = None \<longrightarrow> cfg_ResumeBreadth c = 64)"
proof -
  obtain c1 c2 c3 c4 where steps:
    "apply_setting values (settings ! 0) zero_Config = Inr c1" "apply_setting values (settings ! Suc 0) c1 = Inr c2"
    "apply_setting values (settings ! 2) c2 = Inr c3" "apply_setting values (settings ! 3) c3 = Inr c4"
    "apply_setting values (settings ! 4) c4 = Inr c"
    using assms by (rule apply_settings_steps)
  have n: "Atoi ''64'' = Some 64"
    by (simp add: Atoi_def is_digit_def digit_value_def Let_def)
  from steps(2) have 2: "map_of values ''resume-window'' = None \<longrightarrow> cfg_ResumeWindow c2 = 30 * Second"
    by (rule apply_setting_Inr)
      (auto simp only: setting_fields apply_window_def positiveDuration_def default_durations Let_def
        split: prod.splits option.splits if_splits, simp_all)
  from steps(3) have 3: "(map_of values ''resume-breadth'' = None \<longrightarrow> cfg_ResumeBreadth c3 = 64) \<and>
      cfg_ResumeWindow c3 = cfg_ResumeWindow c2"
    by (rule apply_setting_Inr) (auto simp: setting_fields apply_breadth_def n split: option.splits if_splits)
  from steps(4) have 4: "cfg_ResumeBreadth c4 = cfg_ResumeBreadth c3 \<and> cfg_ResumeWindow c4 = cfg_ResumeWindow c3"
    by (rule apply_setting_Inr) (auto simp: setting_fields dest!: apply_store_Inr)
  from steps(5) have 5: "cfg_ResumeBreadth c = cfg_ResumeBreadth c4 \<and> cfg_ResumeWindow c = cfg_ResumeWindow c4"
    by (rule apply_setting_Inr) (auto simp: setting_fields dest!: apply_log_Inr)
  show ?thesis using 2 3 4 5 by simp
qed

lemma Parse_Inr:
  assumes "Parse txt = Inr c"
  obtains col where "collect 0 (str_split (CHR 0x0A) txt) \<lparr>col_seen = [], col_values = []\<rparr> = Inr col"
    and "apply_settings (col_values col) settings zero_Config = Inr c" and "nonempty_values col"
proof -
  obtain col where col: "collect 0 (str_split (CHR 0x0A) txt) \<lparr>col_seen = [], col_values = []\<rparr> = Inr col"
      "apply_settings (col_values col) settings zero_Config = Inr c"
    using assms by (auto simp: Parse_def split: sum.splits)
  have "nonempty_values col"
    by (rule collect_nonempty [OF col(1)]) (simp add: nonempty_values_def)
  with col show ?thesis by (rule that)
qed

lemma apply_setting_Defaulted:
  assumes "apply_setting values s c = Inr c'" and "s \<in> set settings"
  shows "cfg_Defaulted c' = cfg_Defaulted c @ (if map_of values (set_name s) = None then [set_name s] else [])"
proof -
  have "cfg_Defaulted c2 = cfg_Defaulted c1" if "set_apply s c1 raw = (c2, None)" for c1 c2 raw
    using that assms(2)
    by (auto simp: settings_def apply_grace_def apply_window_def apply_breadth_def apply_store_def apply_log_def
        split: prod.splits option.splits if_splits)
  with assms(1) show ?thesis
    by (auto simp: apply_setting_def split: option.splits if_splits prod.splits)
qed

lemma apply_settings_Defaulted:
  "apply_settings values ss c = Inr c' \<Longrightarrow> set ss \<subseteq> set settings \<Longrightarrow>
   cfg_Defaulted c' = cfg_Defaulted c @ filter (\<lambda>k. map_of values k = None) (map set_name ss)"
  by (induction ss arbitrary: c) (auto split: sum.splits dest: apply_setting_Defaulted)

lemma those_map_Some: "(\<And>x. x \<in> set xs \<Longrightarrow> f x \<noteq> None) \<Longrightarrow> those (map f xs) = Some (map (the \<circ> f) xs)"
proof (induction xs)
  case (Cons x xs)
  then have "f x \<noteq> None" "those (map f xs) = Some (map (the \<circ> f) xs)" by simp_all
  then show ?case by auto
qed simp

lemma Report_total:
  assumes "set (cfg_Defaulted c) \<subseteq> set declaredNames"
  shows "\<exists>lines. Report c = Some lines \<and> length lines = length (cfg_Defaulted c)"
proof -
  have "declaredSetting k \<noteq> None" if "k \<in> set (cfg_Defaulted c)" for k
    using that assms unfolding declaredSetting_iff by blast
  then show ?thesis
    unfolding Report_def by (subst those_map_Some) auto
qed

subsection \<open>Properties\<close>

definition ex_lines :: "config_line list" where
  "ex_lines = [Comment '' a voice server'', Blank, Assign ''store-path'' ''/var/lib/st.db'',
               Assign ''resume-breadth'' ''16'']"

definition ex_config :: Config where
  "ex_config = \<lparr>cfg_GracePeriod = 30 * Second, cfg_ResumeWindow = 30 * Second, cfg_ResumeBreadth = 16,
     cfg_StorePath = ''/var/lib/st.db'', cfg_LogDestination = ''stdout'',
     cfg_Defaulted = [''grace-period'', ''resume-window'', ''log-destination'']\<rparr>"

lemma ex_lines_fine: "list_all line_fine ex_lines" "distinct (map fst (assigns ex_lines))"
  by (simp_all add: ex_lines_def declaredNames_eq plain_text_def plain_char_def)

lemma ex_apply: "apply_settings (assigns ex_lines) settings zero_Config = Inr ex_config"
  by (simp add: ex_lines_def settings_def apply_setting_def apply_grace_def apply_window_def
      apply_breadth_def apply_store_def apply_log_def positiveDuration_def default_durations
      DefaultGracePeriod_def DefaultResumeWindow_def DefaultLogDestination_def zero_Config_def
      ex_config_def Second_def Atoi_def is_digit_def digit_value_def has_prefix_def Let_def)

lemma ex_Parse: "Parse (config_text ex_lines) = Inr ex_config"
  using Parse_config_text [OF ex_lines_fine] ex_apply by simp

text \<open>
  C20: Whatever text is accepted, the configuration is one the server can run on: both periods are
  positive durations, the breadth is a positive \<^verbatim>\<open>int\<close>, the store path is not empty and names
  neither the in-memory database nor a URI, and the log goes to one of the two streams.  The keys
  that took their default are in the order of the table, and each is reported by one line.
\<close>

theorem accepted_configurations_are_valid:
  assumes "Parse txt = Inr c"
  shows "config_ok c \<and> subseq (cfg_Defaulted c) declaredNames \<and>
     (\<exists>lines. Report c = Some lines \<and> length lines = length (cfg_Defaulted c))"
proof -
  obtain col where col: "apply_settings (col_values col) settings zero_Config = Inr c" "nonempty_values col"
    using assms by (rule Parse_Inr)
  have "config_ok c"
    by (rule apply_settings_ok [OF col(1)]) (use col(2) in \<open>auto simp: nonempty_values_def\<close>)
  moreover have d: "cfg_Defaulted c = filter (\<lambda>k. map_of (col_values col) k = None) declaredNames"
    using apply_settings_Defaulted [OF col(1)] by (simp add: declaredNames_def zero_Config_def)
  moreover have "subseq (cfg_Defaulted c) declaredNames"
    unfolding d by (rule subseq_filter_left)
  moreover have "\<exists>lines. Report c = Some lines \<and> length lines = length (cfg_Defaulted c)"
    by (rule Report_total) (auto simp: d)
  ultimately show ?thesis by blast
qed

theorem accepted_configurations_are_valid_witness:
  "config_ok ex_config \<and> subseq (cfg_Defaulted ex_config) declaredNames"
  using accepted_configurations_are_valid [OF ex_Parse] by blast

text \<open>
  C21: What an operator writes is what is read.  A file of blank lines, comments and assignments of
  distinct declared keys parses to exactly what the table makes of those assignments, and so in
  whatever order the lines stand.  An assignment is written as the key, a space, an equals sign, a space and the
  value, and a value or a comment that is not empty ends, and a value starts, with a printable character that no
  trimming takes away.
\<close>

theorem configuration_text_round_trips:
  assumes "list_all line_fine ls" and "distinct (map fst (assigns ls))"
    and "list_all line_fine ls'" and "mset (assigns ls') = mset (assigns ls)"
  shows "Parse (config_text ls) = apply_settings (assigns ls) settings zero_Config \<and>
     Parse (config_text ls') = Parse (config_text ls)"
proof -
  have "mset (map fst (assigns ls')) = mset (map fst (assigns ls))"
    using assms(4) by simp
  then have d: "distinct (map fst (assigns ls'))"
    using assms(2) mset_eq_imp_distinct_iff by blast
  have "map_of (assigns ls') = map_of (assigns ls)"
    using assms(2) d mset_eq_setD [OF assms(4)] map_of_inject_set by blast
  then have "apply_settings (assigns ls') settings zero_Config = apply_settings (assigns ls) settings zero_Config"
    by (rule apply_settings_cong)
  then show ?thesis
    using Parse_config_text [OF assms(1,2)] Parse_config_text [OF assms(3) d] by simp
qed

theorem configuration_text_round_trips_witness:
  "Parse (config_text (rev ex_lines)) = Inr ex_config"
proof -
  have "list_all line_fine (rev ex_lines)" "mset (assigns (rev ex_lines)) = mset (assigns ex_lines)"
    using ex_lines_fine by (simp_all add: ex_lines_def)
  from configuration_text_round_trips [OF ex_lines_fine this] ex_apply show ?thesis by simp
qed

text \<open>
  The table is total.  Every setting refuses the faulty value listed with it, whatever the
  configuration so far; its default, where it has one, is accepted; exactly one setting has none.
\<close>

theorem settings_refuse_their_faults:
  "list_all (\<lambda>s. snd (set_apply s c (set_faulty s)) \<noteq> None) settings \<and>
   list_all (\<lambda>s. set_fallback s = [] \<or> snd (set_apply s c (set_fallback s)) = None) settings \<and>
   map set_name (filter (\<lambda>s. set_fallback s = []) settings) = [''store-path'']"
  by (simp add: settings_def apply_grace_def apply_window_def apply_breadth_def apply_store_def
      apply_log_def positiveDuration_def default_durations faulty_durations DefaultGracePeriod_def
      DefaultResumeWindow_def DefaultResumeBreadth_def DefaultLogDestination_def Second_def
      Atoi_def is_digit_def digit_value_def has_prefix_def Let_def)

end
