(* ===== verification/Log_Record.thy ===== *)
theory Log_Record
  imports Go_Numbers
begin

text \<open>
  The log of \<^verbatim>\<open>internal/logging/logging.go\<close>: which values may become fields, and the one line
  \<^verbatim>\<open>Record\<close> writes.  \<^verbatim>\<open>unicode.IsPrint\<close> above Latin-1 is a table of the Unicode standard and
  stands as the argument \<open>wide\<close>.  The writer is an argument too: it takes the line and its own
  state and answers with an error or none.  The mutex makes a record one write.
\<close>

subsection \<open>Identifiers\<close>

definition MaxIdentifierLength :: nat where "MaxIdentifierLength = 128"

datatype identifier_fault =
    TooLong nat
  | NoAtSign
  | PartEmpty string
  | PartHasSeparator string
  | PartNotPrintable string

record Identifier =
  ident_s :: string

definition zero_Identifier :: Identifier where
  "zero_Identifier = \<lparr>ident_s = []\<rparr>"

definition Identifier_IsZero :: "Identifier \<Rightarrow> bool" where
  "Identifier_IsZero i \<longleftrightarrow> ident_s i = []"

definition Identifier_String :: "Identifier \<Rightarrow> string" where
  "Identifier_String i = ident_s i"

definition is_print :: "(nat \<Rightarrow> bool) \<Rightarrow> nat \<Rightarrow> bool" where
  "is_print wide r \<longleftrightarrow>
     (if r \<le> 255 then (32 \<le> r \<and> r \<le> 126) \<or> (161 \<le> r \<and> r \<noteq> 173) else wide r)"

definition checkPart :: "(nat \<Rightarrow> bool) \<Rightarrow> string \<Rightarrow> string \<Rightarrow> identifier_fault option" where
  "checkPart wide what s =
     (if s = [] then Some (PartEmpty what)
      else if CHR ''@'' \<in> set s then Some (PartHasSeparator what)
      else if list_ex (\<lambda>r. is_space_rune r \<or> \<not> is_print wide r) (go_runes s)
           then Some (PartNotPrintable what)
      else None)"

definition NewIdentifier :: "(nat \<Rightarrow> bool) \<Rightarrow> string \<Rightarrow> identifier_fault + Identifier" where
  "NewIdentifier wide s =
     (if length s > MaxIdentifierLength then Inl (TooLong (length s))
      else
        (case str_cut (CHR ''@'') s of
           None \<Rightarrow> Inl NoAtSign
         | Some (lcl, host) \<Rightarrow>
             (case checkPart wide ''local part'' lcl of
                Some err \<Rightarrow> Inl err
              | None \<Rightarrow>
                  (case checkPart wide ''host'' host of
                     Some err \<Rightarrow> Inl err
                   | None \<Rightarrow> Inr \<lparr>ident_s = s\<rparr>))))"

subsection \<open>Events, keys and fields\<close>

type_synonym Event = "8 word"

definition ProtocolAgreed :: Event where "ProtocolAgreed = 1"

definition ProtocolRefused :: Event where "ProtocolRefused = 2"

definition SessionOpened :: Event where "SessionOpened = 3"

definition SessionRefused :: Event where "SessionRefused = 4"

definition SessionClosed :: Event where "SessionClosed = 5"

definition ClientAttached :: Event where "ClientAttached = 6"

definition ClientDetached :: Event where "ClientDetached = 7"

definition ChannelSubscribed :: Event where "ChannelSubscribed = 8"

definition ChannelUnsubscribed :: Event where "ChannelUnsubscribed = 9"

definition MemberEntered :: Event where "MemberEntered = 10"

definition MemberLeft :: Event where "MemberLeft = 11"

definition PresenceDelivered :: Event where "PresenceDelivered = 12"

lemmas event_defs =
  ProtocolAgreed_def ProtocolRefused_def SessionOpened_def SessionRefused_def SessionClosed_def
  ClientAttached_def ClientDetached_def ChannelSubscribed_def ChannelUnsubscribed_def
  MemberEntered_def MemberLeft_def PresenceDelivered_def

definition Event_String :: "Event \<Rightarrow> string" where
  "Event_String e =
     (if e = ProtocolAgreed then ''protocol-agreed''
      else if e = ProtocolRefused then ''protocol-refused''
      else if e = SessionOpened then ''session-opened''
      else if e = SessionRefused then ''session-refused''
      else if e = SessionClosed then ''session-closed''
      else if e = ClientAttached then ''client-attached''
      else if e = ClientDetached then ''client-detached''
      else if e = ChannelSubscribed then ''channel-subscribed''
      else if e = ChannelUnsubscribed then ''channel-unsubscribed''
      else if e = MemberEntered then ''member-entered''
      else if e = MemberLeft then ''member-left''
      else if e = PresenceDelivered then ''presence-delivered''
      else [])"

type_synonym log_key = "8 word"

definition keyAt :: log_key where "keyAt = 1"

definition keyEvent :: log_key where "keyEvent = 2"

definition keySpace :: log_key where "keySpace = 3"

definition keyChannel :: log_key where "keyChannel = 4"

definition keyMember :: log_key where "keyMember = 5"

definition keyClient :: log_key where "keyClient = 6"

definition keyVersion :: log_key where "keyVersion = 7"

definition keyCount :: log_key where "keyCount = 8"

definition keyHeld :: log_key where "keyHeld = 9"

lemmas key_defs =
  keyAt_def keyEvent_def keySpace_def keyChannel_def keyMember_def keyClient_def keyVersion_def
  keyCount_def keyHeld_def

definition keyNames :: "(log_key, string) gomap" where
  "keyNames =
     [(keyAt, ''at''), (keyEvent, ''event''), (keySpace, ''space''), (keyChannel, ''channel''),
      (keyMember, ''member''), (keyClient, ''client''), (keyVersion, ''version''),
      (keyCount, ''count''), (keyHeld, ''held'')]"

definition key_String :: "log_key \<Rightarrow> string" where
  "key_String k = (case map_of keyNames k of None \<Rightarrow> [] | Some n \<Rightarrow> n)"

definition declaredKeys :: "log_key list" where
  "declaredKeys =
     [keyAt, keyEvent, keySpace, keyChannel, keyMember, keyClient, keyVersion, keyCount, keyHeld]"

record Field =
  fld_k :: log_key
  fld_v :: string

definition zero_Field :: Field where
  "zero_Field = \<lparr>fld_k = 0, fld_v = []\<rparr>"

definition identifierField :: "log_key \<Rightarrow> Identifier \<Rightarrow> Field" where
  "identifierField k i = (if Identifier_IsZero i then zero_Field else \<lparr>fld_k = k, fld_v = ident_s i\<rparr>)"

definition Log_Space :: "Identifier \<Rightarrow> Field" where "Log_Space i = identifierField keySpace i"

definition Log_Channel :: "Identifier \<Rightarrow> Field" where "Log_Channel i = identifierField keyChannel i"

definition Log_Member :: "Identifier \<Rightarrow> Field" where "Log_Member i = identifierField keyMember i"

definition Log_Client :: "Identifier \<Rightarrow> Field" where "Log_Client i = identifierField keyClient i"

definition Log_Version :: "16 word \<Rightarrow> Field" where
  "Log_Version v = \<lparr>fld_k = keyVersion, fld_v = itoa (uint v)\<rparr>"

definition Log_Count :: "int \<Rightarrow> Field" where
  "Log_Count n = \<lparr>fld_k = keyCount, fld_v = itoa n\<rparr>"

text \<open>
  \<^verbatim>\<open>Duration.Round\<close>: half away from zero, with the ends of the range where the result would leave it.
  \<^verbatim>\<open>Milliseconds\<close> divides towards zero.
\<close>

definition duration_round :: "duration \<Rightarrow> duration \<Rightarrow> duration" where
  "duration_round d m =
     (if m \<le> 0 then d
      else
        (let r = \<bar>d\<bar> mod m
         in if d < 0 then
              (if 2 * r < m then d + r
               else if d - m + r \<ge> min_duration then d - m + r else min_duration)
            else
              (if 2 * r < m then d - r
               else if d + m - r \<le> max_duration then d + m - r else max_duration)))"

definition go_quot :: "int \<Rightarrow> int \<Rightarrow> int" where
  "go_quot a b = sgn a * (\<bar>a\<bar> div b)"

definition Log_Held :: "duration \<Rightarrow> Field" where
  "Log_Held d =
     \<lparr>fld_k = keyHeld, fld_v = itoa (go_quot (duration_round d Millisecond) Millisecond) @ ''ms''\<rparr>"

subsection \<open>The time stamp\<close>

text \<open>
  \<^verbatim>\<open>Format(time.RFC3339)\<close> of a time in UTC: the date of a day number in the proleptic Gregorian
  calendar, counted in eras of 400 years that start on a first of March, and the time of day.
\<close>

definition civil_of_days :: "int \<Rightarrow> int \<times> int \<times> int" where
  "civil_of_days days =
     (let z = days + 719468;
          era = z div 146097;
          doe = z mod 146097;
          yoe = (doe - doe div 1460 + doe div 36524 - doe div 146096) div 365;
          doy = doe - (365 * yoe + yoe div 4 - yoe div 100);
          mp = (5 * doy + 2) div 153;
          d = doy - (153 * mp + 2) div 5 + 1;
          m = (if mp < 10 then mp + 3 else mp - 9)
      in (yoe + era * 400 + (if m \<le> 2 then 1 else 0), m, d))"

definition pad_number :: "nat \<Rightarrow> int \<Rightarrow> string" where
  "pad_number w i =
     (let ds = dec_nat (nat \<bar>i\<bar>)
      in (if i < 0 then ''-'' else []) @ replicate (w - length ds) (CHR ''0'') @ ds)"

definition rfc3339 :: "instant \<Rightarrow> string" where
  "rfc3339 t =
     (let s = time_unix t; (y, m, d) = civil_of_days (s div 86400); sod = s mod 86400
      in pad_number 4 y @ ''-'' @ pad_number 2 m @ ''-'' @ pad_number 2 d @ ''T'' @
         pad_number 2 (sod div 3600) @ '':'' @ pad_number 2 (sod mod 3600 div 60) @ '':'' @
         pad_number 2 (sod mod 60) @ ''Z'')"

lemma rfc3339_examples:
  "rfc3339 0 = ''1970-01-01T00:00:00Z''"
  "rfc3339 951827696000000000 = ''2000-02-29T12:34:56Z''"
  "rfc3339 (- 1) = ''1969-12-31T23:59:59Z''"
  "rfc3339 4107542399999999999 = ''2100-02-28T23:59:59Z''"
  by code_simp+

subsection \<open>Recording\<close>

datatype record_fault =
    UnknownEvent "8 word"
  | UnnamedField
  | GivenTwice log_key

datatype 'e record_error = ErrRefused record_fault | WritingRecord 'e

datatype incomplete = NoWriter | NoClock

record ('w, 'e) Log =
  log_writer :: "string \<Rightarrow> 'w \<Rightarrow> 'e option \<times> 'w"

definition New_Log :: "(string \<Rightarrow> 'w \<Rightarrow> 'e option \<times> 'w) option \<Rightarrow> bool \<Rightarrow> incomplete + ('w, 'e) Log" where
  "New_Log w clock =
     (case w of
        None \<Rightarrow> Inl NoWriter
      | Some f \<Rightarrow> if \<not> clock then Inl NoClock else Inr \<lparr>log_writer = f\<rparr>)"

fun gather :: "Field list \<Rightarrow> (log_key, string) gomap \<Rightarrow> record_fault + (log_key, string) gomap" where
  "gather [] given = Inr given"
| "gather (f # fs) given =
     (if fld_k f = 0 then Inl UnnamedField
      else if gm_has given (fld_k f) then Inl (GivenTwice (fld_k f))
      else gather fs (AList.update (fld_k f) (fld_v f) given))"

fun build_line :: "(log_key, string) gomap \<Rightarrow> log_key list \<Rightarrow> string \<Rightarrow> string" where
  "build_line given [] b = b @ [CHR 0x0A]"
| "build_line given (k # ks) b =
     (case map_of given k of
        None \<Rightarrow> build_line given ks b
      | Some v \<Rightarrow> build_line given ks (b @ (if b \<noteq> [] then '' '' else []) @ key_String k @ ''='' @ v))"

definition record_line :: "instant \<Rightarrow> Event \<Rightarrow> Field list \<Rightarrow> record_fault + string" where
  "record_line now e fs =
     (let name = Event_String e in
      if name = [] then Inl (UnknownEvent e)
      else
        (case gather fs [] of
           Inl err \<Rightarrow> Inl err
         | Inr given \<Rightarrow>
             Inr (build_line (AList.update keyEvent name (AList.update keyAt (rfc3339 now) given))
                    declaredKeys [])))"

definition Record :: "('w, 'e) Log \<Rightarrow> instant \<Rightarrow> Event \<Rightarrow> Field list \<Rightarrow> 'w \<Rightarrow> 'e record_error option \<times> 'w" where
  "Record l now e fs w =
     (case record_line now e fs of
        Inl err \<Rightarrow> (Some (ErrRefused err), w)
      | Inr line \<Rightarrow> apfst (map_option WritingRecord) (log_writer l line w))"

subsection \<open>Values that stay on their line\<close>

definition clean :: "string \<Rightarrow> bool" where
  "clean v \<longleftrightarrow> CHR '' '' \<notin> set v \<and> CHR 0x0A \<notin> set v"

lemma clean_append [simp]: "clean (a @ b) \<longleftrightarrow> clean a \<and> clean b"
  by (auto simp: clean_def)

lemma clean_Nil [simp]: "clean []"
  by (simp add: clean_def)

lemma clean_Cons [simp]: "clean (c # v) \<longleftrightarrow> c \<noteq> CHR '' '' \<and> c \<noteq> CHR 0x0A \<and> clean v"
  by (auto simp: clean_def)

lemma clean_dec_nat [simp]: "clean (dec_nat n)"
proof -
  have "48 \<le> byte_val c" if "c \<in> set (dec_nat n)" for c
    using dec_nat_digits [OF that] by auto
  from this [of "CHR '' ''"] this [of "CHR 0x0A"] show ?thesis by (auto simp: clean_def)
qed

lemma clean_replicate [simp]: "clean (replicate n (CHR ''0''))"
  by (simp add: clean_def)

lemma clean_itoa [simp]: "clean (itoa i)"
  by (simp add: itoa_def)

lemma clean_pad [simp]: "clean (pad_number w i)"
  by (simp add: pad_number_def Let_def)

lemma clean_rfc3339 [simp]: "clean (rfc3339 t)"
  by (simp add: rfc3339_def Let_def split: prod.split)

lemma clean_Event_String [simp]: "clean (Event_String e)"
  by (simp add: Event_String_def)

lemma checkPart_clean: "checkPart wide what s = None \<Longrightarrow> clean s"
proof -
  assume "checkPart wide what s = None"
  then have none: "\<not> (\<exists>r \<in> set (go_runes s). is_space_rune r \<or> \<not> is_print wide r)"
    by (auto simp: checkPart_def list_ex_iff split: if_splits)
  have "(\<exists>r \<in> set (go_runes s). r = 32 \<or> r = 10) \<longleftrightarrow> (\<exists>c \<in> set s. byte_val c = 32 \<or> byte_val c = (10::nat))"
    by (rule runes_ascii_scan) auto
  moreover have "is_space_rune 32" "is_space_rune 10" by (simp_all add: is_space_rune_def)
  ultimately have "\<forall>c \<in> set s. byte_val c \<noteq> (32::nat) \<and> byte_val c \<noteq> (10::nat)" using none by blast
  moreover have "byte_val (CHR '' '') = (32::nat)" "byte_val (CHR 0x0A) = (10::nat)" by simp_all
  ultimately show "clean s" unfolding clean_def by metis
qed

lemma NewIdentifier_clean:
  assumes "NewIdentifier wide s = Inr i"
  shows "ident_s i = s \<and> clean s \<and> s \<noteq> []"
proof -
  obtain l h where cut: "str_cut (CHR ''@'') s = Some (l, h)" "checkPart wide ''local part'' l = None"
      "checkPart wide ''host'' h = None" "i = \<lparr>ident_s = s\<rparr>"
    using assms by (auto simp: NewIdentifier_def split: if_splits option.splits)
  from str_cut_SomeD [OF cut(1)] have "s = l @ CHR ''@'' # h" by simp
  with cut show ?thesis using checkPart_clean by auto
qed

text \<open>
  The fields a caller outside the package can hold: the zero value and what the constructors make
  of identifiers \<open>NewIdentifier\<close> returned.
\<close>

definition known_identifier :: "(nat \<Rightarrow> bool) \<Rightarrow> Identifier \<Rightarrow> bool" where
  "known_identifier wide i \<longleftrightarrow> i = zero_Identifier \<or> (\<exists>s. NewIdentifier wide s = Inr i)"

inductive built :: "(nat \<Rightarrow> bool) \<Rightarrow> Field \<Rightarrow> bool" for wide where
  built_zero: "built wide zero_Field"
| built_space: "known_identifier wide i \<Longrightarrow> built wide (Log_Space i)"
| built_channel: "known_identifier wide i \<Longrightarrow> built wide (Log_Channel i)"
| built_member: "known_identifier wide i \<Longrightarrow> built wide (Log_Member i)"
| built_client: "known_identifier wide i \<Longrightarrow> built wide (Log_Client i)"
| built_version: "built wide (Log_Version v)"
| built_count: "built wide (Log_Count n)"
| built_held: "built wide (Log_Held d)"

lemma identifierField_clean: "known_identifier wide i \<Longrightarrow> clean (fld_v (identifierField k i))"
  using NewIdentifier_clean
  by (auto simp: known_identifier_def identifierField_def zero_Field_def zero_Identifier_def)

lemma built_clean: "built wide f \<Longrightarrow> clean (fld_v f)"
  by (induction rule: built.induct)
    (simp_all add: zero_Field_def Log_Space_def Log_Channel_def Log_Member_def Log_Client_def
      identifierField_clean Log_Version_def Log_Count_def Log_Held_def)

definition caller_keys :: "log_key list" where
  "caller_keys = [keySpace, keyChannel, keyMember, keyClient, keyVersion, keyCount, keyHeld]"

lemma declaredKeys_eq: "declaredKeys = keyAt # keyEvent # caller_keys"
  by (simp add: declaredKeys_def caller_keys_def)

lemma built_key: "built wide f \<Longrightarrow> fld_k f = 0 \<or> fld_k f \<in> set caller_keys"
  by (cases rule: built.cases)
    (auto simp: identifierField_def zero_Field_def Log_Space_def Log_Channel_def Log_Member_def
      Log_Client_def Log_Version_def Log_Count_def Log_Held_def caller_keys_def)

subsection \<open>What is gathered and what is written\<close>

definition recordable :: "Event \<Rightarrow> Field list \<Rightarrow> bool" where
  "recordable e fs \<longleftrightarrow> Event_String e \<noteq> [] \<and> 0 \<notin> set (map fld_k fs) \<and> distinct (map fld_k fs)"

lemma gather_eq:
  "(\<exists>g'. gather fs g = Inr g') \<longleftrightarrow>
     0 \<notin> set (map fld_k fs) \<and> distinct (map fld_k fs) \<and> (\<forall>f \<in> set fs. map_of g (fld_k f) = None)"
  by (induction fs arbitrary: g) (auto split: if_splits, metis imageI)

lemma gather_lookup:
  assumes "gather fs g = Inr g'"
  shows "map_of g' k = (case filter (\<lambda>f. fld_k f = k) fs of [] \<Rightarrow> map_of g k | f # _ \<Rightarrow> Some (fld_v f))"
  using assms
proof (induction fs arbitrary: g)
  case (Cons f fs)
  let ?g = "AList.update (fld_k f) (fld_v f) g"
  have rest: "gather fs ?g = Inr g'" using Cons.prems by (simp split: if_splits)
  then have "\<forall>x \<in> set fs. map_of ?g (fld_k x) = None" using gather_eq [of fs ?g] by blast
  then have "filter (\<lambda>x. fld_k x = fld_k f) fs = []" by (auto simp: filter_empty_conv)
  with Cons.IH [OF rest] show ?case by (auto split: list.split)
qed simp

definition pairs_of :: "(log_key, string) gomap \<Rightarrow> log_key list \<Rightarrow> (string \<times> string) list" where
  "pairs_of given ks =
     concat (map (\<lambda>k. case map_of given k of None \<Rightarrow> [] | Some v \<Rightarrow> [(key_String k, v)]) ks)"

definition pair_text :: "string \<times> string \<Rightarrow> string" where
  "pair_text p = fst p @ ''='' @ snd p"

lemma str_join_Cons: "str_join c (w # ws) = w @ concat (map ((#) c) ws)"
  by (induction ws arbitrary: w) simp_all

lemma build_line_more:
  "b \<noteq> [] \<Longrightarrow> build_line given ks b = b @ concat (map ((#) (CHR '' '')) (map pair_text (pairs_of given ks))) @ [CHR 0x0A]"
  by (induction ks arbitrary: b) (auto simp: pairs_of_def pair_text_def split: option.split)

lemma build_line_eq:
  "build_line given ks [] = str_join (CHR '' '') (map pair_text (pairs_of given ks)) @ [CHR 0x0A]"
proof (induction ks)
  case (Cons k ks)
  show ?case
  proof (cases "map_of given k")
    case None
    with Cons show ?thesis by (simp add: pairs_of_def)
  next
    case (Some v)
    have more: "build_line given ks (key_String k @ ''='' @ v) =
        (key_String k @ ''='' @ v) @
        concat (map ((#) (CHR '' '')) (map pair_text (pairs_of given ks))) @ [CHR 0x0A]"
      by (rule build_line_more) simp
    with Some show ?thesis
      by (simp add: pairs_of_def str_join_Cons) (simp add: pair_text_def)
  qed
qed (simp add: pairs_of_def)

subsection \<open>Reading a line back\<close>

definition read_record :: "string \<Rightarrow> (string \<times> string) list option" where
  "read_record line =
     (if line = [] \<or> last line \<noteq> CHR 0x0A then None
      else those (map (str_cut (CHR ''='')) (str_split (CHR '' '') (butlast line))))"

lemma those_Some: "those (map Some xs) = Some xs"
  by (induction xs) simp_all

lemma key_String_clean: "clean (key_String k) \<and> CHR ''='' \<notin> set (key_String k)"
proof (cases "map_of keyNames k")
  case (Some n)
  then have "n \<in> set (map snd keyNames)" by (force dest: map_of_SomeD)
  then have "clean n \<and> CHR ''='' \<notin> set n" by (auto simp: keyNames_def)
  with Some show ?thesis by (simp add: key_String_def)
qed (simp add: key_String_def)

lemma read_built_line:
  assumes "ps \<noteq> []" and "\<forall>(n, v) \<in> set ps. clean n \<and> CHR ''='' \<notin> set n \<and> clean v"
  shows "read_record (str_join (CHR '' '') (map pair_text ps) @ [CHR 0x0A]) = Some ps"
proof -
  have "list_all (\<lambda>w. CHR '' '' \<notin> set w) (map pair_text ps)"
    using assms(2) by (fastforce simp: list_all_iff pair_text_def clean_def)
  then have "str_split (CHR '' '') (str_join (CHR '' '') (map pair_text ps)) = map pair_text ps"
    using assms(1) by (intro str_split_join) simp_all
  moreover have "str_cut (CHR ''='') (pair_text p) = Some p" if "p \<in> set ps" for p
    using that assms(2) str_cut_append [of "CHR ''=''" "fst p" "snd p"] by (force simp: pair_text_def)
  then have "map (str_cut (CHR ''='')) (map pair_text ps) = map Some ps" by simp
  ultimately show ?thesis by (simp add: read_record_def those_Some del: map_map)
qed

lemma joined_one_line:
  "\<forall>(n, v) \<in> set ps. clean n \<and> clean v \<Longrightarrow>
     CHR 0x0A \<notin> set (str_join (CHR '' '') (map pair_text ps))"
  by (induction ps rule: induct_list012) (auto simp: pair_text_def clean_def)

text \<open>The pairs of a record, said over the fields given.\<close>

definition record_fields :: "instant \<Rightarrow> Event \<Rightarrow> Field list \<Rightarrow> (string \<times> string) list" where
  "record_fields now e fs =
     (''at'', rfc3339 now) # (''event'', Event_String e) #
     concat (map (\<lambda>k. map (\<lambda>f. (key_String k, fld_v f)) (filter (\<lambda>f. fld_k f = k) fs)) caller_keys)"

lemma filter_distinct_key:
  "distinct (map g xs) \<Longrightarrow> filter (\<lambda>x. g x = k) xs = [] \<or> (\<exists>x. filter (\<lambda>x. g x = k) xs = [x])"
proof (induction xs)
  case (Cons x xs)
  show ?case
  proof (cases "g x = k")
    case True
    then have "filter (\<lambda>x. g x = k) xs = []"
      using Cons.prems by (simp add: filter_empty_conv) (metis imageI)
    with True show ?thesis by simp
  next
    case False
    with Cons show ?thesis by simp
  qed
qed simp

lemma mset_short_eq: "mset xs = mset ys \<Longrightarrow> xs = [] \<or> (\<exists>x. xs = [x]) \<Longrightarrow> xs = ys"
  by (auto dest: mset_eq_length simp: length_Suc_conv)

lemma record_line_pairs:
  assumes "gather fs [] = Inr given" and "\<forall>f \<in> set fs. fld_k f \<in> set caller_keys"
  shows "pairs_of (AList.update keyEvent (Event_String e) (AList.update keyAt (rfc3339 now) given)) declaredKeys =
     record_fields now e fs"
proof -
  let ?g = "AList.update keyEvent (Event_String e) (AList.update keyAt (rfc3339 now) given)"
  have dis: "distinct (map fld_k fs)"
    using assms(1) gather_eq [of fs "[]"] by blast
  have caller: "(case map_of ?g k of None \<Rightarrow> [] | Some v \<Rightarrow> [(key_String k, v)]) =
      map (\<lambda>f. (key_String k, fld_v f)) (filter (\<lambda>f. fld_k f = k) fs)" if "k \<in> set caller_keys" for k
  proof -
    have "k \<noteq> keyAt" "k \<noteq> keyEvent" using that by (auto simp: caller_keys_def key_defs)
    then show ?thesis
      using gather_lookup [OF assms(1), of k] filter_distinct_key [OF dis, of k] by auto
  qed
  have names: "key_String keyAt = ''at''" "key_String keyEvent = ''event''" "keyAt \<noteq> keyEvent"
    by (simp_all add: key_String_def keyNames_def key_defs)
  have "concat (map (\<lambda>k. case map_of ?g k of None \<Rightarrow> [] | Some v \<Rightarrow> [(key_String k, v)]) caller_keys) =
      concat (map (\<lambda>k. map (\<lambda>f. (key_String k, fld_v f)) (filter (\<lambda>f. fld_k f = k) fs)) caller_keys)"
    by (rule arg_cong [of _ _ concat]) (rule map_cong [OF refl caller])
  then show ?thesis
    unfolding pairs_of_def declaredKeys_eq record_fields_def using names by simp
qed

lemma record_line_ok:
  assumes "\<forall>f \<in> set fs. built wide f" and "recordable e fs"
  shows "record_line now e fs = Inr (str_join (CHR '' '') (map pair_text (record_fields now e fs)) @ [CHR 0x0A])"
proof -
  obtain given where g: "gather fs [] = Inr given"
    using assms(2) gather_eq [of fs "[]"] by (auto simp: recordable_def)
  have "\<forall>f \<in> set fs. fld_k f \<in> set caller_keys"
    using assms built_key by (force simp: recordable_def)
  from record_line_pairs [OF g this] show ?thesis
    using g assms(2) by (simp add: record_line_def recordable_def build_line_eq Let_def)
qed

lemma record_line_refused:
  assumes "\<not> recordable e fs"
  shows "\<exists>err. record_line now e fs = Inl err"
proof (cases "Event_String e = []")
  case False
  with assms have "\<nexists>g. gather fs [] = Inr g" using gather_eq [of fs "[]"] by (simp add: recordable_def)
  then obtain err where "gather fs [] = Inl err" by (cases "gather fs []") auto
  with False show ?thesis by (simp add: record_line_def Let_def)
qed (simp add: record_line_def Let_def)

lemma record_fields_clean:
  assumes "\<forall>f \<in> set fs. built wide f"
  shows "\<forall>(n, v) \<in> set (record_fields now e fs). clean n \<and> CHR ''='' \<notin> set n \<and> clean v"
  using assms built_clean key_String_clean by (auto simp: record_fields_def)

subsection \<open>Properties\<close>

text \<open>
  C19: A record is one line that reads back as what it records: given fields the package can build, a
  record of a known event with distinct named fields hands the writer a single line, which splits at
  its spaces and equals signs into exactly the time, the event and the fields in the declared order;
  any other record is refused and nothing is written.
\<close>

theorem records_read_back:
  assumes "\<forall>f \<in> set fs. built wide f"
  shows "if recordable e fs
     then (\<exists>line. Record l now e fs w = apfst (map_option WritingRecord) (log_writer l (line @ [CHR 0x0A]) w) \<and>
             CHR 0x0A \<notin> set line \<and> read_record (line @ [CHR 0x0A]) = Some (record_fields now e fs))
     else (\<exists>err. Record l now e fs w = (Some (ErrRefused err), w))"
proof (cases "recordable e fs")
  case True
  let ?ps = "record_fields now e fs"
  let ?line = "str_join (CHR '' '') (map pair_text ?ps)"
  note clean = record_fields_clean [OF assms, of now e]
  have "read_record (?line @ [CHR 0x0A]) = Some ?ps"
    by (rule read_built_line [OF _ clean]) (simp add: record_fields_def)
  moreover have "CHR 0x0A \<notin> set ?line"
    by (rule joined_one_line) (use clean in blast)
  moreover have "Record l now e fs w = apfst (map_option WritingRecord) (log_writer l (?line @ [CHR 0x0A]) w)"
    using record_line_ok [OF assms True] by (simp add: Record_def)
  ultimately show ?thesis using True by auto
next
  case False
  with record_line_refused [OF False, of now] show ?thesis by (auto simp: Record_def)
qed

definition ex_fields :: "Field list" where
  "ex_fields = [Log_Count 3, Log_Member \<lparr>ident_s = ''alice@host''\<rparr>, Log_Held 1499999]"

lemma ex_fields_built: "\<forall>f \<in> set ex_fields. built (\<lambda>_. True) f"
proof -
  have "go_runes ''alice'' = [97, 108, 105, 99, 101]" "go_runes ''host'' = [104, 111, 115, 116]"
    by (simp_all add: go_runes_Cons)
  then have "NewIdentifier (\<lambda>_. True) ''alice@host'' = Inr \<lparr>ident_s = ''alice@host''\<rparr>"
    by (simp add: NewIdentifier_def MaxIdentifierLength_def str_cut_def checkPart_def is_space_rune_def
        is_print_def)
  then have "known_identifier (\<lambda>_. True) \<lparr>ident_s = ''alice@host''\<rparr>" by (auto simp: known_identifier_def)
  then show ?thesis by (auto simp: ex_fields_def intro: built.intros)
qed

theorem records_read_back_witness:
  "\<exists>line. Record \<lparr>log_writer = \<lambda>s out. (None :: unit option, out @ s)\<rparr> 0 MemberEntered ex_fields [] =
       (None, line @ [CHR 0x0A]) \<and>
     read_record (line @ [CHR 0x0A]) =
       Some [(''at'', ''1970-01-01T00:00:00Z''), (''event'', ''member-entered''),
             (''member'', ''alice@host''), (''count'', ''3''), (''held'', ''1ms'')]"
proof -
  let ?l = "\<lparr>log_writer = \<lambda>s out. (None :: unit option, out @ s)\<rparr> :: (string, unit) Log"
  have "recordable MemberEntered ex_fields" by code_simp
  moreover have "record_fields 0 MemberEntered ex_fields =
      [(''at'', ''1970-01-01T00:00:00Z''), (''event'', ''member-entered''),
       (''member'', ''alice@host''), (''count'', ''3''), (''held'', ''1ms'')]" by code_simp
  ultimately show ?thesis
    using records_read_back [OF ex_fields_built, of MemberEntered ?l 0 "[]"] by auto
qed

text \<open>
  The order of the arguments is not in the log: two records of one event with the same fields
  in different orders do the same to the writer, or are both refused.
\<close>

theorem argument_order_is_irrelevant:
  assumes "\<forall>f \<in> set fs. built wide f" and "mset fs = mset fs'"
  shows "Record l now e fs w = Record l now e fs' w \<or>
     (\<exists>err err'. Record l now e fs w = (Some (ErrRefused err), w) \<and>
                 Record l now e fs' w = (Some (ErrRefused err'), w))"
proof -
  have sets: "set fs = set fs'" using assms(2) by (rule mset_eq_setD)
  have keys: "mset (map fld_k fs) = mset (map fld_k fs')" using assms(2) by simp
  have same: "recordable e fs \<longleftrightarrow> recordable e fs'"
    using keys sets mset_eq_imp_distinct_iff [OF keys] by (simp add: recordable_def)
  show ?thesis
  proof (cases "recordable e fs")
    case True
    have dis: "distinct (map fld_k fs)" using True by (simp add: recordable_def)
    have "filter (\<lambda>f. fld_k f = k) fs = filter (\<lambda>f. fld_k f = k) fs'" for k
    proof -
      have "mset (filter (\<lambda>f. fld_k f = k) fs) = mset (filter (\<lambda>f. fld_k f = k) fs')"
        using assms(2) by simp
      then show ?thesis using filter_distinct_key [OF dis, of k] by (rule mset_short_eq)
    qed
    then have "record_fields now e fs = record_fields now e fs'" by (simp add: record_fields_def)
    with record_line_ok [OF assms(1) True, of now] record_line_ok [of fs' wide e now] same True assms(1) sets
    show ?thesis by (simp add: Record_def)
  next
    case False
    with same record_line_refused [of e fs now] record_line_refused [of e fs' now]
    show ?thesis by (auto simp: Record_def)
  qed
qed

theorem argument_order_is_irrelevant_witness:
  "Record \<lparr>log_writer = \<lambda>s out. (None :: unit option, out @ s)\<rparr> 0 MemberEntered ex_fields [] =
   Record \<lparr>log_writer = \<lambda>s out. (None :: unit option, out @ s)\<rparr> 0 MemberEntered (rev ex_fields) []"
proof -
  let ?l = "\<lparr>log_writer = \<lambda>s out. (None :: unit option, out @ s)\<rparr> :: (string, unit) Log"
  have "Record ?l 0 MemberEntered ex_fields [] \<noteq> (Some (ErrRefused err), [])" for err
    using record_line_ok [OF ex_fields_built, of MemberEntered 0]
    by (simp add: Record_def recordable_def ex_fields_def Log_Count_def Log_Member_def Log_Held_def
        identifierField_def Identifier_IsZero_def key_defs Event_String_def event_defs)
  with argument_order_is_irrelevant [OF ex_fields_built, of "rev ex_fields" ?l 0 MemberEntered "[]"]
  show ?thesis by simp
qed

end
