(* ===== verification/Transport.thy ===== *)
theory Transport
  imports Wire_Conn
begin

text \<open>
  The way in: \<^verbatim>\<open>internal/transport/confidentiality.go\<close> and the handler of
  \<^verbatim>\<open>internal/transport/websocket.go\<close>.  The request is an argument of any type, with whether it
  arrived over TLS; \<open>accept\<close> stands for the handshake of the third-party WebSocket package, which either
  answers the request itself or yields the stream; \<open>serve\<close> is the caller's.
\<close>

type_synonym Transit = int

definition TLSHere :: Transit where "TLSHere = 0"

definition TLSTerminatedAhead :: Transit where "TLSTerminatedAhead = 1"

definition confidential :: "Transit \<Rightarrow> bool \<Rightarrow> bool" where
  "confidential t overTLS = (if t = TLSTerminatedAhead then True else overTLS)"

datatype 'a handled =
    Answered string int
  | RefusedByHandshake
  | Served 'a

definition StatusForbidden :: int where "StatusForbidden = 403"

definition Handler :: "(Conn \<Rightarrow> 'a) \<Rightarrow> Transit \<Rightarrow> ('r \<Rightarrow> bool) \<Rightarrow> ('r \<Rightarrow> stream option) \<Rightarrow> 'r \<Rightarrow> 'a handled" where
  "Handler serve transit overTLS accept r =
     (if \<not> confidential transit (overTLS r)
      then Answered ''this connection is not confidential'' StatusForbidden
      else
        (case accept r of
           None \<Rightarrow> RefusedByHandshake
         | Some stream \<Rightarrow> Served (serve (NewConn stream))))"

lemma Handler_Served:
  "Handler serve transit overTLS accept r = Served x \<longleftrightarrow>
     confidential transit (overTLS r) \<and> (\<exists>stream. accept r = Some stream \<and> x = serve (NewConn stream))"
  by (auto simp: Handler_def split: option.split)

lemma Handler_not_confidential:
  "\<not> confidential transit (overTLS r) \<Longrightarrow>
     Handler serve transit overTLS accept r = Answered ''this connection is not confidential'' StatusForbidden"
  by (simp add: Handler_def)

text \<open>A value that is neither constant is the refusing one.\<close>

lemma confidential_other: "t \<noteq> TLSTerminatedAhead \<Longrightarrow> confidential t = confidential TLSHere"
  by (simp add: confidential_def TLSHere_def TLSTerminatedAhead_def fun_eq_iff)

end
