(* ===== verification/Server_Entry.thy ===== *)
theory Server_Entry
  imports Config_File
begin

text \<open>
  The command itself, \<^verbatim>\<open>main.go\<close>: its one flag, the configuration it names and what is written
  where.  The two streams are states of any type with a writer each; a writer takes one line as a value of
  \<open>said\<close>.  \<open>usage\<close> is what the flag package writes to the error stream when it refuses the
  arguments.  The contents of files are an argument.
\<close>

subsection \<open>The flag\<close>

text \<open>
  \<^verbatim>\<open>flag.FlagSet.Parse\<close> for the one string flag \<^verbatim>\<open>config\<close>: the value of the flag, or \<open>None\<close> where
  \<^verbatim>\<open>Parse\<close> returns an error, the request for help among them.  It stops at the first argument that is no flag.
\<close>

fun parse_flags :: "string list \<Rightarrow> string \<Rightarrow> string option" where
  "parse_flags [] path = Some path"
| "parse_flags (s # args) path =
     (if length s < 2 \<or> hd s \<noteq> CHR ''-'' \<or> s = ''--'' then Some path
      else
        (let name = (if s ! 1 = CHR ''-'' then drop 2 s else drop 1 s) in
         if name = [] \<or> hd name = CHR ''-'' \<or> hd name = CHR ''='' then None
         else
           (case str_cut (CHR ''='') name of
              Some (n, v) \<Rightarrow> if n \<noteq> ''config'' then None else parse_flags args v
            | None \<Rightarrow>
                if name \<noteq> ''config'' then None
                else (case args of [] \<Rightarrow> None | v # rest \<Rightarrow> parse_flags rest v))))"

subsection \<open>Writing lines\<close>

datatype 'e said =
    NoConfigurationNamed
  | Unusable config_error
  | Reported string
  | NothingServedYet
  | ReportLost 'e

record ('w, 'e) reporter =
  rep_w :: 'w
  rep_err :: "'e option"

definition say ::
    "('e said \<Rightarrow> 'w \<Rightarrow> 'e option \<times> 'w) \<Rightarrow> 'e said \<Rightarrow> ('w, 'e) reporter \<Rightarrow> ('w, 'e) reporter" where
  "say write line r =
     (if rep_err r \<noteq> None then r
      else (case write line (rep_w r) of (err, w) \<Rightarrow> \<lparr>rep_w = w, rep_err = err\<rparr>))"

subsection \<open>The run\<close>

text \<open>The exit status and the two streams; \<open>None\<close> is a panic.\<close>

definition run ::
    "string list \<Rightarrow> (string \<Rightarrow> string option) \<Rightarrow> ('e said \<Rightarrow> 'w \<Rightarrow> 'e option \<times> 'w) \<Rightarrow>
     ('e said \<Rightarrow> 'v \<Rightarrow> 'e option \<times> 'v) \<Rightarrow> ('v \<Rightarrow> 'v) \<Rightarrow> 'w \<Rightarrow> 'v \<Rightarrow> (int \<times> 'w \<times> 'v) option"
where
  "run args contents write_out write_err usage stdout stderr =
     (let out = \<lparr>rep_w = stdout, rep_err = None\<rparr>;
          problem = \<lparr>rep_w = stderr, rep_err = None\<rparr>
      in case parse_flags args [] of
           None \<Rightarrow> Some (2, stdout, usage stderr)
         | Some path \<Rightarrow>
             if path = [] then Some (2, stdout, rep_w (say write_err NoConfigurationNamed problem))
             else
               (case Load path (contents path) of
                  Inl err \<Rightarrow> Some (1, stdout, rep_w (say write_err (Unusable err) problem))
                | Inr cfg \<Rightarrow>
                    (case Report cfg of
                       None \<Rightarrow> None
                     | Some lines \<Rightarrow>
                         let out1 = fold (\<lambda>line. say write_out (Reported line)) lines out;
                             out2 = say write_out NothingServedYet out1
                         in case rep_err out2 of
                              Some err \<Rightarrow> Some (1, rep_w out2, rep_w (say write_err (ReportLost err) problem))
                            | None \<Rightarrow> Some (0, rep_w out2, rep_w problem))))"

subsection \<open>A reporter keeps its first error\<close>

lemma say_failed: "rep_err r = Some e \<Longrightarrow> fold (say write) ls r = r"
  by (induction ls arbitrary: r) (simp_all add: say_def)

lemma say_open: "say write l \<lparr>rep_w = w, rep_err = None\<rparr> =
    (case write l w of (err, w') \<Rightarrow> \<lparr>rep_w = w', rep_err = err\<rparr>)"
  by (simp add: say_def)

lemma fold_say:
  "fold (say write) ls \<lparr>rep_w = w, rep_err = None\<rparr> =
     (case write_until write ls w of (err, w') \<Rightarrow> \<lparr>rep_w = w', rep_err = err\<rparr>)"
proof (induction ls arbitrary: w)
  case (Cons l ls)
  obtain err w' where l: "write l w = (err, w')" by (cases "write l w")
  show ?case
  proof (cases err)
    case None
    with l Cons.IH [of w'] show ?thesis by (simp add: say_open)
  next
    case (Some e)
    then have "fold (say write) ls \<lparr>rep_w = w', rep_err = err\<rparr> = \<lparr>rep_w = w', rep_err = err\<rparr>"
      by (simp add: say_failed)
    with l Some show ?thesis by (simp add: say_open)
  qed
qed simp

lemma Parse_Report: "Parse txt = Inr c \<Longrightarrow> \<exists>lines. Report c = Some lines"
proof -
  assume p: "Parse txt = Inr c"
  obtain col where col: "apply_settings (col_values col) settings zero_Config = Inr c" "nonempty_values col"
    using p by (rule Parse_Inr)
  have "set (cfg_Defaulted c) \<subseteq> set declaredNames"
    using apply_settings_Defaulted [OF col(1)] by (auto simp: declaredNames_def zero_Config_def)
  from Report_total [OF this] show ?thesis by blast
qed

lemma Load_Report: "Load path b = Inr c \<Longrightarrow> \<exists>lines. Report c = Some lines"
  using Parse_Report by (auto simp: Load_def split: option.splits)

lemma run_valid:
  assumes "parse_flags args [] = Some path" and "path \<noteq> []"
    and "Load path (contents path) = Inr cfg" and "Report cfg = Some lines"
  shows "run args contents write_out write_err usage so se =
     (case write_until write_out (map Reported lines @ [NothingServedYet]) so of
        (None, so') \<Rightarrow> Some (0, so', se)
      | (Some err, so') \<Rightarrow> Some (1, so', snd (write_err (ReportLost err) se)))"
proof -
  let ?ls = "map Reported lines @ [NothingServedYet]"
  have eq: "say write_out NothingServedYet (fold (\<lambda>line. say write_out (Reported line)) lines \<lparr>rep_w = so, rep_err = None\<rparr>) =
      (case write_until write_out ?ls so of (err, w') \<Rightarrow> \<lparr>rep_w = w', rep_err = err\<rparr>)"
    using fold_say [of write_out ?ls so] by (simp add: fold_map comp_def)
  show ?thesis
    using assms unfolding run_def Let_def
    by (simp add: eq split: prod.split option.split) (simp add: say_def split: prod.split)
qed

subsection \<open>Properties\<close>

text \<open>
  C29: The exit status is what happened: the command never panics; it exits with zero exactly when the
  arguments name a file that is a valid configuration and the whole report, the line saying that nothing
  is served included, was written to standard output without an error.  Then nothing was written to the
  error stream, and where the configuration was refused nothing was written to standard output.
\<close>

theorem exit_status_tells_what_happened:
  "\<exists>status so' se'. run args contents write_out write_err usage so se = Some (status, so', se') \<and>
     (status = 0 \<longleftrightarrow>
        (\<exists>path cfg lines. parse_flags args [] = Some path \<and> path \<noteq> [] \<and>
           Load path (contents path) = Inr cfg \<and> Report cfg = Some lines \<and>
           write_until write_out (map Reported lines @ [NothingServedYet]) so = (None, so') \<and> se' = se)) \<and>
     ((\<nexists>path cfg. parse_flags args [] = Some path \<and> path \<noteq> [] \<and> Load path (contents path) = Inr cfg) \<longrightarrow>
        so' = so)"
proof (cases "\<exists>path cfg. parse_flags args [] = Some path \<and> path \<noteq> [] \<and> Load path (contents path) = Inr cfg")
  case True
  then obtain path cfg where p: "parse_flags args [] = Some path" "path \<noteq> []" "Load path (contents path) = Inr cfg"
    by blast
  obtain lines where lines: "Report cfg = Some lines" using Load_Report [OF p(3)] by blast
  then have r: "run args contents write_out write_err usage so se =
     (case write_until write_out (map Reported lines @ [NothingServedYet]) so of
        (None, so') \<Rightarrow> Some (0, so', se)
      | (Some err, so') \<Rightarrow> Some (1, so', snd (write_err (ReportLost err) se)))"
    by (rule run_valid [where contents = contents and path = path, OF p])
  obtain err so' where w: "write_until write_out (map Reported lines @ [NothingServedYet]) so = (err, so')"
    by (cases "write_until write_out (map Reported lines @ [NothingServedYet]) so")
  show ?thesis
    using p w lines by (cases err) (simp_all add: r)
next
  case False
  then show ?thesis
    by (cases "parse_flags args []") (auto simp: run_def Let_def split: sum.split)
qed

theorem exit_status_tells_what_happened_witness:
  "\<exists>so' se'. run [''-config'', ''a.conf''] (\<lambda>_. Some (config_text ex_lines))
       (\<lambda>l w. (None :: unit option, w @ [l])) (\<lambda>l w. (None, w @ [l])) (\<lambda>w. w) [] [] = Some (0, so', se')"
proof -
  let ?wr = "\<lambda>l w. (None :: unit option, w @ [l])" and ?args = "[''-config'', ''a.conf'']"
  let ?contents = "\<lambda>_ :: string. Some (config_text ex_lines)"
  have p: "parse_flags ?args [] = Some ''a.conf''" by (simp add: str_cut_def)
  have l: "Load ''a.conf'' (?contents ''a.conf'') = Inr ex_config" by (simp add: Load_def ex_Parse)
  obtain lines where r: "Report ex_config = Some lines" using Load_Report [OF l] by blast
  have w: "write_until ?wr ls w = (None, w @ ls)" for ls :: "unit said list" and w
    by (induction ls arbitrary: w) simp_all
  have run: "run ?args ?contents ?wr ?wr (\<lambda>w. w) [] [] = Some (0, map Reported lines @ [NothingServedYet], [])"
    using run_valid [where contents = ?contents and path = "''a.conf''", OF p _ l r, of ?wr ?wr "\<lambda>w. w" "[]" "[]"]
    unfolding w by simp
  obtain status so' se' where "run ?args ?contents ?wr ?wr (\<lambda>w. w) [] [] = Some (status, so', se')"
    using exit_status_tells_what_happened [of ?args ?contents ?wr ?wr "\<lambda>w. w" "[]" "[]"] by blast
  with run show ?thesis by auto
qed

end
