(* ===== verification/Bench_Rig.thy ===== *)
theory Bench_Rig
  imports Go_Numbers
begin

unbundle bit_operations_syntax

text \<open>
  The measurement rig of \<^verbatim>\<open>bench\<close>: its configuration, percentiles
  (\<^verbatim>\<open>bench.go\<close>, \<^verbatim>\<open>stats.go\<close>), the delay fixture (\<^verbatim>\<open>system.go\<close>) and \<^verbatim>\<open>nextPow2\<close> of
  \<^verbatim>\<open>dsp.go\<close>.  Samples and scores are of any type: the rig moves and compares them.  Where the code computes a
  sample count or a rank with \<^verbatim>\<open>float64\<close>, the rounding of every operation is written out.  The generator of
  the fixture is an argument.
\<close>

subsection \<open>Floating point and powers of two\<close>

definition go_float :: "rat \<Rightarrow> rat" where
  "go_float x = (if x < 0 then - float64 (- x) else float64 x)"

definition round_away :: "rat \<Rightarrow> int" where
  "round_away x = (if x < 0 then - \<lfloor>- x + 1 / 2\<rfloor> else \<lfloor>x + 1 / 2\<rfloor>)"

definition trunc :: "rat \<Rightarrow> int" where
  "trunc x = (if x < 0 then - \<lfloor>- x\<rfloor> else \<lfloor>x\<rfloor>)"

definition wrap64 :: "int \<Rightarrow> int" where
  "wrap64 i = (i + 2 ^ 63) mod 2 ^ 64 - 2 ^ 63"

text \<open>The loop does not end where no power of two in an \<^verbatim>\<open>int\<close> is large enough.\<close>

partial_function (option) pow2_from :: "int \<Rightarrow> int \<Rightarrow> int option" where
  "pow2_from p n = (if p < n then pow2_from (wrap64 (push_bit 1 p)) n else Some p)"

definition nextPow2 :: "int \<Rightarrow> int option" where
  "nextPow2 n = pow2_from 1 n"

subsection \<open>Configuration\<close>

record Rig_Config =
  rc_Rate :: int
  rc_FrameSamples :: int
  rc_ChirpSamples :: int
  rc_ChirpLowHz :: rat
  rc_ChirpHighHz :: rat
  rc_Trials :: int
  rc_TrialPeriodSamples :: int
  rc_DetectionThreshold :: rat

definition DefaultConfig :: Rig_Config where
  "DefaultConfig =
     \<lparr>rc_Rate = 48000, rc_FrameSamples = 960, rc_ChirpSamples = 1920, rc_ChirpLowHz = 300,
      rc_ChirpHighHz = 8000, rc_Trials = 300, rc_TrialPeriodSamples = 24000,
      rc_DetectionThreshold = go_float (3 / 10)\<rparr>"

datatype rig_fault =
    RateNotPositive int
  | FrameNotPositive int
  | ChirpNotPositive int
  | TrialsNotPositive int
  | PeriodNotWholeFrames int int
  | NoRoomForChirp int int

text \<open>\<^verbatim>\<open>%\<close> is zero exactly where \<open>mod\<close> is.\<close>

definition Validate :: "Rig_Config \<Rightarrow> rig_fault option" where
  "Validate c =
     (if rc_Rate c \<le> 0 then Some (RateNotPositive (rc_Rate c))
      else if rc_FrameSamples c \<le> 0 then Some (FrameNotPositive (rc_FrameSamples c))
      else if rc_ChirpSamples c \<le> 0 then Some (ChirpNotPositive (rc_ChirpSamples c))
      else if rc_Trials c \<le> 0 then Some (TrialsNotPositive (rc_Trials c))
      else if rc_TrialPeriodSamples c mod rc_FrameSamples c \<noteq> 0
      then Some (PeriodNotWholeFrames (rc_TrialPeriodSamples c) (rc_FrameSamples c))
      else if rc_TrialPeriodSamples c \<le> rc_ChirpSamples c
      then Some (NoRoomForChirp (rc_TrialPeriodSamples c) (rc_ChirpSamples c))
      else None)"

definition samples_duration :: "int \<Rightarrow> int \<Rightarrow> duration" where
  "samples_duration n rate =
     trunc (go_float (go_float (go_float (of_int n) / go_float (of_int rate)) * of_int Second))"

definition TrialPeriod :: "Rig_Config \<Rightarrow> duration" where
  "TrialPeriod c = samples_duration (rc_TrialPeriodSamples c) (rc_Rate c)"

definition MaxMeasurableDelay :: "Rig_Config \<Rightarrow> duration" where
  "MaxMeasurableDelay c = samples_duration (rc_TrialPeriodSamples c - rc_ChirpSamples c) (rc_Rate c)"

record Shaping =
  sh_Profile :: string
  sh_Command :: string
  sh_Origin :: string

definition DeclaredShaping :: "string \<Rightarrow> string \<Rightarrow> Shaping" where
  "DeclaredShaping profile0 command =
     (let profile = (if profile0 = [] then ''none'' else profile0);
          origin = ''declared by the caller; not applied and not verified by the rig'' @
            (if command = [] \<and> profile \<noteq> ''none''
             then ''; no command was declared for this profile, so the name is the whole of the record'' else [])
      in \<lparr>sh_Profile = profile, sh_Command = command, sh_Origin = origin\<rparr>)"

subsection \<open>Percentiles\<close>

text \<open>\<^verbatim>\<open>sort.Float64s\<close> in place, so the sorted sample is returned; \<open>None\<close> is NaN.  No sample is NaN.\<close>

definition percentile_rank :: "rat \<Rightarrow> nat \<Rightarrow> int" where
  "percentile_rank p n =
     (let r = \<lceil>go_float (go_float (p / 100) * go_float (of_nat n))\<rceil>;
          r1 = (if r < 1 then 1 else r)
      in if r1 > int n then int n else r1)"

definition Percentile :: "'a :: linorder list \<Rightarrow> rat \<Rightarrow> 'a list \<times> 'a option" where
  "Percentile xs p =
     (if xs = [] then (xs, None)
      else (sort xs, Some (sort xs ! nat (percentile_rank p (length xs) - 1))))"

subsection \<open>The delay fixture\<close>

record ('a, 'g) DelayLine =
  dl_ring :: "'a list"
  dl_mask :: int
  dl_pos :: int
  dl_base :: int
  dl_jitter :: int
  dl_cur :: int
  dl_resample :: int
  dl_noise :: rat
  dl_rng :: 'g

record DelayLineConfig =
  dc_Rate :: int
  dc_Frame :: int
  dc_Base :: duration
  dc_Jitter :: duration
  dc_ResamplePeriod :: duration
  dc_Noise :: rat
  dc_Seed :: int

text \<open>\<^verbatim>\<open>Duration.Seconds\<close>: the whole seconds and the rest as floats, added.\<close>

definition Seconds :: "duration \<Rightarrow> rat" where
  "Seconds d =
     (let s = sgn d * (\<bar>d\<bar> div Second); ns = sgn d * (\<bar>d\<bar> mod Second)
      in go_float (go_float (of_int s) + go_float (of_int ns / of_int Second)))"

definition duration_samples :: "duration \<Rightarrow> int \<Rightarrow> int" where
  "duration_samples d rate = round_away (go_float (Seconds d * go_float (of_int rate)))"

text \<open>
  \<open>None\<close> where \<^verbatim>\<open>nextPow2\<close> does not return.  That \<^verbatim>\<open>make\<close> panics for a ring longer than the
  machine can hold has no counterpart.
\<close>

definition NewDelayLine :: "(int \<Rightarrow> 'g) \<Rightarrow> 'a \<Rightarrow> DelayLineConfig \<Rightarrow> ('a, 'g) DelayLine option" where
  "NewDelayLine seeded silence cfg =
     (let base = duration_samples (dc_Base cfg) (dc_Rate cfg);
          jitter = duration_samples (dc_Jitter cfg) (dc_Rate cfg);
          resample0 = duration_samples (dc_ResamplePeriod cfg) (dc_Rate cfg);
          resample = (if resample0 \<le> 0 then dc_Frame cfg else resample0)
      in case nextPow2 (base + jitter + dc_Frame cfg + 1) of
           None \<Rightarrow> None
         | Some cells \<Rightarrow>
             Some \<lparr>dl_ring = replicate (nat cells) silence, dl_mask = cells - 1, dl_pos = 0, dl_base = base,
                   dl_jitter = jitter, dl_cur = base, dl_resample = resample, dl_noise = dc_Noise cfg,
                   dl_rng = seeded (dc_Seed cfg)\<rparr>)"

definition Delay :: "int \<Rightarrow> ('a, 'g) DelayLine \<Rightarrow> duration" where
  "Delay rate d = samples_duration (dl_base d) rate"

text \<open>
  \<open>intn\<close> is \<^verbatim>\<open>rng.Intn\<close> and \<open>noisy\<close> adds a draw of the given amplitude to a sample.
\<close>

definition exchange_sample ::
    "(int \<Rightarrow> 'g \<Rightarrow> int \<times> 'g) \<Rightarrow> (rat \<Rightarrow> 'g \<Rightarrow> 'a \<Rightarrow> 'a \<times> 'g) \<Rightarrow> 'a \<Rightarrow> 'a \<Rightarrow> ('a, 'g) DelayLine \<Rightarrow>
     'a \<times> ('a, 'g) DelayLine"
where
  "exchange_sample intn noisy silence x d =
     (let t = dl_pos d;
          (cur, g1) = (if t mod dl_resample d = 0 \<and> dl_jitter d > 0
                       then (let (k, g) = intn (dl_jitter d + 1) (dl_rng d) in (dl_base d + k, g))
                       else (dl_cur d, dl_rng d));
          ring = (dl_ring d)[nat (t AND dl_mask d) := x];
          src = t - cur;
          v = (if src \<ge> 0 then ring ! nat (src AND dl_mask d) else silence);
          (v1, g2) = (if dl_noise d > 0 then noisy (dl_noise d) g1 v else (v, g1))
      in (v1, d\<lparr>dl_ring := ring, dl_cur := cur, dl_rng := g2, dl_pos := t + 1\<rparr>))"

fun Exchange ::
    "(int \<Rightarrow> 'g \<Rightarrow> int \<times> 'g) \<Rightarrow> (rat \<Rightarrow> 'g \<Rightarrow> 'a \<Rightarrow> 'a \<times> 'g) \<Rightarrow> 'a \<Rightarrow> 'a list \<Rightarrow> ('a, 'g) DelayLine \<Rightarrow>
     'a list \<times> ('a, 'g) DelayLine"
where
  "Exchange intn noisy silence [] d = ([], d)"
| "Exchange intn noisy silence (x # xs) d =
     (let (v, d1) = exchange_sample intn noisy silence x d;
          (vs, d2) = Exchange intn noisy silence xs d1
      in (v # vs, d2))"

subsection \<open>The next power of two\<close>

lemma double: "wrap64 (push_bit 1 p) = (2 * p + 2 ^ 63) mod 2 ^ 64 - 2 ^ 63"
  by (simp add: wrap64_def push_bit_eq_mult mult.commute)

lemma double_pow2: "k < 62 \<Longrightarrow> wrap64 (push_bit 1 (2 ^ k)) = 2 ^ Suc k"
proof -
  assume "k < 62"
  then have "(2::int) ^ Suc k \<le> 2 ^ 62" by (intro power_increasing) simp_all
  then have "(2::int) ^ Suc k + 2 ^ 63 < 2 ^ 64" by simp
  then show ?thesis unfolding double by (simp add: mod_pos_pos_trivial)
qed

lemma double_ends: "wrap64 (push_bit 1 (2 ^ 62)) = - (2 ^ 63)" "wrap64 (push_bit 1 (- (2 ^ 63))) = 0"
    "wrap64 (push_bit 1 0) = 0"
  by (simp_all add: wrap64_def)

text \<open>The values the loop can reach; no other number is one of them.\<close>

definition doubled :: "int \<Rightarrow> bool" where
  "doubled p \<longleftrightarrow> p = 0 \<or> p = - (2 ^ 63) \<or> (\<exists>k \<le> 62. p = 2 ^ k)"

lemma doubled_step: "doubled p \<Longrightarrow> doubled (wrap64 (push_bit 1 p))"
proof -
  assume "doubled p"
  then consider "p = 0" | "p = - (2 ^ 63)" | k where "k \<le> 62" "p = 2 ^ k" by (auto simp: doubled_def)
  then show ?thesis
  proof cases
    case (3 k)
    then show ?thesis
    proof (cases "k = 62")
      case True
      then show ?thesis using 3 double_ends(1) by (simp add: doubled_def)
    next
      case False
      then have "wrap64 (push_bit 1 p) = 2 ^ Suc k" "Suc k \<le> 62" using 3 double_pow2 by auto
      then show ?thesis unfolding doubled_def by blast
    qed
  qed (use double_ends in \<open>simp_all add: doubled_def\<close>)
qed

lemma pow2_from_doubled:
  assumes "pow2_from p n = Some r"
  shows "doubled p \<longrightarrow> doubled r \<and> n \<le> r"
proof (rule pow2_from.raw_induct [where P = "\<lambda>p n r. doubled p \<longrightarrow> doubled r \<and> n \<le> r", OF _ assms])
  fix f :: "int \<Rightarrow> int \<Rightarrow> int option" and p n r
  assume IH: "\<And>p n r. f p n = Some r \<Longrightarrow> doubled p \<longrightarrow> doubled r \<and> n \<le> r"
    and body: "(if p < n then f (wrap64 (push_bit 1 p)) n else Some p) = Some r"
  show "doubled p \<longrightarrow> doubled r \<and> n \<le> r"
  proof (cases "p < n")
    case True
    then have "f (wrap64 (push_bit 1 p)) n = Some r" using body by (simp only: if_True)
    from IH [OF this] doubled_step [of p] show ?thesis by blast
  qed (use body in simp)
qed

lemma pow2_from_least:
  assumes "k \<le> 62" and "n \<le> 2 ^ 62" and "k = 0 \<or> 2 ^ (k - 1) < n"
  shows "\<exists>j. j \<le> 62 \<and> pow2_from (2 ^ k) n = Some (2 ^ j) \<and> n \<le> 2 ^ j \<and> (j = 0 \<or> 2 ^ (j - 1) < n)"
  using assms(1,3)
proof (induction "62 - k" arbitrary: k)
  case 0
  then have "k = 62" by simp
  with 0 assms(2) show ?case by (intro exI [of _ 62]) (simp add: pow2_from.simps)
next
  case (Suc d)
  show ?case
  proof (cases "2 ^ k < n")
    case True
    have k: "k < 62" using Suc.hyps(2) by simp
    have "pow2_from (2 ^ k) n = pow2_from (2 ^ Suc k) n"
      using True double_pow2 [OF k] by (subst pow2_from.simps) simp
    moreover have "d = 62 - Suc k" "Suc k \<le> 62" "Suc k = 0 \<or> 2 ^ (Suc k - 1) < n"
      using Suc.hyps(2) True by simp_all
    ultimately show ?thesis using Suc.hyps(1) [of "Suc k"] by simp
  next
    case False
    with Suc.prems show ?thesis by (intro exI [of _ k]) (simp add: pow2_from.simps)
  qed
qed

lemma nextPow2_iff:
  "nextPow2 n = Some p \<longleftrightarrow>
     (\<exists>k. k \<le> 62 \<and> p = 2 ^ k \<and> n \<le> 2 ^ k \<and> (k = 0 \<or> 2 ^ (k - 1) < n))"
proof
  assume r: "nextPow2 n = Some p"
  have "doubled 1" unfolding doubled_def by (metis le0 power_0)
  then have "doubled p \<and> n \<le> p" using pow2_from_doubled r by (simp add: nextPow2_def)
  moreover have "p \<le> 2 ^ 62" if "doubled p" for p
  proof -
    have "(2::int) ^ k \<le> 2 ^ 62" if "k \<le> 62" for k using that by (intro power_increasing) simp_all
    then show ?thesis using that by (fastforce simp: doubled_def)
  qed
  ultimately have "n \<le> 2 ^ 62" by force
  from pow2_from_least [of 0 n, OF _ this] r show "\<exists>k. k \<le> 62 \<and> p = 2 ^ k \<and> n \<le> 2 ^ k \<and> (k = 0 \<or> 2 ^ (k - 1) < n)"
    by (auto simp: nextPow2_def)
next
  assume "\<exists>k. k \<le> 62 \<and> p = 2 ^ k \<and> n \<le> 2 ^ k \<and> (k = 0 \<or> 2 ^ (k - 1) < n)"
  then obtain k where k: "k \<le> 62" "p = 2 ^ k" "n \<le> 2 ^ k" "k = 0 \<or> 2 ^ (k - 1) < n" by blast
  have "(2::int) ^ k \<le> 2 ^ 62" using k(1) by (intro power_increasing) simp_all
  then have "n \<le> 2 ^ 62" using k(3) by simp
  from pow2_from_least [of 0 n, OF _ this] obtain j where
    j: "nextPow2 n = Some (2 ^ j)" "n \<le> 2 ^ j" "j = 0 \<or> 2 ^ (j - 1) < n" by (auto simp: nextPow2_def)
  have "j = k"
  proof (rule ccontr)
    assume "j \<noteq> k"
    then consider "j < k" | "k < j" by linarith
    then show False
    proof cases
      case 1
      then have "(2::int) ^ j \<le> 2 ^ (k - 1)" by (intro power_increasing) simp_all
      moreover have "2 ^ (k - 1) < n" using 1 k(4) by auto
      ultimately show False using j(2) by linarith
    next
      case 2
      then have "(2::int) ^ k \<le> 2 ^ (j - 1)" by (intro power_increasing) simp_all
      moreover have "2 ^ (j - 1) < n" using 2 j(3) by auto
      ultimately show False using k(3) by linarith
    qed
  qed
  with j k show "nextPow2 n = Some p" by simp
qed

subsection \<open>The ring holds what is still needed\<close>

lemma and_mask: "int t AND (2 ^ k - 1) = int (t mod 2 ^ k)"
proof -
  have "int t AND (2 ^ k - 1) = take_bit k (int t)"
    by (simp add: take_bit_eq_mask mask_eq_exp_minus_1)
  also have "\<dots> = int (t mod 2 ^ k)" by (simp add: take_bit_eq_mod of_nat_mod)
  finally show ?thesis .
qed

definition steady :: "('a, 'g) DelayLine \<Rightarrow> bool" where
  "steady d \<longleftrightarrow> 0 \<le> dl_base d \<and> 0 \<le> dl_jitter d \<and> dl_noise d \<le> 0 \<and>
     dl_base d \<le> dl_cur d \<and> dl_cur d \<le> dl_base d + dl_jitter d"

definition holds :: "'a list \<Rightarrow> ('a, 'g) DelayLine \<Rightarrow> bool" where
  "holds xs d \<longleftrightarrow> dl_pos d = int (length xs) \<and>
     (\<exists>k. dl_mask d = 2 ^ k - 1 \<and> length (dl_ring d) = 2 ^ k \<and> dl_base d + dl_jitter d < 2 ^ k \<and>
       (\<forall>i < length xs. length xs \<le> i + 2 ^ k \<longrightarrow> dl_ring d ! (i mod 2 ^ k) = xs ! i))"

definition intn_ok :: "(int \<Rightarrow> 'g \<Rightarrow> int \<times> 'g) \<Rightarrow> bool" where
  "intn_ok intn \<longleftrightarrow> (\<forall>n g. 0 < n \<longrightarrow> 0 \<le> fst (intn n g) \<and> fst (intn n g) < n)"

definition delayed :: "'a \<Rightarrow> nat \<Rightarrow> 'a list \<Rightarrow> nat \<Rightarrow> 'a" where
  "delayed silence k xs t = (if t < k then silence else xs ! (t - k))"

lemma window_mod:
  fixes i n :: nat
  assumes "i < n" and "n < i + M" and "0 < M"
  shows "i mod M \<noteq> n mod M"
proof
  assume "i mod M = n mod M"
  then have "M dvd n - i" using assms(1) by (metis mod_eq_dvd_iff_nat less_imp_le)
  then have "M \<le> n - i" using assms(1) by (intro dvd_imp_le) simp_all
  with assms(1,2) show False by simp
qed

lemma exchange_sample_step:
  assumes "intn_ok intn" and "holds xs d" and "steady d"
    and ex: "exchange_sample intn noisy silence x d = (v, d')"
  shows "holds (xs @ [x]) d' \<and> steady d' \<and> dl_base d' = dl_base d \<and> dl_jitter d' = dl_jitter d \<and>
     v = delayed silence (nat (dl_cur d')) (xs @ [x]) (length xs)"
proof -
  let ?n = "length xs"
  obtain k where k: "dl_mask d = 2 ^ k - 1" "length (dl_ring d) = 2 ^ k" "dl_base d + dl_jitter d < 2 ^ k"
      "\<forall>i < ?n. ?n \<le> i + 2 ^ k \<longrightarrow> dl_ring d ! (i mod 2 ^ k) = xs ! i" and pos: "dl_pos d = int ?n"
    using assms(2) by (auto simp: holds_def)
  define ring where "ring = (dl_ring d)[?n mod 2 ^ k := x]"
  have at: "nat (dl_pos d AND dl_mask d) = ?n mod 2 ^ k" by (simp only: pos k(1) and_mask nat_int)
  then have at': "nat (int ?n AND dl_mask d) = ?n mod 2 ^ k" by (simp add: pos)
  have cur: "dl_base d \<le> dl_cur d' \<and> dl_cur d' \<le> dl_base d + dl_jitter d"
  proof -
    obtain j g where g: "intn (dl_jitter d + 1) (dl_rng d) = (j, g)" by (cases "intn (dl_jitter d + 1) (dl_rng d)")
    have "0 \<le> fst (intn (dl_jitter d + 1) (dl_rng d)) \<and> fst (intn (dl_jitter d + 1) (dl_rng d)) < dl_jitter d + 1"
    proof -
      have "0 < dl_jitter d + 1" using assms(3) by (simp add: steady_def)
      then show ?thesis using assms(1) unfolding intn_ok_def by blast
    qed
    then have "0 \<le> j" "j \<le> dl_jitter d" using g by simp_all
    then show ?thesis
      using ex g assms(3) by (auto simp: exchange_sample_def Let_def steady_def split: prod.splits if_splits)
  qed
  have src: "v = (if 0 \<le> int ?n - dl_cur d' then ring ! nat ((int ?n - dl_cur d') AND dl_mask d) else silence)"
      and d': "dl_ring d' = ring" "dl_pos d' = int ?n + 1" "dl_mask d' = dl_mask d" "dl_base d' = dl_base d"
        "dl_jitter d' = dl_jitter d" "dl_noise d' = dl_noise d"
    using ex assms(3) by (auto simp: exchange_sample_def Let_def steady_def at' ring_def pos split: prod.splits)
  have held: "ring ! (i mod 2 ^ k) = (xs @ [x]) ! i" if "i < Suc ?n" "Suc ?n \<le> i + 2 ^ k" for i
  proof (cases "i = ?n")
    case True
    then show ?thesis using k(2) by (simp add: ring_def)
  next
    case False
    then have i: "i < ?n" "?n < i + 2 ^ k" using that by simp_all
    have "i mod 2 ^ k \<noteq> ?n mod 2 ^ k" by (rule window_mod [OF i]) simp
    then show ?thesis using i k(4) by (simp add: ring_def nth_append)
  qed
  have "holds (xs @ [x]) d'"
  proof -
    have "length ring = 2 ^ k" by (simp add: ring_def k(2))
    then show ?thesis unfolding holds_def using d' k(1,3) held by (intro conjI exI [of _ k]) auto
  qed
  moreover have "v = delayed silence (nat (dl_cur d')) (xs @ [x]) ?n"
  proof (cases "0 \<le> int ?n - dl_cur d'")
    case True
    let ?i = "?n - nat (dl_cur d')"
    have c: "0 \<le> dl_cur d'" using cur assms(3) by (simp add: steady_def)
    have i: "int ?n - dl_cur d' = int ?i" using True c by simp
    have "v = ring ! (?i mod 2 ^ k)" using True src unfolding i k(1) and_mask by simp
    moreover have "Suc ?n \<le> ?i + 2 ^ k"
    proof -
      have "int (Suc ?n) \<le> int ?i + 2 ^ k" using i cur k(3) by linarith
      then show ?thesis by (simp add: nat_le_iff of_nat_le_iff [symmetric, where 'a = int] del: of_nat_le_iff)
    qed
    moreover have "nat (dl_cur d') \<le> ?n" using True by simp
    ultimately show ?thesis using held [of ?i] by (simp add: delayed_def)
  next
    case False
    then have n: "\<not> nat (dl_cur d') \<le> ?n" by simp
    have "v = silence" using False src by simp
    then show ?thesis using n by (simp add: delayed_def)
  qed
  ultimately show ?thesis using d' cur assms(3) by (simp add: steady_def)
qed

lemma Exchange_append:
  "Exchange intn noisy silence (xs @ ys) d =
     (let (us, d1) = Exchange intn noisy silence xs d; (vs, d2) = Exchange intn noisy silence ys d1
      in (us @ vs, d2))"
  by (induction xs arbitrary: d) (auto simp: Let_def split: prod.splits)

text \<open>Each sample that leaves is one that entered between the base delay and the widest delay before.\<close>

lemma Exchange_delays:
  assumes "intn_ok intn" and "holds xs d" and "steady d"
    and "Exchange intn noisy silence ys d = (out, d')"
  shows "holds (xs @ ys) d' \<and> steady d' \<and> dl_base d' = dl_base d \<and> dl_jitter d' = dl_jitter d \<and>
     length out = length ys \<and>
     (\<forall>i < length ys. \<exists>k. nat (dl_base d) \<le> k \<and> int k \<le> dl_base d + dl_jitter d \<and>
        out ! i = delayed silence k (xs @ ys) (length xs + i))"
  using assms(2-4)
proof (induction ys arbitrary: xs d out)
  case Nil
  then show ?case by simp
next
  case (Cons y ys)
  obtain v d1 vs where st: "exchange_sample intn noisy silence y d = (v, d1)"
      "Exchange intn noisy silence ys d1 = (vs, d')" "out = v # vs"
    using Cons.prems(3) by (auto simp: Let_def split: prod.splits)
  note one = exchange_sample_step [OF assms(1) Cons.prems(1,2) st(1)]
  have IH: "holds ((xs @ [y]) @ ys) d' \<and> steady d' \<and> dl_base d' = dl_base d1 \<and> dl_jitter d' = dl_jitter d1 \<and>
     length vs = length ys \<and>
     (\<forall>i < length ys. \<exists>k. nat (dl_base d1) \<le> k \<and> int k \<le> dl_base d1 + dl_jitter d1 \<and>
        vs ! i = delayed silence k ((xs @ [y]) @ ys) (length (xs @ [y]) + i))"
    by (rule Cons.IH) (use one st(2) in auto)
  have first: "\<exists>k. nat (dl_base d) \<le> k \<and> int k \<le> dl_base d + dl_jitter d \<and>
      v = delayed silence k (xs @ y # ys) (length xs)"
  proof (intro exI [of _ "nat (dl_cur d1)"] conjI)
    show "nat (dl_base d) \<le> nat (dl_cur d1)" "int (nat (dl_cur d1)) \<le> dl_base d + dl_jitter d"
      using one by (auto simp: steady_def)
    show "v = delayed silence (nat (dl_cur d1)) (xs @ y # ys) (length xs)"
      using one by (simp add: delayed_def nth_append)
  qed
  have "\<exists>k. nat (dl_base d) \<le> k \<and> int k \<le> dl_base d + dl_jitter d \<and>
      out ! i = delayed silence k (xs @ y # ys) (length xs + i)" if "i < length (y # ys)" for i
    using that first IH one by (cases i) (auto simp: st(3))
  with IH one st(3) show ?case by simp
qed

lemma NewDelayLine_fresh:
  assumes "NewDelayLine seeded silence cfg = Some d" and "dc_Noise cfg \<le> 0"
    and "0 \<le> dl_base d" and "0 \<le> dl_jitter d" and "0 \<le> dc_Frame cfg"
  shows "holds [] d \<and> steady d"
proof -
  obtain cells where cells: "nextPow2 (dl_base d + dl_jitter d + dc_Frame cfg + 1) = Some cells"
      and d: "dl_ring d = replicate (nat cells) silence" "dl_mask d = cells - 1" "dl_pos d = 0"
        "dl_cur d = dl_base d" "dl_noise d = dc_Noise cfg"
    using assms(1) by (auto simp: NewDelayLine_def Let_def split: option.splits)
  obtain k where k: "cells = 2 ^ k" "dl_base d + dl_jitter d + dc_Frame cfg + 1 \<le> 2 ^ k"
    using nextPow2_iff [THEN iffD1, OF cells] by (elim exE conjE)
  have "nat cells = 2 ^ k" by (simp add: k(1) nat_power_eq)
  then have len: "length (dl_ring d) = 2 ^ k" using d(1) by simp
  have "holds [] d"
    unfolding holds_def using d(2,3) len k assms(5) by (intro conjI exI [of _ k]) simp_all
  moreover have "steady d" using d assms(2-4) by (simp add: steady_def)
  ultimately show ?thesis by blast
qed

subsection \<open>Percentiles of a sample\<close>

lemma percentile_rank_range: "0 < n \<Longrightarrow> 1 \<le> percentile_rank p n \<and> percentile_rank p n \<le> int n"
  by (simp add: percentile_rank_def Let_def)

lemma Percentile_sorted: "fst (Percentile xs p) = sort xs"
  by (simp add: Percentile_def)

lemma Percentile_mem: "xs \<noteq> [] \<Longrightarrow> \<exists>v. snd (Percentile xs p) = Some v \<and> v \<in> set xs"
proof -
  assume ne: "xs \<noteq> []"
  then have "nat (percentile_rank p (length xs) - 1) < length (sort xs)"
    using percentile_rank_range [of "length xs" p] by (simp add: nat_less_iff)
  then have "sort xs ! nat (percentile_rank p (length xs) - 1) \<in> set (sort xs)" by (rule nth_mem)
  with ne show ?thesis by (simp add: Percentile_def)
qed

lemma Percentile_sort: "snd (Percentile (sort xs) p) = snd (Percentile xs p)"
proof -
  have "sort xs = [] \<longleftrightarrow> xs = []" by (metis length_0_conv length_sort)
  moreover have "sort (sort xs) = sort xs" by (rule sort_key_id_if_sorted) simp
  ultimately show ?thesis by (simp add: Percentile_def)
qed

subsection \<open>Properties\<close>

text \<open>
  C36: The search for a power of two returns exactly where one fits: it answers with the least power of
  two that is not below its argument, and for an argument above two to the 62, which no power of two
  in an \<^verbatim>\<open>int\<close> reaches, it does not return.
\<close>

theorem nextPow2_returns_the_least:
  "(nextPow2 n = Some p \<longleftrightarrow> (\<exists>k. k \<le> 62 \<and> p = 2 ^ k \<and> n \<le> 2 ^ k \<and> (k = 0 \<or> 2 ^ (k - 1) < n))) \<and>
   (nextPow2 n = None \<longleftrightarrow> 2 ^ 62 < n)"
proof -
  have "nextPow2 n \<noteq> None \<longleftrightarrow> n \<le> 2 ^ 62"
  proof
    assume "nextPow2 n \<noteq> None"
    then obtain p k where "k \<le> 62" "p = 2 ^ k" "n \<le> 2 ^ k" using nextPow2_iff by blast
    moreover have "(2::int) ^ k \<le> 2 ^ 62" using \<open>k \<le> 62\<close> by (intro power_increasing) simp_all
    ultimately show "n \<le> 2 ^ 62" by simp
  next
    assume "n \<le> 2 ^ 62"
    from pow2_from_least [of 0 n, OF _ this] show "nextPow2 n \<noteq> None" by (auto simp: nextPow2_def)
  qed
  then show ?thesis using nextPow2_iff [of n p] by (metis not_le)
qed

text \<open>
  The fixture delays and does nothing else: a delay line without noise, fed in whatever frames,
  gives back for every sample one that entered between the base delay and the base delay plus the
  jitter before it, silence before there is one; without jitter the delay is the base delay exactly.
\<close>

theorem delay_line_delays_exactly:
  assumes "intn_ok intn" and "NewDelayLine seeded silence cfg = Some d" and "dc_Noise cfg \<le> 0"
    and "0 \<le> dl_base d" and "0 \<le> dl_jitter d" and "0 \<le> dc_Frame cfg"
    and "i < length xs"
  shows "length (fst (Exchange intn noisy silence xs d)) = length xs \<and>
     (\<exists>k. dl_base d \<le> int k \<and> int k \<le> dl_base d + dl_jitter d \<and>
        fst (Exchange intn noisy silence xs d) ! i = (if i < k then silence else xs ! (i - k)))"
proof -
  note fresh = NewDelayLine_fresh [OF assms(2-6)]
  obtain out d' where ex: "Exchange intn noisy silence xs d = (out, d')"
    by (cases "Exchange intn noisy silence xs d")
  have len: "length out = length xs"
    and all: "\<forall>i < length xs. \<exists>k. nat (dl_base d) \<le> k \<and> int k \<le> dl_base d + dl_jitter d \<and>
        out ! i = delayed silence k xs i"
    using Exchange_delays [OF assms(1) fresh [THEN conjunct1] fresh [THEN conjunct2] ex] by simp_all
  from all [rule_format, OF assms(7)] obtain k where
    k': "nat (dl_base d) \<le> k" "int k \<le> dl_base d + dl_jitter d" "out ! i = delayed silence k xs i"
    by (elim exE conjE)
  then have "dl_base d \<le> int k" by simp
  moreover have "out ! i = (if i < k then silence else xs ! (i - k))" using k'(3) by (simp add: delayed_def)
  ultimately show ?thesis using k'(2) len unfolding ex fst_conv by (intro conjI exI [of _ k])
qed

definition ex_line :: DelayLineConfig where
  "ex_line = \<lparr>dc_Rate = 8000, dc_Frame = 4, dc_Base = 250000, dc_Jitter = 0, dc_ResamplePeriod = 0,
     dc_Noise = 0, dc_Seed = 1\<rparr>"

lemma ex_line_made:
  "NewDelayLine (\<lambda>s. s) (0 :: int) ex_line =
     Some \<lparr>dl_ring = replicate 8 0, dl_mask = 7, dl_pos = 0, dl_base = 2, dl_jitter = 0, dl_cur = 2,
           dl_resample = 4, dl_noise = 0, dl_rng = 1\<rparr>"
proof -
  have "duration_samples 250000 8000 = 2" "duration_samples 0 8000 = 0" by code_simp+
  moreover have "nextPow2 7 = Some 8"
    unfolding nextPow2_iff by (intro exI [of _ 3]) simp
  ultimately show ?thesis by (simp add: NewDelayLine_def ex_line_def)
qed

theorem delay_line_delays_exactly_witness:
  "fst (Exchange (\<lambda>n g. (0, g)) (\<lambda>_ g v. (v, g)) 0 [5, 6, 7, 8]
     (the (NewDelayLine (\<lambda>s. s) (0 :: int) ex_line))) ! 3 = 6"
proof -
  have "intn_ok (\<lambda>n (g :: int). (0, g))" by (simp add: intn_ok_def)
  from delay_line_delays_exactly [OF this ex_line_made, of 3 "[5, 6, 7, 8]" "\<lambda>_ g v. (v, g)"]
  show ?thesis unfolding ex_line_made by (auto simp: ex_line_def numeral_eq_Suc)
qed

text \<open>
  The rank of a percentile can be one too high: the stated method is the nearest rank, index
  \<^verbatim>\<open>ceil(p/100 * n) - 1\<close>, which for the 55th percentile of a hundred samples is 54, but the
  floating point product is above 55 and the function returns the sample at index 55.
\<close>

theorem percentile_55_is_one_rank_high:
  assumes "length xs = 100"
  shows "snd (Percentile xs 55) = Some (sort xs ! 55) \<and> \<lceil>55 / 100 * rat_of_nat (length xs)\<rceil> - 1 = 54"
proof -
  have "percentile_rank 55 100 = 56" by code_simp
  then show ?thesis using assms by (auto simp: Percentile_def)
qed

theorem percentile_55_is_one_rank_high_witness:
  "snd (Percentile [0..<100] 55) = Some (55 :: nat)"
proof -
  have "length [0 :: nat..<100] = 100" by simp
  from percentile_55_is_one_rank_high [OF this] show ?thesis by simp
qed

end
