(* ===== verification/Bench_Measure.thy ===== *)
theory Bench_Measure
  imports Bench_Rig
begin

text \<open>
  The pass of the measurement rig: \<^verbatim>\<open>Measure\<close> of \<^verbatim>\<open>bench/bench.go\<close> drives a system with one
  chirp per trial, frame by frame, and reports the delay of every chirp it finds again.  The system under
  test, the chirp and the correlator are arguments; delays are rationals and scores are of any ordered
  field, so no score is NaN.  The locales \<open>rig_system\<close> and \<open>delaying_system\<close> are what the rig relies
  on of the interface \<^verbatim>\<open>System\<close>; the delay line of \<open>Bench_Rig\<close> interprets them.
\<close>

subsection \<open>A pass\<close>

text \<open>\<open>None\<close> is the positive infinity of \<^verbatim>\<open>WeakestAccepted\<close> and the NaN of the figures in milliseconds.\<close>

record 'q Pass =
  TrialsAttempted :: int
  SampleCount :: int
  Misses :: int
  WeakestAccepted :: "'q option"
  P50Ms :: "rat option"
  P95Ms :: "rat option"
  P99Ms :: "rat option"
  MinMs :: "rat option"
  MaxMs :: "rat option"
  DelaysMs :: "rat list"

definition frame_in :: "'v list \<Rightarrow> 'v \<Rightarrow> nat \<Rightarrow> nat \<Rightarrow> 'v list" where
  "frame_in chirp silence base frame =
     map (\<lambda>i. let k = base + i in if k < length chirp then chirp ! k else silence) [0..<frame]"

text \<open>\<^verbatim>\<open>copy(window[base:], out)\<close>: as much as fits.\<close>

definition copy_at :: "nat \<Rightarrow> 'v list \<Rightarrow> 'v list \<Rightarrow> 'v list" where
  "copy_at base out window =
     (let n = min (length out) (length window - base)
      in take base window @ take n out @ drop (base + n) window)"

fun trial_frames ::
    "('v list \<Rightarrow> 's \<Rightarrow> 'v list \<times> 's) \<Rightarrow> 'v list \<Rightarrow> 'v \<Rightarrow> nat \<Rightarrow> nat list \<Rightarrow> 'v list \<Rightarrow> 's \<Rightarrow> 'v list \<times> 's"
where
  "trial_frames exchange chirp silence frame [] window s = (window, s)"
| "trial_frames exchange chirp silence frame (f # fs) window s =
     (let base = f * frame;
          (out, s1) = exchange (frame_in chirp silence base frame) s
      in trial_frames exchange chirp silence frame fs (copy_at base out window) s1)"

definition delay_ms :: "int \<Rightarrow> int \<Rightarrow> rat" where
  "delay_ms offset rate = go_float (go_float (go_float (of_int offset) / go_float (of_int rate)) * 1000)"

definition judge ::
    "'q :: linordered_field \<Rightarrow> int \<Rightarrow> int \<times> 'q \<Rightarrow> 'q Pass \<Rightarrow> rat list \<Rightarrow> 'q Pass \<times> rat list" where
  "judge threshold rate found pass delays =
     (let (offset, score) = found
      in if score < threshold then (pass\<lparr>Misses := Misses pass + 1\<rparr>, delays)
         else (let pass1 = (case WeakestAccepted pass of
                              None \<Rightarrow> pass\<lparr>WeakestAccepted := Some score\<rparr>
                            | Some w \<Rightarrow> if score < w then pass\<lparr>WeakestAccepted := Some score\<rparr> else pass)
               in (pass1, delays @ [delay_ms offset rate])))"

fun trials ::
    "('v list \<Rightarrow> 's \<Rightarrow> 'v list \<times> 's) \<Rightarrow> ('v list \<Rightarrow> int \<times> 'q) \<Rightarrow> 'v list \<Rightarrow> 'v \<Rightarrow> Rig_Config \<Rightarrow> nat \<Rightarrow>
     'v list \<Rightarrow> 's \<Rightarrow> ('q :: linordered_field) Pass \<Rightarrow> rat list \<Rightarrow> 'q Pass \<times> rat list \<times> 's"
where
  "trials exchange seek chirp silence cfg 0 window s pass delays = (pass, delays, s)"
| "trials exchange seek chirp silence cfg (Suc t) window s pass delays =
     (let frame = nat (rc_FrameSamples cfg);
          n = nat (rc_TrialPeriodSamples cfg) div frame;
          (window1, s1) = trial_frames exchange chirp silence frame [0..<n] window s;
          (pass1, delays1) = judge (of_rat (rc_DetectionThreshold cfg)) (rc_Rate cfg) (seek window1) pass delays
      in trials exchange seek chirp silence cfg t window1 s1 pass1 delays1)"

definition figures :: "('q :: linordered_field) Pass \<Rightarrow> rat list \<Rightarrow> 'q Pass" where
  "figures pass0 delays =
     (let pass = pass0\<lparr>SampleCount := int (length delays), DelaysMs := delays\<rparr>
      in if SampleCount pass = 0
         then pass\<lparr>WeakestAccepted := Some 0, P50Ms := None, P95Ms := None, P99Ms := None, MinMs := None,
                   MaxMs := None\<rparr>
         else (let (ds1, p50) = Percentile delays 50;
                   (ds2, p95) = Percentile ds1 95;
                   (ds3, p99) = Percentile ds2 99
               in pass\<lparr>P50Ms := p50, P95Ms := p95, P99Ms := p99, MinMs := Some (ds3 ! 0),
                       MaxMs := Some (ds3 ! (length ds3 - 1))\<rparr>))"

definition Measure ::
    "('v list \<Rightarrow> 's \<Rightarrow> 'v list \<times> 's) \<Rightarrow> (int \<Rightarrow> int \<Rightarrow> rat \<Rightarrow> rat \<Rightarrow> 'v list) \<Rightarrow>
     ('v list \<Rightarrow> int \<Rightarrow> 'v list \<Rightarrow> int \<times> ('q :: linordered_field)) \<Rightarrow> 'v \<Rightarrow> Rig_Config \<Rightarrow> 's \<Rightarrow>
     rig_fault + 'q Pass \<times> 's"
where
  "Measure exchange chirp_of correlator silence cfg s =
     (case Validate cfg of
        Some e \<Rightarrow> Inl e
      | None \<Rightarrow>
          (let chirp = chirp_of (rc_ChirpSamples cfg) (rc_Rate cfg) (rc_ChirpLowHz cfg) (rc_ChirpHighHz cfg);
               seek = correlator chirp (rc_TrialPeriodSamples cfg);
               window = replicate (nat (rc_TrialPeriodSamples cfg)) silence;
               pass0 = \<lparr>TrialsAttempted = rc_Trials cfg, SampleCount = 0, Misses = 0, WeakestAccepted = None,
                        P50Ms = Some 0, P95Ms = Some 0, P99Ms = Some 0, MinMs = Some 0, MaxMs = Some 0,
                        DelaysMs = []\<rparr>;
               (pass, delays, s') = trials exchange seek chirp silence cfg (nat (rc_Trials cfg)) window s pass0 []
           in Inr (figures pass delays, s')))"

subsection \<open>What a judgement adds up to\<close>

definition accounted :: "'q :: linordered_field \<Rightarrow> int \<Rightarrow> 'q Pass \<Rightarrow> rat list \<Rightarrow> bool" where
  "accounted threshold t pass delays \<longleftrightarrow>
     int (length delays) + Misses pass = t \<and> 0 \<le> Misses pass \<and>
     (delays = [] \<longleftrightarrow> WeakestAccepted pass = None) \<and>
     (\<forall>w. WeakestAccepted pass = Some w \<longrightarrow> threshold \<le> w)"

lemma judge_accounted:
  assumes "accounted threshold t pass delays" and "judge threshold rate found pass delays = (pass', delays')"
  shows "accounted threshold (t + 1) pass' delays' \<and> TrialsAttempted pass' = TrialsAttempted pass"
  using assms by (auto simp: judge_def accounted_def Let_def split: prod.splits if_splits option.splits)

lemma trials_accounted:
  assumes "accounted (of_rat (rc_DetectionThreshold cfg)) t pass delays"
    and "trials exchange seek chirp silence cfg n window s pass delays = (pass', delays', s')"
  shows "accounted (of_rat (rc_DetectionThreshold cfg)) (t + int n) pass' delays' \<and>
     TrialsAttempted pass' = TrialsAttempted pass"
  using assms
proof (induction n arbitrary: t window s pass delays)
  case 0
  then show ?case by simp
next
  case (Suc n)
  let ?frame = "nat (rc_FrameSamples cfg)"
  obtain window1 s1 where w:
      "trial_frames exchange chirp silence ?frame [0..<nat (rc_TrialPeriodSamples cfg) div ?frame] window s = (window1, s1)"
    by fastforce
  obtain pass1 delays1 where j:
      "judge (of_rat (rc_DetectionThreshold cfg)) (rc_Rate cfg) (seek window1) pass delays = (pass1, delays1)"
    by fastforce
  note one = judge_accounted [OF Suc.prems(1) j]
  have "trials exchange seek chirp silence cfg n window1 s1 pass1 delays1 = (pass', delays', s')"
    using Suc.prems(2) w j by simp
  from Suc.IH [OF one [THEN conjunct1] this] one show ?case by (simp add: algebra_simps)
qed

lemma figures_simps:
  "delays \<noteq> [] \<Longrightarrow> figures pass delays =
     pass\<lparr>SampleCount := int (length delays), DelaysMs := delays,
          P50Ms := snd (Percentile delays 50), P95Ms := snd (Percentile delays 95),
          P99Ms := snd (Percentile delays 99), MinMs := Some (sort delays ! 0),
          MaxMs := Some (sort delays ! (length delays - 1))\<rparr>"
proof -
  assume ne: "delays \<noteq> []"
  have P: "Percentile xs p = (sort xs, snd (Percentile xs p))" for xs :: "rat list" and p
    by (simp add: Percentile_sorted prod_eq_iff)
  have s: "sort (sort delays) = sort delays" by (rule sort_key_id_if_sorted) simp
  show ?thesis
    unfolding figures_def Let_def
    by (subst P, subst P, subst P) (simp add: ne s Percentile_sort)
qed

lemma figures_spread:
  assumes "delays \<noteq> []"
  shows "\<exists>lo hi. MinMs (figures pass delays) = Some lo \<and> MaxMs (figures pass delays) = Some hi \<and>
     lo \<in> List.set delays \<and> hi \<in> List.set delays \<and> (\<forall>v \<in> List.set delays. lo \<le> v \<and> v \<le> hi)"
proof (intro exI conjI ballI)
  let ?s = "sort delays"
  have len: "0 < length ?s" using assms by simp
  show "MinMs (figures pass delays) = Some (?s ! 0)" "MaxMs (figures pass delays) = Some (?s ! (length ?s - 1))"
    using assms by (simp_all add: figures_simps)
  show "?s ! 0 \<in> List.set delays" "?s ! (length ?s - 1) \<in> List.set delays"
    using nth_mem [of 0 ?s] nth_mem [of "length ?s - 1" ?s] len by simp_all
  fix v
  assume "v \<in> List.set delays"
  then obtain i where i: "i < length ?s" "?s ! i = v" by (metis in_set_conv_nth set_sort)
  show "?s ! 0 \<le> v" using sorted_nth_mono [of ?s 0 i] i by simp
  show "v \<le> ?s ! (length ?s - 1)" using sorted_nth_mono [of ?s i "length ?s - 1"] i by simp
qed

lemma figures_percentile:
  assumes "delays \<noteq> []" and "f \<in> {P50Ms, P95Ms, P99Ms}"
  shows "\<exists>v. f (figures pass delays) = Some v \<and> v \<in> List.set delays"
  using assms Percentile_mem [OF assms(1)] by (auto simp: figures_simps)

subsection \<open>A trial over a delay line\<close>

definition one_trial :: "'v list \<Rightarrow> 'v \<Rightarrow> nat \<Rightarrow> 'v list" where
  "one_trial chirp silence period = chirp @ replicate (period - length chirp) silence"

lemma frame_in_trial:
  assumes "length chirp \<le> period" and "base + frame \<le> period"
  shows "frame_in chirp silence base frame = take frame (drop base (one_trial chirp silence period))"
  by (rule nth_equalityI) (use assms in \<open>auto simp: frame_in_def one_trial_def nth_append Let_def\<close>)

lemma Exchange_length: "length (fst (Exchange intn noisy silence xs d)) = length xs"
proof (induction xs arbitrary: d)
  case (Cons x xs)
  show ?case using Cons.IH [of "snd (exchange_sample intn noisy silence x d)"]
    by (simp add: Let_def split_beta)
qed simp

lemma copy_at_fits:
  assumes "base + length out \<le> length window"
  shows "length (copy_at base out window) = length window \<and>
     take (base + length out) (copy_at base out window) = take base window @ out"
proof -
  have "min (length out) (length window - base) = length out" "min (length window) base = base"
    using assms by simp_all
  then show ?thesis using assms by (simp add: copy_at_def Let_def)
qed

lemma one_trial_nth:
  "length chirp \<le> period \<Longrightarrow> i < period \<Longrightarrow>
     one_trial chirp silence period ! i = (if i < length chirp then chirp ! i else silence)"
  by (simp add: one_trial_def nth_append)

lemma one_trial_length: "length chirp \<le> period \<Longrightarrow> length (one_trial chirp silence period) = period"
  by (simp add: one_trial_def)

text \<open>What a trial hears: the silence its own chirp needs to arrive, the chirp, silence.\<close>

definition heard :: "'v list \<Rightarrow> 'v \<Rightarrow> nat \<Rightarrow> nat \<Rightarrow> 'v list" where
  "heard chirp silence period k =
     replicate k silence @ chirp @ replicate (period - length chirp - k) silence"

lemma delayed_trial:
  assumes "length chirp \<le> period" and "k + length chirp \<le> period" and "i < period"
    and "xs = concat (replicate t (one_trial chirp silence period))"
  shows "delayed silence k (xs @ one_trial chirp silence period) (length xs + i) =
     heard chirp silence period k ! i"
proof (cases "i < k")
  case True
  show ?thesis
  proof (cases t)
    case 0
    then show ?thesis using True assms(4) by (simp add: delayed_def heard_def nth_append)
  next
    case (Suc n)
    let ?p = "one_trial chirp silence period"
    let ?ys = "concat (replicate n ?p)"
    have xs: "xs = ?ys @ ?p"
      using assms(4) Suc replicate_append_same [of n ?p] by (metis concat.simps concat_append append_Nil2 replicate_Suc)
    let ?j = "period + i - k"
    have j: "length xs + i - k = length ?ys + ?j" "\<not> length xs + i < k" "?j < period" "length chirp \<le> ?j"
      using True assms(1,2) by (simp_all add: xs one_trial_length)
    have "delayed silence k (xs @ ?p) (length xs + i) = (?ys @ ?p @ ?p) ! (length ?ys + ?j)"
      using j(2) by (simp only: delayed_def j(1) [symmetric] if_False xs append_assoc)
    also have "\<dots> = (?p @ ?p) ! ?j" by (rule nth_append_length_plus)
    also have "\<dots> = ?p ! ?j" using j(3) by (simp add: nth_append one_trial_length [OF assms(1)])
    also have "\<dots> = silence" using j(4) one_trial_nth [OF assms(1) j(3)] by simp
    finally show ?thesis using True by (simp add: heard_def nth_append)
  qed
next
  case False
  let ?p = "one_trial chirp silence period"
  have "?p ! (i - k) = heard chirp silence period k ! i"
    using False assms(2,3) by (auto simp: one_trial_nth [OF assms(1)] heard_def nth_append)
  moreover have "(xs @ ?p) ! (length xs + i - k) = ?p ! (i - k)"
    using False nth_append_length_plus [of xs ?p "i - k"] by simp
  ultimately show ?thesis using False by (simp only: delayed_def) simp
qed

lemma Measure_valid:
  "Validate cfg = None \<Longrightarrow> \<exists>pass s'. Measure exchange chirp_of correlator silence cfg s = Inr (pass, s')"
  by (simp add: Measure_def Let_def split_beta)

text \<open>
  The correlator the rig is measured with: a clean copy of the reference in silence is found where it
  is, with a score that is accepted.
\<close>

definition finds_exactly ::
    "('v list \<Rightarrow> int \<times> ('q :: linordered_field)) \<Rightarrow> 'v list \<Rightarrow> 'v \<Rightarrow> nat \<Rightarrow> 'q \<Rightarrow> bool" where
  "finds_exactly seek chirp silence period threshold \<longleftrightarrow>
     (\<forall>k. k + length chirp \<le> period \<longrightarrow>
        (\<exists>score. threshold \<le> score \<and> seek (heard chirp silence period k) = (int k, score)))"

lemma sort_replicate: "sort (replicate n v) = replicate n v"
  by (rule sort_key_id_if_sorted) (simp add: sorted_replicate)

lemma figures_constant:
  assumes "0 < n" and "delays = replicate n v"
  shows "SampleCount (figures pass delays) = int n \<and> DelaysMs (figures pass delays) = delays \<and>
     Misses (figures pass delays) = Misses pass \<and>
     P50Ms (figures pass delays) = Some v \<and> P95Ms (figures pass delays) = Some v \<and>
     P99Ms (figures pass delays) = Some v \<and> MinMs (figures pass delays) = Some v \<and>
     MaxMs (figures pass delays) = Some v"
proof -
  have ne: "delays \<noteq> []" using assms by simp
  have "snd (Percentile delays p) = Some v" for p
    using Percentile_mem [OF ne, of p] assms(2) by auto
  then show ?thesis using assms ne by (simp add: figures_simps sort_replicate)
qed

subsection \<open>Properties\<close>

lemma Measure_raw:
  fixes correlator :: "'v list \<Rightarrow> int \<Rightarrow> 'v list \<Rightarrow> int \<times> ('q :: linordered_field)"
  assumes "Measure exchange chirp_of correlator silence cfg s = Inr (pass, s')"
  shows "\<exists>raw delays. pass = figures raw delays \<and>
     accounted (of_rat (rc_DetectionThreshold cfg)) (rc_Trials cfg) raw delays \<and> TrialsAttempted raw = rc_Trials cfg"
proof -
  let ?chirp = "chirp_of (rc_ChirpSamples cfg) (rc_Rate cfg) (rc_ChirpLowHz cfg) (rc_ChirpHighHz cfg)"
  let ?pass0 = "\<lparr>TrialsAttempted = rc_Trials cfg, SampleCount = 0, Misses = 0, WeakestAccepted = None :: 'q option,
     P50Ms = Some 0, P95Ms = Some 0, P99Ms = Some 0, MinMs = Some 0, MaxMs = Some 0, DelaysMs = []\<rparr>"
  obtain raw delays where t: "trials exchange (correlator ?chirp (rc_TrialPeriodSamples cfg)) ?chirp silence cfg
        (nat (rc_Trials cfg)) (replicate (nat (rc_TrialPeriodSamples cfg)) silence) s ?pass0 [] = (raw, delays, s')"
      and pass: "pass = figures raw delays" and v: "Validate cfg = None"
    using assms by (auto simp: Measure_def Let_def split: option.splits prod.splits)
  have "0 < rc_Trials cfg" using v by (simp add: Validate_def split: if_splits)
  moreover have "accounted (of_rat (rc_DetectionThreshold cfg)) 0 ?pass0 []" by (simp add: accounted_def)
  ultimately have a: "accounted (of_rat (rc_DetectionThreshold cfg)) (rc_Trials cfg) raw delays"
      "TrialsAttempted raw = rc_Trials cfg"
    using trials_accounted [OF _ t, of 0] by simp_all
  with pass show ?thesis by blast
qed

text \<open>
  C35: A pass accounts for every trial: the detections and the misses add up to the trials asked for,
  there is one delay per detection, the weakest accepted score is at or above the threshold wherever
  there was a detection, and then the percentiles are delays that were measured, between the reported
  extremes; with none they are all missing.
\<close>

theorem Measure_accounts_for_every_trial:
  fixes correlator :: "'v list \<Rightarrow> int \<Rightarrow> 'v list \<Rightarrow> int \<times> ('q :: linordered_field)"
  assumes "Measure exchange chirp_of correlator silence cfg s = Inr (pass, s')"
  shows "SampleCount pass + Misses pass = rc_Trials cfg \<and> TrialsAttempted pass = rc_Trials cfg \<and>
     SampleCount pass = int (length (DelaysMs pass)) \<and>
     (if DelaysMs pass = [] then P50Ms pass = None \<and> P95Ms pass = None \<and> P99Ms pass = None \<and> MinMs pass = None
      else \<exists>w lo hi p50 p95 p99. WeakestAccepted pass = Some w \<and> of_rat (rc_DetectionThreshold cfg) \<le> w \<and>
        MinMs pass = Some lo \<and> MaxMs pass = Some hi \<and>
        P50Ms pass = Some p50 \<and> P95Ms pass = Some p95 \<and> P99Ms pass = Some p99 \<and>
        {lo, p50, p95, p99, hi} \<subseteq> List.set (DelaysMs pass) \<and> List.set (DelaysMs pass) \<subseteq> {lo..hi})"
proof -
  obtain raw delays where pass: "pass = figures raw delays"
      and a: "accounted (of_rat (rc_DetectionThreshold cfg)) (rc_Trials cfg) raw delays" "TrialsAttempted raw = rc_Trials cfg"
    using Measure_raw [OF assms] by blast
  show ?thesis
  proof (cases "delays = []")
    case True
    then show ?thesis using a by (simp add: pass figures_def accounted_def Let_def)
  next
    case False
    obtain w where w: "WeakestAccepted raw = Some w" "of_rat (rc_DetectionThreshold cfg) \<le> w"
      using a(1) False by (auto simp: accounted_def)
    obtain lo hi where e: "MinMs pass = Some lo" "MaxMs pass = Some hi" "lo \<in> List.set delays" "hi \<in> List.set delays"
        "\<forall>v \<in> List.set delays. lo \<le> v \<and> v \<le> hi"
      using figures_spread [OF False, of raw] unfolding pass by (elim exE conjE)
    obtain p50 where p50: "P50Ms pass = Some p50" "p50 \<in> List.set delays"
      using figures_percentile [OF False, of P50Ms raw] unfolding pass by auto
    obtain p95 where p95: "P95Ms pass = Some p95" "p95 \<in> List.set delays"
      using figures_percentile [OF False, of P95Ms raw] unfolding pass by auto
    obtain p99 where p99: "P99Ms pass = Some p99" "p99 \<in> List.set delays"
      using figures_percentile [OF False, of P99Ms raw] unfolding pass by auto
    have f: "DelaysMs pass = delays" "WeakestAccepted pass = Some w" "SampleCount pass = int (length delays)"
        "Misses pass = Misses raw" "TrialsAttempted pass = TrialsAttempted raw"
      using False w by (simp_all add: pass figures_simps)
    have "List.set delays \<subseteq> {lo..hi}" using e(5) by auto
    then show ?thesis using a w e(1-4) p50 p95 p99 False by (simp add: f accounted_def)
  qed
qed

subsection \<open>The interface of a system\<close>

text \<open>
  What the rig relies on of the interface \<^verbatim>\<open>System\<close>: every sample is answered by one, and
  how a stream is cut into frames makes no difference.
\<close>

locale rig_system =
  fixes exchange :: "'v list \<Rightarrow> 's \<Rightarrow> 'v list \<times> 's"
  assumes exchange_nil: "exchange [] s = ([], s)"
    and exchange_length: "length (fst (exchange xs s)) = length xs"
    and exchange_append: "exchange (xs @ ys) s =
      (let (out1, s1) = exchange xs s; (out2, s2) = exchange ys s1 in (out1 @ out2, s2))"
begin

lemma trial_frames_exchange:
  assumes "length chirp \<le> n * frame" and "length window = n * frame" and "f \<le> n"
  shows "trial_frames exchange chirp silence frame [f..<n] window d =
     (let (out, d') = exchange (drop (f * frame) (one_trial chirp silence (n * frame))) d
      in (take (f * frame) window @ out, d'))"
  using assms(2,3)
proof (induction "n - f" arbitrary: f window d)
  case 0
  then have f: "f = n" by simp
  have "drop (n * frame) (one_trial chirp silence (n * frame)) = []"
    using assms(1) by (simp add: one_trial_def)
  then show ?case using 0 f by (simp add: exchange_nil)
next
  case (Suc k)
  let ?p = "one_trial chirp silence (n * frame)"
  have f: "f < n" "k = n - Suc f" using Suc.hyps(2) by simp_all
  have b: "f * frame + frame \<le> n * frame" using mult_le_mono1 [of "Suc f" n frame] f by simp
  have split: "drop (f * frame) ?p = take frame (drop (f * frame) ?p) @ drop (Suc f * frame) ?p"
    by (metis append_take_drop_id drop_drop mult_Suc)
  obtain out1 d1 where e1: "exchange (take frame (drop (f * frame) ?p)) d = (out1, d1)"
    by fastforce
  have "length ?p = n * frame" using assms(1) by (simp add: one_trial_def)
  then have l1: "length out1 = frame"
    using exchange_length [of "take frame (drop (f * frame) ?p)" d] b
    by (simp add: e1)
  let ?w = "copy_at (f * frame) out1 window"
  have w: "length ?w = n * frame" "take (Suc f * frame) ?w = take (f * frame) window @ out1"
  proof -
    have e: "Suc f * frame = f * frame + length out1" using l1 by simp
    have "f * frame + length out1 \<le> length window" using b l1 Suc.prems(1) by simp
    note c = copy_at_fits [OF this]
    show "length ?w = n * frame" using c Suc.prems(1) by simp
    show "take (Suc f * frame) ?w = take (f * frame) window @ out1" using c by (simp only: e)
  qed
  note rest = Suc.hyps(1) [OF f(2) w(1) Suc_leI [OF f(1)], of d1]
  have "[f..<n] = f # [Suc f..<n]" using f(1) by (rule upt_conv_Cons)
  then have "trial_frames exchange chirp silence frame [f..<n] window d =
      trial_frames exchange chirp silence frame [Suc f..<n] ?w d1"
    using frame_in_trial [OF assms(1) b] e1 by simp
  also have "\<dots> = (let (out, d') = exchange (drop (f * frame) ?p) d
      in (take (f * frame) window @ out, d'))"
    unfolding rest w(2) by (subst split) (simp add: exchange_append e1 Let_def split: prod.splits)
  finally show ?case .
qed

end

text \<open>
  A system that does nothing but delay: \<open>fed xs s\<close> says that \<open>s\<close> has taken \<open>xs\<close> since
  it was made.
\<close>

locale delaying_system = rig_system exchange for exchange :: "'v list \<Rightarrow> 's \<Rightarrow> 'v list \<times> 's" +
  fixes fed :: "'v list \<Rightarrow> 's \<Rightarrow> bool"
    and silence :: 'v
    and lag :: nat
  assumes fed_exchange: "fed xs s \<Longrightarrow> exchange ys s = (out, s') \<Longrightarrow> fed (xs @ ys) s'"
    and exchange_delays: "fed xs s \<Longrightarrow> exchange ys s = (out, s') \<Longrightarrow> i < length ys \<Longrightarrow>
      out ! i = delayed silence lag (xs @ ys) (length xs + i)"
begin

lemma trial_hears:
  assumes "fed xs s" and "xs = concat (replicate t (one_trial chirp silence period))"
    and "lag + length chirp \<le> period" and "exchange (one_trial chirp silence period) s = (out, s')"
  shows "out = heard chirp silence period lag"
proof (rule nth_equalityI)
  have c: "length chirp \<le> period" using assms(3) by simp
  have len: "length out = period"
    using exchange_length [of "one_trial chirp silence period" s] assms(4) by (simp add: one_trial_length [OF c])
  then show "length out = length (heard chirp silence period lag)" using assms(3) by (simp add: heard_def)
  fix i
  assume "i < length out"
  then have i: "i < period" using len by simp
  then have "out ! i = delayed silence lag (xs @ one_trial chirp silence period) (length xs + i)"
    using exchange_delays [OF assms(1,4), of i] by (simp add: one_trial_length [OF c])
  also have "\<dots> = heard chirp silence period lag ! i" by (rule delayed_trial [OF c assms(3) i assms(2)])
  finally show "out ! i = heard chirp silence period lag ! i" .
qed

lemma trials_hear:
  assumes "fed xs s" and "xs = concat (replicate t (one_trial chirp silence period))"
    and "lag + length chirp \<le> period"
    and "period = nat (rc_TrialPeriodSamples cfg)" and "length window = period"
    and "period = n * nat (rc_FrameSamples cfg)" and "0 < rc_FrameSamples cfg"
    and "seek (heard chirp silence period lag) = (int lag, score)"
    and "of_rat (rc_DetectionThreshold cfg) \<le> score"
    and "trials exchange seek chirp silence cfg m window s pass delays = (pass', delays', s')"
  shows "delays' = delays @ replicate m (delay_ms (int lag) (rc_Rate cfg)) \<and> Misses pass' = Misses pass"
  using assms(1,2,5,10)
proof (induction m arbitrary: s xs t window pass delays)
  case 0
  then show ?case by simp
next
  case (Suc m)
  let ?p = "one_trial chirp silence period" and ?frame = "nat (rc_FrameSamples cfg)"
  have n: "nat (rc_TrialPeriodSamples cfg) div ?frame = n"
    using assms(7) by (simp only: assms(4) [symmetric] assms(6)) simp
  obtain out s1 where e: "exchange ?p s = (out, s1)" by fastforce
  note h = trial_hears [OF Suc.prems(1,2) assms(3) e] fed_exchange [OF Suc.prems(1) e]
  have fr: "trial_frames exchange chirp silence ?frame [0..<n] window s = (out, s1)"
    using trial_frames_exchange [of chirp n ?frame window 0 silence s] Suc.prems(3) assms(3) e
    by (simp add: assms(6) [symmetric])
  obtain pass1 delays1 where j:
      "judge (of_rat (rc_DetectionThreshold cfg)) (rc_Rate cfg) (int lag, score) pass delays = (pass1, delays1)"
    by fastforce
  have j1: "delays1 = delays @ [delay_ms (int lag) (rc_Rate cfg)]" "Misses pass1 = Misses pass"
    using j assms(9) by (auto simp: judge_def Let_def split: option.splits if_splits)
  have r: "trials exchange seek chirp silence cfg m out s1 pass1 delays1 = (pass', delays', s')"
    using Suc.prems(4) j h(1) assms(8) by (simp add: n fr)
  have xs: "xs @ ?p = concat (replicate (Suc t) ?p)"
    using Suc.prems(2) replicate_append_same [of t ?p] by (metis concat.simps concat_append append_Nil2 replicate_Suc)
  have len: "length out = period" using h(1) assms(3) by (simp add: heard_def)
  from Suc.IH [OF h(2) xs len r] j1 show ?case by simp
qed

text \<open>
  With a correlator that finds a clean chirp where it is, every trial is a detection of exactly the
  system's delay.
\<close>

lemma measures_lag:
  fixes correlator :: "'v list \<Rightarrow> int \<Rightarrow> 'v list \<Rightarrow> int \<times> ('q :: linordered_field)"
  assumes "fed [] s" and "Validate cfg = None" and "int lag + rc_ChirpSamples cfg \<le> rc_TrialPeriodSamples cfg"
    and "chirp = chirp_of (rc_ChirpSamples cfg) (rc_Rate cfg) (rc_ChirpLowHz cfg) (rc_ChirpHighHz cfg)"
    and "length chirp = nat (rc_ChirpSamples cfg)"
    and "finds_exactly (correlator chirp (rc_TrialPeriodSamples cfg)) chirp silence
           (nat (rc_TrialPeriodSamples cfg)) (of_rat (rc_DetectionThreshold cfg))"
    and "known = delay_ms (int lag) (rc_Rate cfg)"
  shows "\<exists>pass s'. Measure exchange chirp_of correlator silence cfg s = Inr (pass, s') \<and>
     SampleCount pass = rc_Trials cfg \<and> Misses pass = 0 \<and>
     DelaysMs pass = replicate (nat (rc_Trials cfg)) known \<and>
     P50Ms pass = Some known \<and> P95Ms pass = Some known \<and> P99Ms pass = Some known \<and>
     MinMs pass = Some known \<and> MaxMs pass = Some known"
proof -
  let ?period = "nat (rc_TrialPeriodSamples cfg)"
  let ?pass0 = "\<lparr>TrialsAttempted = rc_Trials cfg, SampleCount = 0, Misses = 0, WeakestAccepted = None :: 'q option,
     P50Ms = Some 0, P95Ms = Some 0, P99Ms = Some 0, MinMs = Some 0, MaxMs = Some 0, DelaysMs = []\<rparr>"
  have v: "0 < rc_FrameSamples cfg" "0 < rc_Trials cfg" "0 < rc_ChirpSamples cfg"
      "rc_TrialPeriodSamples cfg mod rc_FrameSamples cfg = 0"
    using assms(2) by (auto simp: Validate_def split: if_splits)
  have room: "lag + length chirp \<le> ?period" using assms(3,5) v(3) by simp
  have "rc_FrameSamples cfg dvd rc_TrialPeriodSamples cfg" using v(4) by (simp add: dvd_eq_mod_eq_0)
  then have "nat (rc_FrameSamples cfg) dvd ?period" using v(1) by (simp add: nat_dvd_iff)
  then obtain n where n: "?period = n * nat (rc_FrameSamples cfg)" by (metis dvdE mult.commute)
  obtain score where score: "of_rat (rc_DetectionThreshold cfg) \<le> score"
      "correlator chirp (rc_TrialPeriodSamples cfg) (heard chirp silence ?period lag) = (int lag, score)"
    using assms(6) room unfolding finds_exactly_def by blast
  obtain raw delays s' where t: "trials exchange (correlator chirp (rc_TrialPeriodSamples cfg))
      chirp silence cfg (nat (rc_Trials cfg)) (replicate ?period silence) s ?pass0 [] = (raw, delays, s')"
    by (metis prod_cases3)
  have "delays = [] @ replicate (nat (rc_Trials cfg)) (delay_ms (int lag) (rc_Rate cfg)) \<and> Misses raw = Misses ?pass0"
    by (rule trials_hear [OF assms(1) _ room refl _ n v(1) score(2,1) t, of 0]) simp_all
  then have "delays = replicate (nat (rc_Trials cfg)) known" "Misses raw = 0" using assms(7) by simp_all
  note f = figures_constant [OF _ this(1), of raw] this
  have "Measure exchange chirp_of correlator silence cfg s = Inr (figures raw delays, s')"
    using t by (simp add: Measure_def assms(2) assms(4) [symmetric] Let_def)
  then show ?thesis using f v(2) by (intro exI [of _ "figures raw delays"] exI [of _ s'] conjI) simp_all
qed

end

subsection \<open>The delay line is such a system\<close>

definition line_fed :: "(int \<Rightarrow> 'g \<Rightarrow> int \<times> 'g) \<Rightarrow> nat \<Rightarrow> 'v list \<Rightarrow> ('v, 'g) DelayLine \<Rightarrow> bool" where
  "line_fed intn lag xs d \<longleftrightarrow> intn_ok intn \<and> holds xs d \<and> steady d \<and> dl_jitter d = 0 \<and> dl_base d = int lag"

interpretation line: rig_system "Exchange intn noisy silence" for intn noisy silence
  by unfold_locales (simp_all add: Exchange_length Exchange_append)

interpretation steady_line: delaying_system "Exchange intn noisy silence" "line_fed intn lag" silence lag
  for intn :: "int \<Rightarrow> 'g \<Rightarrow> int \<times> 'g" and noisy and silence :: 'v and lag
proof unfold_locales
  fix xs :: "'v list" and d ys out d'
  assume fed: "line_fed intn lag xs d" and e: "Exchange intn noisy silence ys d = (out, d')"
  then have E: "holds (xs @ ys) d' \<and> steady d' \<and> dl_base d' = dl_base d \<and> dl_jitter d' = dl_jitter d \<and>
     length out = length ys \<and>
     (\<forall>i < length ys. \<exists>k. nat (dl_base d) \<le> k \<and> int k \<le> dl_base d + dl_jitter d \<and>
        out ! i = delayed silence k (xs @ ys) (length xs + i))"
    by (intro Exchange_delays [OF _ _ _ e]) (simp_all add: line_fed_def)
  then show "line_fed intn lag (xs @ ys) d'" using fed by (simp add: line_fed_def)
  fix i
  assume "i < length ys"
  then obtain k where "lag \<le> k" "int k \<le> int lag" "out ! i = delayed silence k (xs @ ys) (length xs + i)"
    using E fed by (auto simp: line_fed_def)
  then show "out ! i = delayed silence lag (xs @ ys) (length xs + i)" by simp
qed

text \<open>Pointed at a delay line without jitter and without noise, the rig reports the line's delay.\<close>

lemma measures_known_delay:
  fixes correlator :: "'v list \<Rightarrow> int \<Rightarrow> 'v list \<Rightarrow> int \<times> ('q :: linordered_field)"
  assumes "intn_ok intn" and "NewDelayLine seeded silence line = Some d" and "dc_Noise line \<le> 0"
    and "0 \<le> dl_base d" and "dl_jitter d = 0" and "0 \<le> dc_Frame line"
    and "Validate cfg = None" and "dl_base d + rc_ChirpSamples cfg \<le> rc_TrialPeriodSamples cfg"
    and "chirp = chirp_of (rc_ChirpSamples cfg) (rc_Rate cfg) (rc_ChirpLowHz cfg) (rc_ChirpHighHz cfg)"
    and "length chirp = nat (rc_ChirpSamples cfg)"
    and "finds_exactly (correlator chirp (rc_TrialPeriodSamples cfg)) chirp silence
           (nat (rc_TrialPeriodSamples cfg)) (of_rat (rc_DetectionThreshold cfg))"
    and "known = delay_ms (dl_base d) (rc_Rate cfg)"
  shows "\<exists>pass d'. Measure (Exchange intn noisy silence) chirp_of correlator silence cfg d = Inr (pass, d') \<and>
     SampleCount pass = rc_Trials cfg \<and> Misses pass = 0 \<and>
     DelaysMs pass = replicate (nat (rc_Trials cfg)) known \<and>
     P50Ms pass = Some known \<and> P95Ms pass = Some known \<and> P99Ms pass = Some known \<and>
     MinMs pass = Some known \<and> MaxMs pass = Some known"
proof -
  have lag: "int (nat (dl_base d)) = dl_base d" using assms(4) by simp
  have "holds [] d \<and> steady d" by (rule NewDelayLine_fresh [OF assms(2,3,4) _ assms(6)]) (simp add: assms(5))
  then have fed: "line_fed intn (nat (dl_base d)) [] d" using assms(1,4,5) by (simp add: line_fed_def)
  show ?thesis
    by (rule steady_line.measures_lag [where chirp_of = chirp_of and correlator = correlator, OF fed assms(7) _ assms(9-11)]) (use assms(8,12) lag in simp_all)
qed

definition ex_rig :: Rig_Config where
  "ex_rig = \<lparr>rc_Rate = 8000, rc_FrameSamples = 4, rc_ChirpSamples = 2, rc_ChirpLowHz = 300, rc_ChirpHighHz = 3000,
     rc_Trials = 3, rc_TrialPeriodSamples = 8, rc_DetectionThreshold = 3 / 10\<rparr>"

text \<open>For a chirp with no zero at its start the first sample that is not silence will do.\<close>

definition ex_seek :: "int list \<Rightarrow> int \<Rightarrow> int list \<Rightarrow> int \<times> rat" where
  "ex_seek chirp period window = (int (length (takeWhile (\<lambda>v. v = 0) window)), 1)"

theorem Measure_accounts_for_every_trial_witness:
  "\<exists>pass d'. Measure (Exchange (\<lambda>n g. (0, g)) (\<lambda>_ g v. (v, g)) 0) (\<lambda>_ _ _ _. [1, 2]) ex_seek 0 ex_rig
       (the (NewDelayLine (\<lambda>s. s) (0 :: int) ex_line)) = Inr (pass, d') \<and>
     SampleCount pass + Misses pass = 3"
proof -
  have v: "Validate ex_rig = None" by (simp add: Validate_def ex_rig_def)
  obtain pass d' where
    "Measure (Exchange (\<lambda>n g. (0, g)) (\<lambda>_ g v. (v, g)) 0) (\<lambda>_ _ _ _. [1, 2]) ex_seek 0 ex_rig
       (the (NewDelayLine (\<lambda>s. s) (0 :: int) ex_line)) = Inr (pass, d')"
    using Measure_valid [OF v, of "Exchange (\<lambda>n g. (0, g)) (\<lambda>_ g v. (v, g)) 0" "\<lambda>_ _ _ _. [1, 2]" ex_seek 0
        "the (NewDelayLine (\<lambda>s. s) (0 :: int) ex_line)"] by auto
  from Measure_accounts_for_every_trial [OF this] this show ?thesis by (simp add: ex_rig_def)
qed

end
