(* ===== verification/Bench_Fft.thy ===== *)
theory Bench_Fft
  imports Complex_Main "HOL-Library.Word"
begin

unbundle bit_operations_syntax

text \<open>
  The transform \<^verbatim>\<open>fft\<close> of \<^verbatim>\<open>bench/dsp.go\<close>: the bit-reversal permutation and the
  butterflies, in place, over any arithmetic.  \<open>rect backward n\<close> stands for the \<^verbatim>\<open>cmplx.Rect\<close> of
  a stage of that length.  The lemmas show that in a commutative ring, where nothing is rounded, the result
  is the discrete Fourier transform.
\<close>

subsection \<open>The code\<close>

text \<open>The inner loop over \<^verbatim>\<open>bit\<close>: it ends with a \<open>bit\<close> of \<open>j\<close> that is not set.\<close>

function carry :: "nat \<Rightarrow> nat \<Rightarrow> nat \<times> nat" where
  "carry j b = (if j AND b \<noteq> 0 then carry (j XOR b) (b div 2) else (j, b))"
  by pat_completeness auto

termination carry
proof (relation "measure snd")
  fix j b :: nat
  assume "j AND b \<noteq> 0"
  then have "b \<noteq> 0" by (cases "b = 0") simp_all
  then show "((j XOR b, b div 2), j, b) \<in> measure snd" by simp
qed simp

declare carry.simps [simp del]

definition swap_at :: "nat \<Rightarrow> nat \<Rightarrow> 'c list \<Rightarrow> 'c list" where
  "swap_at i j x = x[i := x ! j, j := x ! i]"

fun reorder :: "nat \<Rightarrow> nat list \<Rightarrow> nat \<Rightarrow> 'c list \<Rightarrow> 'c list" where
  "reorder n [] j x = x"
| "reorder n (i # is) j x =
     (let (j0, b) = carry j (n div 2); j1 = j0 OR b
      in reorder n is j1 (if i < j1 then swap_at i j1 x else x))"

fun butterflies ::
    "'c :: {plus, minus, times} \<Rightarrow> nat \<Rightarrow> nat \<Rightarrow> nat list \<Rightarrow> 'c \<Rightarrow> 'c list \<Rightarrow> 'c list" where
  "butterflies wl half i [] w x = x"
| "butterflies wl half i (j # js) w x =
     (let u = x ! (i + j); v = x ! (i + j + half) * w
      in butterflies wl half i js (w * wl) (x[i + j := u + v, i + j + half := u - v]))"

text \<open>\<^verbatim>\<open>for i := 0; i < n; i += length\<close>; the length is never zero.\<close>

function stage_from :: "'c :: {plus, minus, times, one} \<Rightarrow> nat \<Rightarrow> nat \<Rightarrow> nat \<Rightarrow> 'c list \<Rightarrow> 'c list" where
  "stage_from wl len n i x =
     (if i < n \<and> 0 < len
      then stage_from wl len n (i + len) (butterflies wl (len div 2) i [0..<len div 2] 1 x) else x)"
  by pat_completeness auto

termination stage_from
  by (relation "measure (\<lambda>(wl, len, n, i, x). n - i)") auto

declare stage_from.simps [simp del]

function stages :: "(nat \<Rightarrow> 'c :: {plus, minus, times, one}) \<Rightarrow> nat \<Rightarrow> nat \<Rightarrow> 'c list \<Rightarrow> 'c list" where
  "stages rect n len x =
     (if len \<le> n \<and> 0 < len then stages rect n (push_bit 1 len) (stage_from (rect len) len n 0 x) else x)"
  by pat_completeness auto

termination stages
  by (relation "measure (\<lambda>(rect, n, len, x). Suc n - len)") (auto simp: push_bit_eq_mult)

declare stages.simps [simp del]

definition fft :: "(bool \<Rightarrow> nat \<Rightarrow> 'c :: {plus, minus, times, one}) \<Rightarrow> 'c list \<Rightarrow> bool \<Rightarrow> 'c list" where
  "fft rect x backward =
     (let n = length x
      in if n \<le> 1 then x else stages (rect backward) n 2 (reorder n [1..<n] 0 x))"

subsection \<open>Reversing the bits of an index\<close>

fun brev :: "nat \<Rightarrow> nat \<Rightarrow> nat" where
  "brev 0 b = 0"
| "brev (Suc t) b = (b mod 2) * 2 ^ t + brev t (b div 2)"

lemma brev_less: "brev t b < 2 ^ t"
proof (induction t arbitrary: b)
  case (Suc t)
  have "b mod 2 \<le> 1" by simp
  then have "(b mod 2) * 2 ^ t \<le> 1 * 2 ^ t" by (rule mult_le_mono1)
  then show ?case using Suc.IH [of "b div 2"] unfolding brev.simps power_Suc by linarith
qed simp

lemma bit_brev: "bit (brev t b) i \<longleftrightarrow> i < t \<and> bit b (t - 1 - i)"
proof (induction t arbitrary: b i)
  case (Suc t)
  have r: "brev t (b div 2) < 2 ^ t" by (rule brev_less)
  have "brev (Suc t) b = push_bit t (b mod 2) OR brev t (b div 2)"
  proof -
    have "push_bit t (b mod 2) + brev t (b div 2) = push_bit t (b mod 2) OR brev t (b div 2)"
      by (rule disjunctive_add) (use Suc.IH in \<open>auto simp: bit_push_bit_iff\<close>)
    then show ?thesis by (simp add: push_bit_eq_mult)
  qed
  then show ?case
    using Suc.IH [of "b div 2" i]
    by (cases "i = t") (auto simp: bit_or_iff bit_push_bit_iff bit_Suc [symmetric] bit_0 bit_mod_2_iff
        Suc_diff_Suc odd_iff_mod_2_eq_one)
qed simp

lemma brev_brev: "b < 2 ^ t \<Longrightarrow> brev t (brev t b) = b"
proof -
  assume "b < 2 ^ t"
  then have "take_bit t b = b" by (simp add: take_bit_nat_eq_self)
  then have small: "i < t" if "bit b i" for i using that by (metis bit_take_bit_iff)
  show ?thesis
  proof (rule bit_eqI)
    fix n
    have "t - 1 - (t - 1 - n) = n" if "n < t" using that by simp
    then show "bit (brev t (brev t b)) n = bit b n" using small [of n] by (auto simp: bit_brev)
  qed
qed

text \<open>Carrying from the top bit down is counting in reversed bits.\<close>

lemma top_bit:
  assumes "r < (2 :: nat) ^ t"
  shows "r AND 2 ^ t = 0" "r OR 2 ^ t = 2 ^ t + r" "(2 ^ t + r) AND 2 ^ t \<noteq> 0" "(2 ^ t + r) XOR 2 ^ t = r"
proof -
  have r: "take_bit t r = r" using assms by (simp add: take_bit_nat_eq_self)
  then have small: "i < t" if "bit r i" for i using that by (metis bit_take_bit_iff)
  then have nb: "\<not> bit r t" by blast
  show "r AND 2 ^ t = 0" by (rule bit_eqI) (use nb in \<open>auto simp: bit_and_iff bit_exp_iff\<close>)
  have sum: "2 ^ t + r = 2 ^ t OR r"
    by (rule disjunctive_add) (use nb in \<open>auto simp: bit_exp_iff\<close>)
  then show "r OR 2 ^ t = 2 ^ t + r" by (simp add: ac_simps)
  have "bit ((2 ^ t + r) AND 2 ^ t) t" unfolding sum by (simp add: bit_and_iff bit_or_iff bit_exp_iff)
  then show "(2 ^ t + r) AND 2 ^ t \<noteq> 0" by (metis bit_0_eq bot_apply bot_bool_def)
  show "(2 ^ t + r) XOR 2 ^ t = r"
    unfolding sum by (rule bit_eqI) (use nb in \<open>auto simp: bit_xor_iff bit_or_iff bit_exp_iff\<close>)
qed

lemma carry_brev:
  assumes "Suc b < 2 ^ Suc t" and "carry (brev (Suc t) b) (2 ^ t) = (j, c)"
  shows "j OR c = brev (Suc t) (Suc b)"
  using assms
proof (induction t arbitrary: b)
  case 0
  then have "b = 0" by simp
  then show ?case using 0 by (auto simp: carry.simps)
next
  case (Suc t)
  let ?r = "brev (Suc t) (b div 2)"
  have r: "?r < 2 ^ Suc t" by (rule brev_less)
  show ?case
  proof (cases "even b")
    case True
    then have "brev (Suc (Suc t)) b = ?r" by (simp only: brev.simps(2) [of "Suc t"]) simp
    then have "(j, c) = (?r, 2 ^ Suc t)"
      using Suc.prems(2) top_bit(1) [OF r] by (subst (asm) carry.simps) (simp only: if_False simp_thms)
    moreover have "Suc b mod 2 = 1" "Suc b div 2 = b div 2" using True by presburger+
    ultimately show ?thesis
      using top_bit(2) [OF r] by (simp only: brev.simps(2) [of "Suc t"] prod.inject mult_1)
  next
    case False
    then have b: "b mod 2 = 1" by (simp add: odd_iff_mod_2_eq_one)
    then have e: "brev (Suc (Suc t)) b = 2 ^ Suc t + ?r" by (simp only: brev.simps(2) [of "Suc t"] mult_1)
    have "carry (2 ^ Suc t + ?r) (2 ^ Suc t) = carry ?r (2 ^ t)"
      using top_bit(3,4) [OF r] by (subst carry.simps) simp
    then have "carry ?r (2 ^ t) = (j, c)" using Suc.prems(2) e by (simp only:)
    moreover have "Suc (b div 2) < 2 ^ Suc t" using Suc.prems(1) b by (simp, presburger)
    ultimately have "j OR c = brev (Suc t) (Suc (b div 2))" by (rule Suc.IH [rotated])
    moreover have "Suc b mod 2 = 0" "Suc b div 2 = Suc (b div 2)" using b by presburger+
    ultimately show ?thesis by (simp only: brev.simps(2) [of "Suc t"] mult_0 add_0)
  qed
qed

subsection \<open>The permutation\<close>

text \<open>What is in place once the indices below \<open>m\<close> were visited.\<close>

definition moved_below :: "nat \<Rightarrow> nat \<Rightarrow> 'c list \<Rightarrow> 'c list \<Rightarrow> bool" where
  "moved_below k m x z \<longleftrightarrow> length z = 2 ^ k \<and>
     (\<forall>a < 2 ^ k. z ! a = (if a < m \<or> brev k a < m then x ! brev k a else x ! a))"

lemma moved_step:
  assumes "moved_below k m x z" and "m < 2 ^ k"
  shows "moved_below k (Suc m) x (if m < brev k m then swap_at m (brev k m) z else z)"
proof -
  let ?j = "brev k m"
  have j: "?j < 2 ^ k" "brev k ?j = m" using brev_less brev_brev [OF assms(2)] by auto
  have z: "length z = 2 ^ k" "\<And>a. a < 2 ^ k \<Longrightarrow> z ! a = (if a < m \<or> brev k a < m then x ! brev k a else x ! a)"
    using assms(1) by (auto simp: moved_below_def)
  show ?thesis
    unfolding moved_below_def
  proof (intro conjI allI impI)
    show "length (if m < ?j then swap_at m ?j z else z) = 2 ^ k" using z(1) by (simp add: swap_at_def)
    fix a :: nat
    assume a: "a < 2 ^ k"
    have m': "z ! m = (if ?j < m then x ! ?j else x ! m)" using z(2) [OF assms(2)] by simp
    have j': "z ! ?j = (if ?j < m then x ! m else x ! ?j)" using z(2) [OF j(1)] j(2) by simp
    consider "a = m" | "a = ?j" "a \<noteq> m" | "a \<noteq> m" "a \<noteq> ?j" by blast
    then show "(if m < ?j then swap_at m ?j z else z) ! a =
        (if a < Suc m \<or> brev k a < Suc m then x ! brev k a else x ! a)"
    proof cases
      case 1
      then show ?thesis using m' z(1) assms(2) j(1) j' by (auto simp: swap_at_def nth_list_update)
    next
      case 2
      then show ?thesis using m' j' z(1) assms(2) j by (auto simp: swap_at_def nth_list_update)
    next
      case 3
      then have "brev k a \<noteq> m" using brev_brev [OF a] by auto
      with 3 have "(a < Suc m \<or> brev k a < Suc m) \<longleftrightarrow> (a < m \<or> brev k a < m)" by linarith
      then show ?thesis using 3 z(2) [OF a] by (simp add: swap_at_def)
    qed
  qed
qed

lemma reorder_moves:
  assumes "moved_below (Suc t) m x z" and "m \<le> 2 ^ Suc t" and "0 < m"
  shows "moved_below (Suc t) (2 ^ Suc t) x (reorder (2 ^ Suc t) [m..<2 ^ Suc t] (brev (Suc t) (m - 1)) z)"
  using assms
proof (induction "2 ^ Suc t - m" arbitrary: m z)
  case 0
  then have "m = 2 ^ Suc t" by simp
  then show ?case using 0 by simp
next
  case (Suc d)
  then have m: "m < 2 ^ Suc t" by simp
  obtain j0 b where c: "carry (brev (Suc t) (m - 1)) (2 ^ t) = (j0, b)" by fastforce
  have "j0 OR b = brev (Suc t) (Suc (m - 1))"
    by (rule carry_brev [OF _ c]) (use m Suc.prems(3) in simp)
  then have j: "j0 OR b = brev (Suc t) m" using Suc.prems(3) by simp
  have h: "2 ^ Suc t div 2 = (2 :: nat) ^ t" by simp
  let ?z = "if m < brev (Suc t) m then swap_at m (brev (Suc t) m) z else z"
  have "reorder (2 ^ Suc t) [m..<2 ^ Suc t] (brev (Suc t) (m - 1)) z =
      reorder (2 ^ Suc t) [Suc m..<2 ^ Suc t] (brev (Suc t) (Suc m - 1)) ?z"
    unfolding upt_conv_Cons [OF m] reorder.simps h c Let_def prod.case j by simp
  moreover have "moved_below (Suc t) (2 ^ Suc t) x
      (reorder (2 ^ Suc t) [Suc m..<2 ^ Suc t] (brev (Suc t) (Suc m - 1)) ?z)"
    by (rule Suc.hyps(1)) (use Suc.hyps(2) moved_step [OF Suc.prems(1) m] m in simp_all)
  ultimately show ?case by simp
qed

lemma reorder_brev:
  assumes "length x = 2 ^ Suc t"
  shows "length (reorder (length x) [1..<length x] 0 x) = length x"
    and "a < length x \<Longrightarrow> reorder (length x) [1..<length x] 0 x ! a = x ! brev (Suc t) a"
proof -
  have z: "brev k 0 = 0" for k by (induction k) simp_all
  have fixed: "a = 0" if "a < 1 \<or> brev (Suc t) a < 1" "a < 2 ^ Suc t" for a
    using that brev_brev [OF that(2)] z [of "Suc t"] by auto
  have "moved_below (Suc t) 1 x x"
    unfolding moved_below_def
  proof (intro conjI allI impI)
    fix a :: nat
    assume "a < 2 ^ Suc t"
    then show "x ! a = (if a < 1 \<or> brev (Suc t) a < 1 then x ! brev (Suc t) a else x ! a)"
      using fixed [of a] z [of "Suc t"] by (cases "a = 0") (auto simp del: brev.simps)
  qed (use assms in simp)
  then have "moved_below (Suc t) (2 ^ Suc t) x (reorder (2 ^ Suc t) [1..<2 ^ Suc t] (brev (Suc t) (1 - 1)) x)"
    by (rule reorder_moves) simp_all
  then have m: "moved_below (Suc t) (2 ^ Suc t) x (reorder (length x) [1..<length x] 0 x)"
    unfolding assms by (simp add: z)
  then show "length (reorder (length x) [1..<length x] 0 x) = length x"
    using assms by (simp add: moved_below_def)
  assume "a < length x"
  then show "reorder (length x) [1..<length x] 0 x ! a = x ! brev (Suc t) a"
    using m assms by (simp add: moved_below_def)
qed

subsection \<open>A stage\<close>

lemma butterflies_length [simp]: "length (butterflies wl h i js w x) = length x"
  by (induction wl h i js w x rule: butterflies.induct) (simp_all add: Let_def)

lemma butterflies_nth:
  fixes wl :: "'c :: comm_ring_1"
  assumes "a \<le> h" and "i + 2 * h \<le> length x"
  shows "butterflies wl h i [a..<h] (wl ^ a) x ! q =
     (if i + a \<le> q \<and> q < i + h then x ! q + x ! (q + h) * wl ^ (q - i)
      else if i + h + a \<le> q \<and> q < i + 2 * h then x ! (q - h) - x ! q * wl ^ (q - h - i)
      else x ! q)"
  using assms
proof (induction "h - a" arbitrary: a x)
  case 0
  then have a: "a = h" by simp
  have "\<not> (i + h \<le> q \<and> q < i + h)" "\<not> (i + h + h \<le> q \<and> q < i + 2 * h)" by linarith+
  then show ?case by (simp only: a upt_rec [of h h] less_irrefl if_False butterflies.simps)
next
  case (Suc d)
  then have a: "a < h" by simp
  let ?y = "x[i + a := x ! (i + a) + x ! (i + a + h) * wl ^ a,
    i + a + h := x ! (i + a) - x ! (i + a + h) * wl ^ a]"
  have len: "i + a + h < length x" "i + 2 * h \<le> length ?y" using a Suc.prems(2) by simp_all
  have y: "?y ! r = (if r = i + a then x ! (i + a) + x ! (i + a + h) * wl ^ a
      else if r = i + a + h then x ! (i + a) - x ! (i + a + h) * wl ^ a else x ! r)" for r
    using len(1) a by (auto simp: nth_list_update)
  have first: "butterflies wl h i [a..<h] (wl ^ a) x = butterflies wl h i [Suc a..<h] (wl ^ Suc a) ?y"
    unfolding upt_conv_Cons [OF a] by (simp add: Let_def mult.commute)
  have rest: "butterflies wl h i [Suc a..<h] (wl ^ Suc a) ?y ! q = (if i + Suc a \<le> q \<and> q < i + h then ?y ! q + ?y ! (q + h) * wl ^ (q - i)
      else if i + h + Suc a \<le> q \<and> q < i + 2 * h then ?y ! (q - h) - ?y ! q * wl ^ (q - h - i)
      else ?y ! q)"
    by (rule Suc.hyps(1)) (use Suc.hyps(2) a len(2) in simp_all)
  consider "q = i + a" | "q = i + a + h" | "i + a < q" "q < i + h" | "i + h + a < q" "q < i + 2 * h"
    | "q < i + a" | "i + h \<le> q" "q < i + h + a" | "i + 2 * h \<le> q"
    using a by linarith
  then show ?case using a unfolding first rest y by cases auto
qed

lemma stage_from_nth:
  fixes wl :: "'c :: comm_ring_1"
  assumes "0 < h" and "length x = n * (2 * h)" and "c \<le> n"
  shows "length (stage_from wl (2 * h) (n * (2 * h)) (c * (2 * h)) x) = length x \<and>
     (\<forall>b m. b < n \<longrightarrow> m < h \<longrightarrow>
        stage_from wl (2 * h) (n * (2 * h)) (c * (2 * h)) x ! (b * (2 * h) + m) =
          (if b < c then x ! (b * (2 * h) + m)
           else x ! (b * (2 * h) + m) + x ! (b * (2 * h) + m + h) * wl ^ m) \<and>
        stage_from wl (2 * h) (n * (2 * h)) (c * (2 * h)) x ! (b * (2 * h) + m + h) =
          (if b < c then x ! (b * (2 * h) + m + h)
           else x ! (b * (2 * h) + m) - x ! (b * (2 * h) + m + h) * wl ^ m))"
  using assms(2,3)
proof (induction "n - c" arbitrary: c x)
  case 0
  then have "c = n" by simp
  then show ?case by (simp add: stage_from.simps)
next
  case (Suc d)
  then have c: "c < n" by simp
  let ?i = "c * (2 * h)" and ?y = "butterflies wl h (c * (2 * h)) [0..<h] (wl ^ 0) x"
  have fits: "?i + 2 * h \<le> length x"
    using mult_le_mono1 [of "Suc c" n "2 * h"] c Suc.prems(1) by simp
  have "?i < n * (2 * h)" using fits Suc.prems(1) assms(1) by linarith
  then have step: "stage_from wl (2 * h) (n * (2 * h)) ?i x =
      stage_from wl (2 * h) (n * (2 * h)) (Suc c * (2 * h)) ?y"
    using assms(1) by (subst stage_from.simps) (simp add: add.commute)
  have y: "?y ! q = (if ?i \<le> q \<and> q < ?i + h then x ! q + x ! (q + h) * wl ^ (q - ?i)
      else if ?i + h \<le> q \<and> q < ?i + 2 * h then x ! (q - h) - x ! q * wl ^ (q - h - ?i) else x ! q)" for q
    using butterflies_nth [OF _ fits, of 0 wl q] by simp
  have IH: "length (stage_from wl (2 * h) (n * (2 * h)) (Suc c * (2 * h)) ?y) = length ?y \<and>
     (\<forall>b m. b < n \<longrightarrow> m < h \<longrightarrow>
        stage_from wl (2 * h) (n * (2 * h)) (Suc c * (2 * h)) ?y ! (b * (2 * h) + m) =
          (if b < Suc c then ?y ! (b * (2 * h) + m)
           else ?y ! (b * (2 * h) + m) + ?y ! (b * (2 * h) + m + h) * wl ^ m) \<and>
        stage_from wl (2 * h) (n * (2 * h)) (Suc c * (2 * h)) ?y ! (b * (2 * h) + m + h) =
          (if b < Suc c then ?y ! (b * (2 * h) + m + h)
           else ?y ! (b * (2 * h) + m) - ?y ! (b * (2 * h) + m + h) * wl ^ m))"
    by (rule Suc.hyps(1)) (use Suc.hyps(2) Suc.prems c in simp_all)
  have at_c: "?y ! (?i + m) = x ! (?i + m) + x ! (?i + m + h) * wl ^ m"
      "?y ! (?i + m + h) = x ! (?i + m) - x ! (?i + m + h) * wl ^ m" if "m < h" for m
    unfolding y using that by simp_all
  have off: "?y ! (b * (2 * h) + m) = x ! (b * (2 * h) + m)" "?y ! (b * (2 * h) + m + h) = x ! (b * (2 * h) + m + h)"
    if "b \<noteq> c" "m < h" for b m
  proof -
    have "b * (2 * h) + 2 * h \<le> ?i \<or> ?i + 2 * h \<le> b * (2 * h)"
      using that(1) mult_le_mono1 [of "Suc b" c "2 * h"] mult_le_mono1 [of "Suc c" b "2 * h"] by (cases "b < c") auto
    then show "?y ! (b * (2 * h) + m) = x ! (b * (2 * h) + m)" "?y ! (b * (2 * h) + m + h) = x ! (b * (2 * h) + m + h)"
      using that(2) unfolding y by auto
  qed
  show ?case
    unfolding step
  proof (intro conjI allI impI)
    show "length (stage_from wl (2 * h) (n * (2 * h)) (Suc c * (2 * h)) ?y) = length x" using IH by simp
    fix b m
    assume b: "b < n" and m: "m < h"
    note IH' = IH [THEN conjunct2, rule_format, OF b m]
    show "stage_from wl (2 * h) (n * (2 * h)) (Suc c * (2 * h)) ?y ! (b * (2 * h) + m) =
        (if b < c then x ! (b * (2 * h) + m)
         else x ! (b * (2 * h) + m) + x ! (b * (2 * h) + m + h) * wl ^ m)"
      unfolding IH' [THEN conjunct1]
      by (cases "b = c") (use at_c [OF m] off [OF _ m, of b] in \<open>simp_all add: less_Suc_eq\<close>)
    show "stage_from wl (2 * h) (n * (2 * h)) (Suc c * (2 * h)) ?y ! (b * (2 * h) + m + h) =
        (if b < c then x ! (b * (2 * h) + m + h)
         else x ! (b * (2 * h) + m) - x ! (b * (2 * h) + m + h) * wl ^ m)"
      unfolding IH' [THEN conjunct2]
      by (cases "b = c") (use at_c [OF m] off [OF _ m, of b] in \<open>simp_all add: less_Suc_eq\<close>)
  qed
qed

subsection \<open>The discrete Fourier transform\<close>

text \<open>
  The factors of the stages are roots of unity, each the square of the next.  \<open>unity w s\<close> is that of
  the stage of length \<open>2 ^ s\<close>, and of the transform of that length.
\<close>

definition roots_ok :: "(nat \<Rightarrow> 'c :: comm_ring_1) \<Rightarrow> bool" where
  "roots_ok w \<longleftrightarrow> w 2 = - 1 \<and> (\<forall>s. 0 < s \<longrightarrow> w (2 ^ Suc s) * w (2 ^ Suc s) = w (2 ^ s))"

definition unity :: "(nat \<Rightarrow> 'c :: comm_ring_1) \<Rightarrow> nat \<Rightarrow> 'c" where
  "unity w s = (if s = 0 then 1 else w (2 ^ s))"

definition dft :: "'c :: comm_ring_1 \<Rightarrow> 'c list \<Rightarrow> nat \<Rightarrow> 'c" where
  "dft z x m = (\<Sum>j < length x. x ! j * z ^ (j * m))"

lemma root_square: "roots_ok w \<Longrightarrow> unity w (Suc s) * unity w (Suc s) = unity w s"
  by (cases s) (auto simp: roots_ok_def unity_def numeral_2_eq_2)

lemma root_double: "roots_ok w \<Longrightarrow> unity w (Suc s) ^ (2 * i) = unity w s ^ i"
  using root_square [of w s] by (simp add: power_mult power2_eq_square)

lemma root_half: "roots_ok w \<Longrightarrow> unity w (Suc s) ^ 2 ^ s = - 1"
proof (induction s)
  case 0
  then show ?case by (simp add: unity_def roots_ok_def numeral_2_eq_2)
next
  case (Suc s)
  have "unity w (Suc (Suc s)) ^ 2 ^ Suc s = unity w (Suc s) ^ 2 ^ s"
    using root_double [OF Suc.prems, of "Suc s" "2 ^ s"] by simp
  then show ?case using Suc by simp
qed

lemma root_full: "roots_ok w \<Longrightarrow> unity w s ^ 2 ^ s = 1"
proof (cases s)
  case (Suc t)
  assume "roots_ok w"
  then have "unity w (Suc t) ^ (2 ^ t + 2 ^ t) = 1" unfolding power_add by (simp add: root_half)
  then show ?thesis by (simp add: Suc mult_2)
qed (simp add: unity_def)

lemma sum_even_odd:
  fixes f :: "nat \<Rightarrow> 'c :: comm_monoid_add"
  shows "(\<Sum>j < 2 * n. f j) = (\<Sum>i < n. f (2 * i)) + (\<Sum>i < n. f (2 * i + 1))"
  by (induction n) (simp_all add: ac_simps)

text \<open>A block holds the transform of a strided part of the input.\<close>

definition part :: "(nat \<Rightarrow> 'c :: comm_ring_1) \<Rightarrow> nat \<Rightarrow> 'c list \<Rightarrow> nat \<Rightarrow> nat \<Rightarrow> nat \<Rightarrow> 'c" where
  "part w k x s b m = (\<Sum>j < 2 ^ s. x ! (brev (k - s) b + 2 ^ (k - s) * j) * unity w s ^ (j * m))"

lemma brev_double: "brev (Suc t) (2 * b) = brev t b" "brev (Suc t) (2 * b + 1) = 2 ^ t + brev t b"
proof -
  have "(2 * b + 1) mod 2 = 1" "(2 * b + 1) div 2 = b" by presburger+
  then show "brev (Suc t) (2 * b) = brev t b" "brev (Suc t) (2 * b + 1) = 2 ^ t + brev t b"
    by (simp_all only: brev.simps(2) mult_1) simp_all
qed

lemma part_split:
  assumes "roots_ok w" and "s < k"
  shows "part w k x (Suc s) b m = part w k x s (2 * b) m + part w k x s (2 * b + 1) m * unity w (Suc s) ^ m"
proof -
  define t where "t = k - Suc s"
  have t: "k - s = Suc t" "k - Suc s = t" using assms(2) by (simp_all add: t_def)
  have e: "unity w (Suc s) ^ (2 * i * m) = unity w s ^ (i * m)" for i
    using root_double [OF assms(1), of s "i * m"] by (simp add: mult.assoc)
  have o: "unity w (Suc s) ^ ((2 * i + 1) * m) = unity w s ^ (i * m) * unity w (Suc s) ^ m" for i
    by (simp only: add_mult_distrib power_add e mult_1)
  have "part w k x (Suc s) b m = (\<Sum>j < 2 * 2 ^ s. x ! (brev t b + 2 ^ t * j) * unity w (Suc s) ^ (j * m))"
    by (simp add: part_def t)
  also have "\<dots> = (\<Sum>i < 2 ^ s. x ! (brev t b + 2 ^ t * (2 * i)) * unity w s ^ (i * m)) +
      (\<Sum>i < 2 ^ s. x ! (brev t b + 2 ^ t * (2 * i + 1)) * (unity w s ^ (i * m) * unity w (Suc s) ^ m))"
    unfolding sum_even_odd e o ..
  also have "(\<Sum>i < 2 ^ s. x ! (brev t b + 2 ^ t * (2 * i)) * unity w s ^ (i * m)) = part w k x s (2 * b) m"
    unfolding part_def t brev_double by (simp add: ac_simps)
  also have "(\<Sum>i < 2 ^ s. x ! (brev t b + 2 ^ t * (2 * i + 1)) * (unity w s ^ (i * m) * unity w (Suc s) ^ m)) =
      part w k x s (2 * b + 1) m * unity w (Suc s) ^ m"
    unfolding part_def t brev_double sum_distrib_right by (simp add: algebra_simps)
  finally show ?thesis .
qed

lemma part_period:
  assumes "roots_ok w"
  shows "part w k x s b (m + 2 ^ s) = part w k x s b m"
proof -
  have "unity w s ^ (j * (m + 2 ^ s)) = unity w s ^ (j * m)" for j
  proof -
    have "unity w s ^ (j * 2 ^ s) = (unity w s ^ 2 ^ s) ^ j" by (metis power_mult mult.commute)
    then show ?thesis using root_full [OF assms, of s] by (simp add: distrib_left power_add)
  qed
  then show ?thesis by (simp add: part_def)
qed

lemma part_upper:
  assumes "roots_ok w" and "s < k"
  shows "part w k x (Suc s) b (m + 2 ^ s) =
    part w k x s (2 * b) m - part w k x s (2 * b + 1) m * unity w (Suc s) ^ m"
  unfolding part_split [OF assms] part_period [OF assms(1)] power_add root_half [OF assms(1)] by simp

definition staged :: "(nat \<Rightarrow> 'c :: comm_ring_1) \<Rightarrow> nat \<Rightarrow> 'c list \<Rightarrow> nat \<Rightarrow> 'c list \<Rightarrow> bool" where
  "staged w k x s y \<longleftrightarrow> length y = 2 ^ k \<and>
     (\<forall>b m. b < 2 ^ (k - s) \<longrightarrow> m < 2 ^ s \<longrightarrow> y ! (b * 2 ^ s + m) = part w k x s b m)"

lemma stage_advances:
  assumes "roots_ok w" and "s < k" and "staged w k x s y"
  shows "staged w k x (Suc s) (stage_from (w (2 ^ Suc s)) (2 ^ Suc s) (2 ^ k) 0 y)"
proof -
  define n :: nat where "n = 2 ^ (k - Suc s)"
  let ?h = "2 ^ s :: nat" and ?w = "unity w (Suc s)"
  have size: "n * (2 * ?h) = 2 ^ k" "2 ^ (k - s) = 2 * n"
  proof -
    have "k = (k - Suc s) + Suc s" using assms(2) by simp
    then have "2 ^ k = (2 :: nat) ^ (k - Suc s) * 2 ^ Suc s" by (metis power_add)
    then show "n * (2 * ?h) = 2 ^ k" by (simp add: n_def)
    have "k - s = Suc (k - Suc s)" using assms(2) by simp
    then show "2 ^ (k - s) = 2 * n" by (simp add: n_def)
  qed
  have y: "length y = n * (2 * ?h)" "\<And>b m. b < 2 * n \<Longrightarrow> m < ?h \<Longrightarrow> y ! (b * ?h + m) = part w k x s b m"
    using assms(3) size by (auto simp: staged_def)
  have unity: "w (2 ^ Suc s) = ?w" by (simp add: unity_def)
  let ?z = "stage_from ?w (2 * ?h) (n * (2 * ?h)) (0 * (2 * ?h)) y"
  have S: "length ?z = length y \<and> (\<forall>b m. b < n \<longrightarrow> m < ?h \<longrightarrow>
      ?z ! (b * (2 * ?h) + m) = (if b < 0 then y ! (b * (2 * ?h) + m)
         else y ! (b * (2 * ?h) + m) + y ! (b * (2 * ?h) + m + ?h) * ?w ^ m) \<and>
      ?z ! (b * (2 * ?h) + m + ?h) = (if b < 0 then y ! (b * (2 * ?h) + m + ?h)
         else y ! (b * (2 * ?h) + m) - y ! (b * (2 * ?h) + m + ?h) * ?w ^ m))"
    by (rule stage_from_nth [OF _ y(1)]) simp_all
  have blocks: "y ! (b * (2 * ?h) + m) = part w k x s (2 * b) m"
      "y ! (b * (2 * ?h) + m + ?h) = part w k x s (2 * b + 1) m" if "b < n" "m < ?h" for b m
  proof -
    show "y ! (b * (2 * ?h) + m) = part w k x s (2 * b) m"
      using y(2) [of "2 * b" m] that by (simp add: ac_simps)
    have e: "(2 * b + 1) * ?h + m = b * (2 * ?h) + m + ?h" by (simp add: algebra_simps)
    have "2 * b + 1 < 2 * n" using that(1) by simp
    from y(2) [OF this that(2)] show "y ! (b * (2 * ?h) + m + ?h) = part w k x s (2 * b + 1) m"
      unfolding e .
  qed
  have z: "?z ! (b * (2 * ?h) + m) = part w k x (Suc s) b m"
      "?z ! (b * (2 * ?h) + m + ?h) = part w k x (Suc s) b (m + ?h)" if "b < n" "m < ?h" for b m
    using S [THEN conjunct2, rule_format, OF that] blocks [OF that]
    unfolding part_split [OF assms(1,2), of x b m] part_upper [OF assms(1,2)] by simp_all
  show ?thesis
    unfolding staged_def
  proof (intro conjI allI impI)
    have eq: "stage_from (w (2 ^ Suc s)) (2 ^ Suc s) (2 ^ k) 0 y = ?z" unfolding unity size(1) by simp
    show "length (stage_from (w (2 ^ Suc s)) (2 ^ Suc s) (2 ^ k) 0 y) = 2 ^ k"
      unfolding eq using S y(1) size(1) by simp
    fix b m :: nat
    assume b: "b < 2 ^ (k - Suc s)" and m: "m < 2 ^ Suc s"
    show "stage_from (w (2 ^ Suc s)) (2 ^ Suc s) (2 ^ k) 0 y ! (b * 2 ^ Suc s + m) = part w k x (Suc s) b m"
    proof (cases "m < ?h")
      case True
      then show ?thesis using z(1) [of b m] b unfolding eq by (simp add: n_def)
    next
      case False
      define m' where "m' = m - ?h"
      have m': "m = m' + ?h" "m' < ?h" using False m by (simp_all add: m'_def)
      then show ?thesis using z(2) [of b m'] b unfolding eq by (simp add: n_def add.assoc)
    qed
  qed
qed

lemma stages_advance:
  assumes "roots_ok w" and "s \<le> k" and "staged w k x s y"
  shows "staged w k x k (stages w (2 ^ k) (2 ^ Suc s) y)"
  using assms(2,3)
proof (induction "k - s" arbitrary: s y)
  case 0
  then have "s = k" by simp
  moreover have "\<not> (2 :: nat) ^ Suc k \<le> 2 ^ k" by simp
  ultimately show ?case using 0 by (simp add: stages.simps)
next
  case (Suc d)
  then have s: "s < k" by simp
  then have "(2 :: nat) ^ Suc s \<le> 2 ^ k" by (intro power_increasing) simp_all
  then have "stages w (2 ^ k) (2 ^ Suc s) y =
      stages w (2 ^ k) (2 ^ Suc (Suc s)) (stage_from (w (2 ^ Suc s)) (2 ^ Suc s) (2 ^ k) 0 y)"
    by (subst stages.simps) (simp add: push_bit_eq_mult mult.commute)
  moreover have "staged w k x k (stages w (2 ^ k) (2 ^ Suc (Suc s)) (stage_from (w (2 ^ Suc s)) (2 ^ Suc s) (2 ^ k) 0 y))"
    by (rule Suc.hyps(1)) (use Suc.hyps(2) s stage_advances [OF assms(1) s Suc.prems(2)] in simp_all)
  ultimately show ?case by simp
qed

lemma fft_dft:
  assumes "roots_ok (rect backward)" and "length x = 2 ^ k"
  shows "length (fft rect x backward) = 2 ^ k"
    and "m < 2 ^ k \<Longrightarrow> fft rect x backward ! m = dft (unity (rect backward) k) x m"
proof -
  let ?w = "rect backward"
  have whole: "part ?w k x k 0 m = dft (unity ?w k) x m" for m
    by (simp add: part_def dft_def assms(2))
  have "staged ?w k x k (fft rect x backward)"
  proof (cases k)
    case 0
    then show ?thesis using assms(2) by (simp add: fft_def staged_def part_def unity_def)
  next
    case (Suc t)
    let ?y = "reorder (length x) [1..<length x] 0 x"
    have r: "length ?y = length x" "\<And>a. a < length x \<Longrightarrow> ?y ! a = x ! brev (Suc t) a"
      using reorder_brev [of x t] assms(2) Suc by simp_all
    then have "staged ?w k x 0 ?y"
      using assms(2) unfolding Suc by (simp add: staged_def part_def unity_def del: brev.simps)
    then have "staged ?w k x k (stages ?w (2 ^ k) (2 ^ Suc 0) ?y)"
      by (rule stages_advance [OF assms(1) le0])
    moreover have "\<not> length x \<le> 1"
    proof -
      have "(1 :: nat) \<le> 2 ^ t" by simp
      then have "(2 :: nat) \<le> 2 ^ Suc t" unfolding power_Suc by linarith
      then show ?thesis using assms(2) unfolding Suc by linarith
    qed
    ultimately show ?thesis using assms(2) by (simp add: fft_def Let_def numeral_2_eq_2)
  qed
  note final = this [unfolded staged_def]
  show "length (fft rect x backward) = 2 ^ k" using final by (rule conjunct1)
  show "fft rect x backward ! m = dft (unity (rect backward) k) x m" if "m < 2 ^ k"
    using final [THEN conjunct2, rule_format, of 0 m] that whole by simp
qed

subsection \<open>Properties\<close>

text \<open>\<^verbatim>\<open>cmplx.Rect(1, sign * 2 * math.Pi / float64(length))\<close>, without rounding.\<close>

definition complex_rect :: "bool \<Rightarrow> nat \<Rightarrow> complex" where
  "complex_rect backward n = cis ((if backward then 1 else - 1) * 2 * pi / real n)"

lemma cis_back: "cis (- pi) = - 1" "cis (- (2 * pi)) = 1"
  by (simp_all add: complex_eq_iff)

lemma complex_roots_ok: "roots_ok (complex_rect backward)"
proof -
  have "(2 * (c * 2 * pi / (2 * real n))) = c * 2 * pi / real n" for c :: real and n by simp
  then show ?thesis by (auto simp: roots_ok_def complex_rect_def cis_mult cis_back simp flip: mult_2)
qed

lemma complex_unity: "unity (complex_rect backward) k = complex_rect backward (2 ^ k)"
  by (cases backward) (simp_all add: unity_def complex_rect_def cis_back)

text \<open>
  C16: The transform is the discrete Fourier transform: on a list whose length is a power of two the
  in-place radix-2 routine, bit reversal and butterflies, returns for every index the sum the transform
  is defined by, forward and backward, in exact arithmetic.
\<close>

theorem fft_is_the_discrete_Fourier_transform:
  assumes "length x = 2 ^ k" and "m < length x"
  shows "length (fft complex_rect x backward) = length x \<and>
     fft complex_rect x backward ! m =
       (\<Sum>j < length x. x ! j * cis ((if backward then 1 else - 1) * 2 * pi * real (j * m) / real (length x)))"
proof -
  have "complex_rect backward n ^ i = cis ((if backward then 1 else - 1) * 2 * pi * real i / real n)" for i n
    by (simp add: complex_rect_def DeMoivre mult.commute)
  then show ?thesis
    using fft_dft [where backward = backward, OF complex_roots_ok assms(1)] assms
    by (simp add: dft_def complex_unity)
qed

theorem fft_is_the_discrete_Fourier_transform_witness:
  "fft complex_rect [3, 5] False ! 1 = - 2"
proof -
  have l: "length [3, 5 :: complex] = 2 ^ 1" "1 < length [3, 5 :: complex]" by simp_all
  show ?thesis
    using fft_is_the_discrete_Fourier_transform [OF l, of False] by (simp add: numeral_2_eq_2 cis_back)
qed

end
