(* ===== verification/Bench_Dsp.thy ===== *)
theory Bench_Dsp
  imports Bench_Measure Bench_Fft
begin

text \<open>
  The chirp and the correlator of \<^verbatim>\<open>bench/dsp.go\<close> over the real and complex numbers, so without
  the rounding of \<^verbatim>\<open>float64\<close>.  The loops, their order and their branches are those of the code;
  \<open>None\<close> for a score is its negative infinity.
\<close>

subsection \<open>The chirp\<close>

text \<open>
  \<open>None\<close> where \<^verbatim>\<open>make\<close> panics and where a sample is not a number: a window over one sample and
  a rate of zero divide zero by zero.
\<close>

definition chirp_sample :: "int \<Rightarrow> int \<Rightarrow> real \<Rightarrow> real \<Rightarrow> nat \<Rightarrow> real" where
  "chirp_sample n rate low high i =
     (let dur = real_of_int n / real_of_int rate;
          k = (high - low) / dur;
          t = real i / real_of_int rate;
          phase = 2 * pi * (low * t + k * t * t / 2);
          w = 1 / 2 * (1 - cos (2 * pi * real i / real_of_int (n - 1)))
      in w * sin phase)"

definition Chirp :: "int \<Rightarrow> int \<Rightarrow> real \<Rightarrow> real \<Rightarrow> real list option" where
  "Chirp n rate low high =
     (if n < 0 \<or> n = 1 \<or> (0 < n \<and> rate = 0) then None
      else if n \<le> 0 then Some []
      else Some (map (chirp_sample n rate low high) [0..<nat n]))"

subsection \<open>The correlator\<close>

record Correlator =
  co_ref :: "real list"
  co_refFFT :: "complex list"
  co_refNorm :: real
  co_window :: int
  co_size :: int

definition padded :: "real list \<Rightarrow> nat \<Rightarrow> complex list" where
  "padded vs cells = map complex_of_real (take cells vs) @ replicate (cells - length vs) 0"

text \<open>\<open>None\<close> where \<^verbatim>\<open>nextPow2\<close> does not return or the reference does not fit.\<close>

definition NewCorrelator :: "real list \<Rightarrow> int \<Rightarrow> Correlator option" where
  "NewCorrelator ref window =
     (case nextPow2 (window + int (length ref)) of
        None \<Rightarrow> None
      | Some cells \<Rightarrow>
          if cells < int (length ref) then None
          else (let h = padded ref (nat cells);
                    refNorm = foldl (\<lambda>refNorm v. refNorm + v * v) 0 ref
                in Some \<lparr>co_ref = ref, co_refFFT = fft complex_rect h False, co_refNorm = sqrt refNorm,
                         co_window = window, co_size = cells\<rparr>))"

fun search :: "real list \<Rightarrow> complex list \<Rightarrow> real \<Rightarrow> real \<Rightarrow> nat \<Rightarrow> nat list \<Rightarrow> real \<Rightarrow> nat \<Rightarrow> real option \<Rightarrow>
    nat \<times> real option" where
  "search signal x scale refNorm m [] energy best bestScore = (best, bestScore)"
| "search signal x scale refNorm m (p # ps) energy0 best bestScore =
     (let energy = (if p > 0
                    then energy0 + (signal ! (p + m - 1) * signal ! (p + m - 1) - signal ! (p - 1) * signal ! (p - 1))
                    else energy0);
          den = sqrt energy * refNorm
      in if den = 0 then search signal x scale refNorm m ps energy best bestScore
         else (let s = Re (x ! p) * scale / den
               in if (case bestScore of None \<Rightarrow> True | Some b \<Rightarrow> s > b)
                  then search signal x scale refNorm m ps energy p (Some s)
                  else search signal x scale refNorm m ps energy best bestScore))"

text \<open>For a signal no longer than the transform, which holds the window and the reference.\<close>

definition Find :: "Correlator \<Rightarrow> real list \<Rightarrow> int \<times> real" where
  "Find c signal =
     (if length signal < length (co_ref c) then (0, 0)
      else (let x = fft complex_rect (padded signal (nat (co_size c))) False;
                y = map2 (\<lambda>a b. a * cnj b) x (co_refFFT c);
                z = fft complex_rect y True;
                m = length (co_ref c);
                energy = foldl (\<lambda>e i. e + signal ! i * signal ! i) 0 [0..<m];
                (best, bestScore) = search signal z (1 / real_of_int (co_size c)) (co_refNorm c) m
                  [0..<Suc (length signal - m)] energy 0 None
            in case bestScore of None \<Rightarrow> (0, 0) | Some s \<Rightarrow> (int best, s)))"

subsection \<open>Correlation by transforms\<close>

lemma root_sum:
  assumes "0 < N" and "(r :: complex) ^ N = 1" and "r \<noteq> 1"
  shows "(\<Sum>m < N. r ^ m) = 0"
  using geometric_sum [OF assms(3), of N] assms(2) by simp

lemma turn_back:
  assumes "0 < N"
  shows "complex_rect False N ^ a * complex_rect True N ^ b = cis (2 * pi * (real b - real a) / real N)"
  by (simp add: complex_rect_def DeMoivre cis_mult algebra_simps add_divide_distrib diff_divide_distrib)

lemma turn_is_one:
  assumes "0 < N" and "a < N"
  shows "complex_rect False N ^ a * complex_rect True N ^ b = 1 \<longleftrightarrow> a = b mod N"
proof
  assume one: "complex_rect False N ^ a * complex_rect True N ^ b = 1"
  then have "cos (2 * pi * (real b - real a) / real N) = 1"
    unfolding turn_back [OF assms(1)] by (metis cis.sel(1) one_complex.sel(1))
  then obtain i :: int where "2 * pi * (real b - real a) / real N = of_int i * 2 * pi"
    unfolding cos_one_2pi_int by blast
  then have "2 * pi * (real b - real a) = 2 * pi * (of_int i * real N)" using assms(1) by (simp add: field_simps)
  then have "real b - real a = of_int i * real N" unfolding mult_cancel_left by simp
  then have "of_int (int b - int a) = (of_int (i * int N) :: real)" by simp
  then have "int b - int a = i * int N" by (simp only: of_int_eq_iff)
  then have "int b = int a + i * int N" by simp
  then have "int b mod int N = int a mod int N" by simp
  then have "b mod N = a mod N" by (metis of_nat_eq_iff of_nat_mod)
  then show "a = b mod N" using assms(2) by simp
next
  assume a: "a = b mod N"
  have "b = a + N * (b div N)" unfolding a by simp
  then have "real b - real a = real N * real (b div N)"
    by (metis add_diff_cancel_left' of_nat_add of_nat_mult)
  then have "2 * pi * (real b - real a) / real N = 2 * pi * real (b div N)" using assms(1) by simp
  then show "complex_rect False N ^ a * complex_rect True N ^ b = 1"
    unfolding turn_back [OF assms(1)] by (simp only:) simp
qed

lemma turns_sum:
  assumes "0 < N" and "a < N"
  shows "(\<Sum>m < N. (complex_rect False N ^ a * complex_rect True N ^ b) ^ m) =
    (if a = b mod N then of_nat N else 0)"
proof (cases "a = b mod N")
  case True
  then show ?thesis using turn_is_one [OF assms, of b] by simp
next
  case False
  have "(complex_rect False N ^ a * complex_rect True N ^ b) ^ N = cis (2 * pi * (real b - real a))"
    unfolding turn_back [OF assms(1)] DeMoivre using assms(1) by simp
  also have "\<dots> = 1" by (rule cis_multiple_2pi) simp
  finally show ?thesis
    using False turn_is_one [OF assms, of b] root_sum [OF assms(1)] by simp
qed

lemma cnj_rect: "cnj (complex_rect False N) = complex_rect True N"
  by (simp add: complex_rect_def cis_cnj)

lemma correlation:
  assumes "length x = 2 ^ k" and "length h = 2 ^ k" and "p < 2 ^ k"
  shows "fft complex_rect (map2 (\<lambda>a b. a * cnj b) (fft complex_rect x False) (fft complex_rect h False)) True ! p =
    2 ^ k * (\<Sum>q < 2 ^ k. x ! ((q + p) mod 2 ^ k) * cnj (h ! q))"
proof -
  let ?N = "2 ^ k :: nat"
  let ?z = "complex_rect False ?N" and ?y = "complex_rect True ?N"
  let ?w = "map2 (\<lambda>a b. a * cnj b) (fft complex_rect x False) (fft complex_rect h False)"
  have F: "length (fft complex_rect v False) = ?N" "fft complex_rect v False ! m = dft ?z v m"
    if "length v = ?N" "m < ?N" for v m
    using fft_dft [where backward = False, OF complex_roots_ok that(1)] that(2) by (simp_all add: complex_unity)
  have lens: "length (fft complex_rect x False) = ?N" "length (fft complex_rect h False) = ?N" "length ?w = ?N"
    using fft_dft(1) [OF complex_roots_ok assms(1)] fft_dft(1) [OF complex_roots_ok assms(2)] by simp_all
  have "fft complex_rect ?w True ! p = dft ?y ?w p"
    using fft_dft(2) [OF complex_roots_ok lens(3) assms(3)] by (simp add: complex_unity)
  also have "\<dots> = (\<Sum>m < ?N. dft ?z x m * cnj (dft ?z h m) * ?y ^ (m * p))"
    unfolding dft_def [of ?y ?w] lens(3)
    by (rule sum.cong [OF refl]) (use F assms lens in simp)
  also have "\<dots> = (\<Sum>m < ?N. \<Sum>a < ?N. \<Sum>q < ?N. x ! a * cnj (h ! q) * (?z ^ a * ?y ^ (q + p)) ^ m)"
  proof (rule sum.cong [OF refl])
    fix m
    have "dft ?z x m * cnj (dft ?z h m) * ?y ^ (m * p) =
        (\<Sum>a < ?N. \<Sum>q < ?N. (x ! a * ?z ^ (a * m)) * (cnj (h ! q) * ?y ^ (q * m))) * ?y ^ (m * p)"
      by (simp add: dft_def assms sum_product cnj_rect)
    also have "\<dots> = (\<Sum>a < ?N. \<Sum>q < ?N. (x ! a * ?z ^ (a * m)) * (cnj (h ! q) * ?y ^ (q * m)) * ?y ^ (m * p))"
      by (simp add: sum_distrib_right)
    also have "\<dots> = (\<Sum>a < ?N. \<Sum>q < ?N. x ! a * cnj (h ! q) * (?z ^ a * ?y ^ (q + p)) ^ m)"
      by (intro sum.cong refl)
        (simp add: power_mult_distrib power_add power_mult [symmetric] ac_simps distrib_left)
    finally show "dft ?z x m * cnj (dft ?z h m) * ?y ^ (m * p) =
        (\<Sum>a < ?N. \<Sum>q < ?N. x ! a * cnj (h ! q) * (?z ^ a * ?y ^ (q + p)) ^ m)" .
  qed
  also have "\<dots> = (\<Sum>a < ?N. \<Sum>q < ?N. \<Sum>m < ?N. x ! a * cnj (h ! q) * (?z ^ a * ?y ^ (q + p)) ^ m)"
    by (subst sum.swap, rule sum.cong [OF refl], rule sum.swap)
  also have "\<dots> = (\<Sum>a < ?N. \<Sum>q < ?N. x ! a * cnj (h ! q) * (if a = (q + p) mod ?N then of_nat ?N else 0))"
    by (intro sum.cong refl) (simp add: sum_distrib_left [symmetric] turns_sum)
  also have "\<dots> = (\<Sum>q < ?N. \<Sum>a < ?N. x ! a * cnj (h ! q) * (if a = (q + p) mod ?N then of_nat ?N else 0))"
    by (rule sum.swap)
  also have "\<dots> = (\<Sum>q < ?N. x ! ((q + p) mod ?N) * cnj (h ! q) * of_nat ?N)"
  proof (rule sum.cong [OF refl])
    fix q
    have "(\<Sum>a < ?N. x ! a * cnj (h ! q) * (if a = (q + p) mod ?N then of_nat ?N else 0)) =
        (\<Sum>a < ?N. if a = (q + p) mod ?N then x ! a * cnj (h ! q) * of_nat ?N else 0)"
      by (rule sum.cong) simp_all
    also have "\<dots> = x ! ((q + p) mod ?N) * cnj (h ! q) * of_nat ?N"
      by (subst sum.delta) simp_all
    finally show "(\<Sum>a < ?N. x ! a * cnj (h ! q) * (if a = (q + p) mod ?N then of_nat ?N else 0)) =
        x ! ((q + p) mod ?N) * cnj (h ! q) * of_nat ?N" .
  qed
  finally show ?thesis by (simp add: sum_distrib_left mult.commute)
qed

subsection \<open>What the search finds\<close>

text \<open>The correlation at an offset and the energy of the stretch under the reference.\<close>

definition corr_at :: "real list \<Rightarrow> real list \<Rightarrow> nat \<Rightarrow> real" where
  "corr_at signal ref p = (\<Sum>q < length ref. signal ! (p + q) * ref ! q)"

definition energy_at :: "real list \<Rightarrow> nat \<Rightarrow> nat \<Rightarrow> real" where
  "energy_at signal m p = (\<Sum>q < m. signal ! (p + q) * signal ! (p + q))"

lemma energy_slides:
  "energy_at signal m (Suc p) = energy_at signal m p +
     (signal ! (p + m) * signal ! (p + m) - signal ! p * signal ! p)"
proof -
  have "(\<Sum>q < Suc m. signal ! (p + q) * signal ! (p + q)) =
      signal ! p * signal ! p + (\<Sum>q < m. signal ! (p + Suc q) * signal ! (p + Suc q))"
    by (subst sum.lessThan_Suc_shift) simp
  then show ?thesis by (simp add: energy_at_def)
qed

lemma foldl_sum: "foldl (\<lambda>e i. e + f i) (c :: real) xs = c + (\<Sum>i \<leftarrow> xs. f i)"
  by (induction xs arbitrary: c) simp_all

lemma padded_length: "length vs \<le> n \<Longrightarrow> length (padded vs n) = n"
  by (simp add: padded_def)

lemma padded_nth: "length vs \<le> n \<Longrightarrow> i < n \<Longrightarrow>
    padded vs n ! i = complex_of_real (if i < length vs then vs ! i else 0)"
  by (simp add: padded_def nth_append)

lemma transform_correlates:
  assumes "length signal \<le> 2 ^ k" and "length ref \<le> 2 ^ k" and "p + length ref \<le> length signal"
    and "0 < length ref"
  shows "Re (fft complex_rect (map2 (\<lambda>a b. a * cnj b) (fft complex_rect (padded signal (2 ^ k)) False)
      (fft complex_rect (padded ref (2 ^ k)) False)) True ! p) * (1 / 2 ^ k) = corr_at signal ref p"
proof -
  let ?N = "2 ^ k :: nat"
  let ?f = "\<lambda>q. (if (q + p) mod ?N < length signal then signal ! ((q + p) mod ?N) else 0) *
    (if q < length ref then ref ! q else 0)"
  have p: "p < ?N" using assms(1,3,4) by linarith
  have "Re (2 ^ k * (\<Sum>q < ?N. padded signal ?N ! ((q + p) mod ?N) * cnj (padded ref ?N ! q))) = 2 ^ k * (\<Sum>q < ?N. ?f q)"
  proof -
    have "(\<Sum>q < ?N. padded signal ?N ! ((q + p) mod ?N) * cnj (padded ref ?N ! q)) = (\<Sum>q < ?N. complex_of_real (?f q))"
      by (intro sum.cong refl) (use assms(1,2) in \<open>simp add: padded_nth\<close>)
    then have "2 ^ k * (\<Sum>q < ?N. padded signal ?N ! ((q + p) mod ?N) * cnj (padded ref ?N ! q)) =
        complex_of_real (2 ^ k * (\<Sum>q < ?N. ?f q))"
      by simp
    then show ?thesis by (simp only: Re_complex_of_real)
  qed
  moreover have "(\<Sum>q < ?N. ?f q) = corr_at signal ref p"
  proof -
    have "(\<Sum>q < ?N. ?f q) = (\<Sum>q < length ref. ?f q)"
      by (rule sum.mono_neutral_right) (use assms(2) in auto)
    also have "\<dots> = corr_at signal ref p"
      unfolding corr_at_def by (rule sum.cong [OF refl]) (use assms(1,3) in \<open>simp add: add.commute\<close>)
    finally show ?thesis .
  qed
  ultimately show ?thesis
    unfolding correlation [OF padded_length [OF assms(1)] padded_length [OF assms(2)] p] by simp
qed

text \<open>
  The first offset with the greatest score wins.  \<open>score\<close> is what the loop computes where the divisor
  is not zero, and \<open>None\<close> where it is skipped.
\<close>

definition score_at :: "real list \<Rightarrow> complex list \<Rightarrow> real \<Rightarrow> real \<Rightarrow> nat \<Rightarrow> nat \<Rightarrow> real option" where
  "score_at signal x scale refNorm m p =
     (let den = sqrt (energy_at signal m p) * refNorm
      in if den = 0 then None else Some (Re (x ! p) * scale / den))"

fun first_best :: "(nat \<Rightarrow> real option) \<Rightarrow> nat list \<Rightarrow> nat \<times> real option \<Rightarrow> nat \<times> real option" where
  "first_best score [] b = b"
| "first_best score (p # ps) b =
     first_best score ps
       (case score p of
          None \<Rightarrow> b
        | Some s \<Rightarrow> if (case snd b of None \<Rightarrow> True | Some t \<Rightarrow> s > t) then (p, Some s) else b)"

lemma search_first_best:
  assumes "p \<le> n" and "energy = energy_at signal m (p - 1)"
  shows "search signal x scale refNorm m [p..<n] energy best bs =
    first_best (score_at signal x scale refNorm m) [p..<n] (best, bs)"
  using assms
proof (induction "n - p" arbitrary: p energy best bs)
  case 0
  then show ?case by simp
next
  case (Suc d)
  then have p: "p < n" by simp
  let ?e = "if p > 0
      then energy + (signal ! (p + m - 1) * signal ! (p + m - 1) - signal ! (p - 1) * signal ! (p - 1)) else energy"
  have e: "?e = energy_at signal m p"
  proof (cases p)
    case 0
    then show ?thesis using Suc.prems(2) by simp
  next
    case (Suc q)
    then show ?thesis using Suc.prems(2) energy_slides [of signal m q] by simp
  qed
  have IH: "search signal x scale refNorm m [Suc p..<n] ?e best' bs' =
      first_best (score_at signal x scale refNorm m) [Suc p..<n] (best', bs')" for best' bs'
    by (rule Suc.hyps(1)) (use Suc.hyps(2) p e in simp_all)
  show ?case
    unfolding upt_conv_Cons [OF p] search.simps first_best.simps Let_def IH
    unfolding e score_at_def Let_def by simp
qed

lemma first_best_keeps:
  assumes "\<forall>p \<in> set ps. \<forall>s. score p = Some s \<longrightarrow> s \<le> t"
  shows "first_best score ps (b, Some t) = (b, Some t)"
  using assms by (induction ps) (auto split: option.split)

lemma first_best_finds:
  assumes "score k = Some t" and "k \<in> set ps" and "distinct ps" and "sorted ps"
    and "\<forall>p \<in> set ps. \<forall>s. score p = Some s \<longrightarrow> s \<le> t \<and> (p < k \<longrightarrow> s < t)"
    and "\<forall>u. snd b = Some u \<longrightarrow> u < t"
  shows "first_best score ps b = (k, Some t)"
  using assms(2-6)
proof (induction ps arbitrary: b)
  case (Cons p ps)
  show ?case
  proof (cases "p = k")
    case True
    then show ?thesis
      using assms(1) Cons.prems(4,5) first_best_keeps [of ps score t k] by (auto split: option.split)
  next
    case False
    then have k: "k \<in> set ps" "p < k" using Cons.prems(1,3) by (auto simp: order.strict_iff_order)
    show ?thesis
      unfolding first_best.simps
      by (rule Cons.IH) (use Cons.prems k in \<open>auto split: option.splits if_splits\<close>)
  qed
qed simp

definition ncorr :: "real list \<Rightarrow> real list \<Rightarrow> nat \<Rightarrow> real option" where
  "ncorr signal ref p =
     (let den = sqrt (energy_at signal (length ref) p) * sqrt (energy_at ref (length ref) 0)
      in if den = 0 then None else Some (corr_at signal ref p / den))"

lemma energy_fold: "foldl (\<lambda>e v. e + v * v) 0 ref = energy_at ref (length ref) 0"
  by (simp add: foldl_sum energy_at_def sum_list_sum_nth atLeast0LessThan)

lemma first_best_cong:
  "(\<And>p. p \<in> set ps \<Longrightarrow> score p = score' p) \<Longrightarrow> first_best score ps b = first_best score' ps b"
  by (induction ps arbitrary: b) simp_all

lemma Find_eq:
  assumes "NewCorrelator ref window = Some c" and "0 < length ref" and "length ref \<le> length signal"
    and "int (length signal) \<le> window"
  shows "Find c signal =
     (case first_best (ncorr signal ref) [0..<Suc (length signal - length ref)] (0, None) of
        (best, None) \<Rightarrow> (0, 0) | (best, Some s) \<Rightarrow> (int best, s))"
proof -
  let ?m = "length ref"
  obtain cells where cells: "nextPow2 (window + int ?m) = Some cells" "int ?m \<le> cells"
      and c: "co_ref c = ref" "co_refFFT c = fft complex_rect (padded ref (nat cells)) False"
        "co_refNorm c = sqrt (energy_at ref ?m 0)" "co_size c = cells"
    using assms(1) by (auto simp: NewCorrelator_def Let_def energy_fold split: option.splits if_splits)
  obtain k where k: "cells = 2 ^ k" "window + int ?m \<le> 2 ^ k"
    using nextPow2_iff [THEN iffD1, OF cells(1)] by (elim exE conjE)
  have n: "nat cells = 2 ^ k" by (simp add: k(1) nat_power_eq)
  have "int (length signal) \<le> 2 ^ k" "int ?m \<le> 2 ^ k" using k(2) assms(4) by linarith+
  then have "int (length signal) \<le> int (2 ^ k)" "int ?m \<le> int (2 ^ k)"
    by (simp_all only: of_nat_power of_nat_numeral)
  then have fits: "length signal \<le> 2 ^ k" "?m \<le> 2 ^ k" by (simp_all only: of_nat_le_iff)
  let ?z = "fft complex_rect (map2 (\<lambda>a b. a * cnj b) (fft complex_rect (padded signal (2 ^ k)) False)
      (fft complex_rect (padded ref (2 ^ k)) False)) True"
  have e: "foldl (\<lambda>e i. e + signal ! i * signal ! i) 0 [0..<?m] = energy_at signal ?m (0 - 1)"
    by (simp add: foldl_sum energy_at_def sum_list_distinct_conv_sum_set atLeast0LessThan)
  have "search signal ?z (1 / real_of_int cells) (sqrt (energy_at ref ?m 0)) ?m [0..<Suc (length signal - ?m)]
        (energy_at signal ?m (0 - 1)) 0 None =
      first_best (score_at signal ?z (1 / real_of_int cells) (sqrt (energy_at ref ?m 0)) ?m)
        [0..<Suc (length signal - ?m)] (0, None)"
    by (rule search_first_best) simp_all
  also have "\<dots> = first_best (ncorr signal ref) [0..<Suc (length signal - ?m)] (0, None)"
  proof (rule first_best_cong)
    fix p
    assume "p \<in> set [0..<Suc (length signal - ?m)]"
    then have "p + ?m \<le> length signal" using assms(3) by auto
    from transform_correlates [OF fits this assms(2)]
    show "score_at signal ?z (1 / real_of_int cells) (sqrt (energy_at ref ?m 0)) ?m p = ncorr signal ref p"
      by (simp add: score_at_def ncorr_def Let_def k(1))
  qed
  finally show ?thesis
    using assms(3) unfolding Find_def Let_def c n e by (simp add: not_less split: prod.split option.split)
qed

subsection \<open>A clean copy has the greatest score\<close>

lemma energy_nonneg: "0 \<le> energy_at signal m p"
  by (simp add: energy_at_def sum_nonneg)

lemma energy_zero_iff: "energy_at signal m p = 0 \<longleftrightarrow> (\<forall>q < m. signal ! (p + q) = 0)"
  unfolding energy_at_def by (subst sum_nonneg_eq_0_iff) auto

lemma combination:
  fixes a b :: "nat \<Rightarrow> real"
  shows "(\<Sum>q < m. (A * b q - C * a q) * (A * b q - C * a q)) =
    A * A * (\<Sum>q < m. b q * b q) - 2 * A * C * (\<Sum>q < m. b q * a q) + C * C * (\<Sum>q < m. a q * a q)"
  by (simp add: sum_distrib_left sum.distrib [symmetric] sum_subtractf [symmetric] algebra_simps)

lemma correlation_bound:
  fixes signal ref p
  defines "A \<equiv> energy_at ref (length ref) 0" and "B \<equiv> energy_at signal (length ref) p" and "C \<equiv> corr_at signal ref p"
  assumes "0 < A"
  shows "C * C \<le> A * B"
    and "C * C = A * B \<Longrightarrow> q < length ref \<Longrightarrow> A * signal ! (p + q) = C * ref ! q"
proof -
  let ?S = "\<Sum>q < length ref. (A * signal ! (p + q) - C * ref ! q) * (A * signal ! (p + q) - C * ref ! q)"
  have S: "?S = A * (A * B - C * C)"
    unfolding combination [of A "\<lambda>q. signal ! (p + q)" C "\<lambda>q. ref ! q"]
    by (simp add: A_def B_def C_def energy_at_def corr_at_def algebra_simps)
  have "0 \<le> ?S" by (simp add: sum_nonneg)
  then show "C * C \<le> A * B" using assms(4) unfolding S by (simp add: zero_le_mult_iff)
  assume "C * C = A * B" and q: "q < length ref"
  then have "?S = 0" unfolding S by simp
  then have "\<forall>q \<in> {..<length ref}. (A * signal ! (p + q) - C * ref ! q) * (A * signal ! (p + q) - C * ref ! q) = 0"
    by (subst (asm) sum_nonneg_eq_0_iff) simp_all
  with q show "A * signal ! (p + q) = C * ref ! q" by auto
qed

lemma ncorr_bounded:
  assumes "ncorr signal ref p = Some s"
  shows "- 1 \<le> s \<and> s \<le> 1"
proof -
  let ?A = "energy_at ref (length ref) 0" and ?B = "energy_at signal (length ref) p" and ?C = "corr_at signal ref p"
  have s: "s = ?C / (sqrt ?B * sqrt ?A)" and nz: "sqrt ?B * sqrt ?A \<noteq> 0"
    using assms by (auto simp: ncorr_def Let_def split: if_splits)
  then have pos: "0 < ?A" "0 < sqrt ?B * sqrt ?A"
    using energy_nonneg [of ref "length ref" 0] energy_nonneg [of signal "length ref" p]
    by (auto simp: less_le)
  have "\<bar>?C\<bar> = sqrt (?C * ?C)" by simp
  also have "\<dots> \<le> sqrt (?A * ?B)"
    by (rule real_sqrt_le_mono [OF correlation_bound(1) [OF pos(1)]])
  also have "\<dots> = sqrt ?B * sqrt ?A" by (simp add: real_sqrt_mult)
  finally show ?thesis
    unfolding s using pos(2) by (simp add: divide_le_eq le_divide_eq abs_le_iff)
qed

lemma ncorr_less:
  assumes "ncorr signal ref p = Some s"
    and "\<And>t. t \<noteq> 0 \<Longrightarrow> \<exists>q < length ref. signal ! (p + q) \<noteq> t * ref ! q"
  shows "s < 1"
proof (rule ccontr)
  let ?A = "energy_at ref (length ref) 0" and ?B = "energy_at signal (length ref) p" and ?C = "corr_at signal ref p"
  assume "\<not> s < 1"
  then have one: "s = 1" using ncorr_bounded [OF assms(1)] by simp
  have s: "s = ?C / (sqrt ?B * sqrt ?A)" and nz: "sqrt ?B * sqrt ?A \<noteq> 0"
    using assms(1) by (auto simp: ncorr_def Let_def split: if_splits)
  then have pos: "0 < ?A" using energy_nonneg [of ref "length ref" 0] by (auto simp: less_le)
  have C: "?C = sqrt ?B * sqrt ?A" using s nz one by (simp add: field_simps)
  then have "?C * ?C = (sqrt ?B * sqrt ?B) * (sqrt ?A * sqrt ?A)" by (simp add: ac_simps)
  also have "\<dots> = ?A * ?B" using energy_nonneg by simp
  finally have eq: "?A * signal ! (p + q) = ?C * ref ! q" if "q < length ref" for q
    using correlation_bound(2) [OF pos] that by simp
  have "?C / ?A \<noteq> 0" using C nz pos by simp
  from assms(2) [OF this] obtain q where "q < length ref" "signal ! (p + q) \<noteq> ?C / ?A * ref ! q" by blast
  with eq [of q] pos show False by (simp add: field_simps)
qed

lemma shifted_copy:
  fixes ref :: "real list"
  assumes "0 < d" and "t \<noteq> 0"
    and "\<And>q. q < length ref \<Longrightarrow> (if q < d then 0 else g * ref ! (q - d)) = t * ref ! q"
  shows "q < length ref \<Longrightarrow> ref ! q = 0"
proof (induction q rule: less_induct)
  case (less q)
  then show ?case using assms(3) [OF less.prems] assms(1,2) by (cases "q < d") auto
qed

lemma clean_copy_wins:
  assumes "0 < g" and "\<exists>v \<in> set ref. v \<noteq> 0" and "k + length ref \<le> period"
  shows "first_best (ncorr (heard (map ((*) g) ref) 0 period k) ref)
      [0..<Suc (period - length ref)] (0, None) = (k, Some 1)"
proof -
  let ?s = "heard (map ((*) g) ref) 0 period k" and ?m = "length ref"
  let ?A = "energy_at ref ?m 0"
  have A: "0 < ?A"
    using assms(2) energy_zero_iff [of ref ?m 0] energy_nonneg [of ref ?m 0] by (force simp: less_le in_set_conv_nth)
  have at_k: "?s ! (k + q) = g * ref ! q" if "q < ?m" for q
    using that by (simp add: heard_def nth_append)
  have before: "?s ! (p + q) = (if q < k - p then 0 else g * ref ! (q - (k - p)))" if "p < k" "q < ?m" for p q
  proof -
    have "p + q - k = q - (k - p)" using that by simp
    then show ?thesis using that by (auto simp: heard_def nth_append)
  qed
  have C: "corr_at ?s ref k = g * ?A" and B: "energy_at ?s ?m k = (g * g) * ?A"
    by (simp_all add: corr_at_def energy_at_def at_k sum_distrib_left mult.assoc mult.left_commute)
  have "sqrt (energy_at ?s ?m k) = g * sqrt ?A"
    unfolding B real_sqrt_mult using assms(1) by simp
  then have den: "sqrt (energy_at ?s ?m k) * sqrt ?A = g * ?A" using A by simp
  have one: "ncorr ?s ref k = Some 1"
    unfolding ncorr_def Let_def den C using A assms(1) by simp
  show ?thesis
  proof (rule first_best_finds [where k = k and score = "ncorr ?s ref", OF one])
    show "k \<in> set [0..<Suc (period - ?m)]" using assms(3) by (simp del: upt_Suc)
    show "\<forall>p \<in> set [0..<Suc (period - ?m)]. \<forall>s. ncorr ?s ref p = Some s \<longrightarrow> s \<le> 1 \<and> (p < k \<longrightarrow> s < 1)"
    proof (intro ballI allI impI conjI)
      fix p s
      assume s: "ncorr ?s ref p = Some s"
      show "s \<le> 1" using ncorr_bounded [OF s] by simp
      assume p: "p < k"
      show "s < 1"
      proof (rule ncorr_less [OF s], rule ccontr)
        fix t :: real
        assume t: "t \<noteq> 0" and "\<not> (\<exists>q < ?m. ?s ! (p + q) \<noteq> t * ref ! q)"
        then have "(if q < k - p then 0 else g * ref ! (q - (k - p))) = t * ref ! q" if "q < ?m" for q
          using before [OF p that] that by auto
        from shifted_copy [OF _ t this] p assms(2) show False by (force simp: in_set_conv_nth)
      qed
    qed
  qed (simp_all del: upt_Suc)
qed

lemma NewCorrelator_made:
  assumes "0 \<le> window" and "window + int (length ref) \<le> 2 ^ 62"
  shows "\<exists>c. NewCorrelator ref window = Some c"
proof -
  obtain cells where c: "nextPow2 (window + int (length ref)) = Some cells"
    using pow2_from_least [of 0, OF _ assms(2)] by (auto simp: nextPow2_def)
  obtain k where "cells = 2 ^ k" "window + int (length ref) \<le> 2 ^ k"
    using nextPow2_iff [THEN iffD1, OF c] by (elim exE conjE)
  then have "int (length ref) \<le> cells" using assms(1) by linarith
  then show ?thesis using c by (simp add: NewCorrelator_def Let_def)
qed

subsection \<open>Properties\<close>

text \<open>
  C34: In exact arithmetic a copy of the reference is found where it is: over the real numbers, in a window that
  holds nothing but a reference that is not silent at any gain above zero, wherever it lies, the correlator made
  for that window answers with its very offset and the full score of one.  In the code's \<^verbatim>\<open>float64\<close> a gain
  so small that the squares of the samples underflow leaves no energy to divide by, and nothing is found.
\<close>

theorem Find_finds_a_clean_copy:
  assumes "NewCorrelator ref (int period) = Some c" and "\<exists>v \<in> set ref. v \<noteq> 0" and "0 < g"
    and "k + length ref \<le> period"
    and "signal = replicate k 0 @ map (\<lambda>v. g * v) ref @ replicate (period - length ref - k) 0"
  shows "Find c signal = (int k, 1)"
proof -
  have signal: "signal = heard (map ((*) g) ref) 0 period k" by (simp add: assms(5) heard_def)
  have len: "length signal = period" using assms(4,5) by simp
  have "0 < length ref" using assms(2) by (cases ref) simp_all
  with assms(4) len have "Find c signal =
      (case first_best (ncorr signal ref) [0..<Suc (period - length ref)] (0, None) of
        (best, None) \<Rightarrow> (0, 0) | (best, Some s) \<Rightarrow> (int best, s))"
    by (subst Find_eq [OF assms(1)]) simp_all
  then show ?thesis unfolding signal clean_copy_wins [OF assms(3,2,4)] by simp
qed

lemma first_best_mem:
  "first_best score ps b = (p, Some s) \<Longrightarrow> b = (p, Some s) \<or> (p \<in> set ps \<and> score p = Some s)"
  by (induction ps arbitrary: b) (auto split: option.splits if_splits)

text \<open>
  An answer of the correlator is in bounds: for any signal that fits the window the offset leaves
  room for the reference, and the score is at most one in size.
\<close>

theorem Find_is_in_bounds:
  assumes "NewCorrelator ref window = Some c" and "int (length signal) \<le> window"
    and "Find c signal = (offset, score)"
  shows "0 \<le> offset \<and> offset \<le> max 0 (int (length signal) - int (length ref)) \<and> - 1 \<le> score \<and> score \<le> 1"
proof -
  have ref: "co_ref c = ref" using assms(1) by (auto simp: NewCorrelator_def Let_def split: option.splits if_splits)
  consider "length signal < length ref" | "ref = []" | "0 < length ref" "length ref \<le> length signal"
    by fastforce
  then show ?thesis
  proof cases
    case 1
    then show ?thesis using assms(3) ref by (auto simp: Find_def)
  next
    case 2
    then have "co_refNorm c = 0"
      using assms(1) by (auto simp: NewCorrelator_def Let_def split: option.splits if_splits)
    moreover have "search signal x scale 0 m ps e b None = (b, None)" for x scale m ps e b
      by (induction ps arbitrary: e) (simp_all add: Let_def)
    ultimately show ?thesis using assms(3) by (simp add: Find_def Let_def ref 2)
  next
    case 3
    obtain best bs where fb: "first_best (ncorr signal ref) [0..<Suc (length signal - length ref)] (0, None) = (best, bs)"
      by fastforce
    then have f: "Find c signal = (case bs of None \<Rightarrow> (0, 0) | Some s \<Rightarrow> (int best, s))"
      using Find_eq [OF assms(1) 3 assms(2)] by (simp split: option.split)
    show ?thesis
    proof (cases bs)
      case None
      then show ?thesis using f assms(3) by auto
    next
      case (Some s)
      then have "best \<in> set [0..<Suc (length signal - length ref)]" "ncorr signal ref best = Some s"
        using first_best_mem [where b = "(0, None)", OF fb [unfolded Some]] by (simp_all del: upt_Suc)
      then have "best + length ref \<le> length signal" "- 1 \<le> s \<and> s \<le> 1"
        using 3(2) ncorr_bounded by auto
      then show ?thesis using f Some assms(3) by auto
    qed
  qed
qed

lemma ex_correlator: "\<exists>c. NewCorrelator [1, 2] (int 8) = Some c"
  by (rule NewCorrelator_made) simp_all

theorem Find_finds_a_clean_copy_witness:
  "\<exists>c. NewCorrelator [1, 2] (int 8) = Some c \<and> Find c [0, 0, 0, 1 / 10, 1 / 5, 0, 0, 0] = (3, 1)"
proof -
  obtain c where c: "NewCorrelator [1, 2] (int 8) = Some c" using ex_correlator by blast
  have "[0, 0, 0, 1 / 10, 1 / 5, 0, 0, 0] = replicate 3 0 @ map (\<lambda>v. 1 / 10 * v) [1, 2 :: real] @ replicate (8 - length [1, 2 :: real] - 3) 0"
    by (simp add: numeral_eq_Suc)
  from Find_finds_a_clean_copy [OF c _ _ _ this] c show ?thesis by auto
qed

theorem Find_is_in_bounds_witness:
  "\<exists>c. NewCorrelator [1, 2] (int 8) = Some c \<and> \<bar>snd (Find c [5, - 5, 0, 2])\<bar> \<le> 1"
proof -
  obtain c where c: "NewCorrelator [1, 2] (int 8) = Some c" using ex_correlator by blast
  obtain off s where f: "Find c [5, - 5, 0, 2] = (off, s)" by fastforce
  have "int (length [5, - 5, 0, 2 :: real]) \<le> int 8" by simp
  from Find_is_in_bounds [OF c this f] f c show ?thesis by auto
qed

text \<open>A score can be below zero: where every offset correlates negatively.\<close>

lemma score_below_zero:
  assumes "NewCorrelator [1] 1 = Some c"
  shows "Find c [- 1] = (0, - 1)"
  by (subst Find_eq [OF assms]) (simp_all add: ncorr_def Let_def energy_at_def corr_at_def)

subsection \<open>The rig with its own correlator\<close>

text \<open>
  What \<^verbatim>\<open>Measure\<close> makes and asks; the second branch stands for a panic or a loop that does
  not end.
\<close>

definition correlate :: "real list \<Rightarrow> int \<Rightarrow> real list \<Rightarrow> int \<times> real" where
  "correlate ref window signal = (case NewCorrelator ref window of Some c \<Rightarrow> Find c signal | None \<Rightarrow> (0, 0))"

definition chirp_of :: "int \<Rightarrow> int \<Rightarrow> rat \<Rightarrow> rat \<Rightarrow> real list" where
  "chirp_of n rate low high = (case Chirp n rate (of_rat low) (of_rat high) of Some c \<Rightarrow> c | None \<Rightarrow> [])"

lemma correlate_finds_exactly:
  assumes "\<exists>v \<in> set ref. v \<noteq> 0" and "0 \<le> window" and "window + int (length ref) \<le> 2 ^ 62" and "threshold \<le> 1"
  shows "finds_exactly (correlate ref window) ref 0 (nat window) threshold"
  unfolding finds_exactly_def
proof (intro allI impI)
  fix k
  assume k: "k + length ref \<le> nat window"
  obtain c where c: "NewCorrelator ref window = Some c" using NewCorrelator_made [OF assms(2,3)] by blast
  let ?s = "heard ref 0 (nat window) k"
  have w: "int (nat window) = window" using assms(2) by simp
  have "0 < length ref" using assms(1) by (cases ref) simp_all
  moreover have "length ?s = nat window" using k by (simp add: heard_def)
  ultimately have "Find c ?s = (case first_best (ncorr ?s ref) [0..<Suc (nat window - length ref)] (0, None) of
        (best, None) \<Rightarrow> (0, 0) | (best, Some s) \<Rightarrow> (int best, s))"
    using k w by (subst Find_eq [OF c]) simp_all
  also have "\<dots> = (int k, 1)"
  proof -
    have m: "map ((*) 1) ref = ref" by (simp add: list.map_ident_strong)
    show ?thesis
      using clean_copy_wins [OF zero_less_one assms(1) k] unfolding m by simp
  qed
  finally show "\<exists>score. threshold \<le> score \<and> correlate ref window ?s = (int k, score)"
    using assms(4) c by (simp add: correlate_def)
qed

lemma chirp_of_length: "2 \<le> n \<Longrightarrow> 0 < rate \<Longrightarrow> length (chirp_of n rate low high) = nat n"
  by (simp add: chirp_of_def Chirp_def)

text \<open>
  C15: The rig reports the delay somebody already knows: pointed at a delay line without jitter and
  without noise, with its own chirp and its own correlator in exact arithmetic, every trial is a detection and
  every reported figure is exactly the line's delay.  That is so for a valid configuration whose detection
  threshold is at most one, whose chirp has at least two samples and is not silent, and whose trial leaves the
  line's delay and the chirp room and with the chirp is at most 2 to the 62 samples long.  Validation asks for none
  of these: a threshold above one is a valid configuration under which every trial is a miss.
\<close>

theorem rig_reports_the_known_delay:
  assumes "intn_ok intn" and "NewDelayLine seeded 0 line = Some d" and "dc_Noise line \<le> 0"
    and "0 \<le> dl_base d" and "dl_jitter d = 0" and "0 \<le> dc_Frame line"
    and "Validate cfg = None" and "dl_base d + rc_ChirpSamples cfg \<le> rc_TrialPeriodSamples cfg"
    and "chirp = chirp_of (rc_ChirpSamples cfg) (rc_Rate cfg) (rc_ChirpLowHz cfg) (rc_ChirpHighHz cfg)"
    and "\<exists>v \<in> set chirp. v \<noteq> 0" and "2 \<le> rc_ChirpSamples cfg"
    and "rc_TrialPeriodSamples cfg + rc_ChirpSamples cfg \<le> 2 ^ 62" and "rc_DetectionThreshold cfg \<le> 1"
    and "known = delay_ms (dl_base d) (rc_Rate cfg)"
  shows "\<exists>pass d'. Measure (Exchange intn noisy 0) chirp_of correlate 0 cfg d = Inr (pass, d') \<and>
     SampleCount pass = rc_Trials cfg \<and> Misses pass = 0 \<and>
     DelaysMs pass = replicate (nat (rc_Trials cfg)) known \<and>
     P50Ms pass = Some known \<and> P95Ms pass = Some known \<and> P99Ms pass = Some known \<and>
     MinMs pass = Some known \<and> MaxMs pass = Some known"
proof -
  have v: "0 < rc_Rate cfg" "0 < rc_TrialPeriodSamples cfg"
    using assms(7) by (auto simp: Validate_def split: if_splits)
  have len: "length chirp = nat (rc_ChirpSamples cfg)"
    unfolding assms(9) by (rule chirp_of_length [OF assms(11) v(1)])
  have t: "(of_rat (rc_DetectionThreshold cfg) :: real) \<le> 1" using assms(13) by simp
  have fits: "rc_TrialPeriodSamples cfg + int (length chirp) \<le> 2 ^ 62" using len assms(11,12) by simp
  have "finds_exactly (correlate chirp (rc_TrialPeriodSamples cfg)) chirp 0 (nat (rc_TrialPeriodSamples cfg))
      (of_rat (rc_DetectionThreshold cfg))"
    by (rule correlate_finds_exactly [OF assms(10) _ fits t]) (use v in simp)
  from measures_known_delay [where chirp_of = chirp_of and correlator = correlate, OF assms(1-9) len this assms(14)]
  show ?thesis .
qed

definition ex_fixture :: DelayLineConfig where
  "ex_fixture = \<lparr>dc_Rate = 48000, dc_Frame = 960, dc_Base = 50000000, dc_Jitter = 0, dc_ResamplePeriod = 500000000,
     dc_Noise = 0, dc_Seed = 1\<rparr>"

lemma ex_fixture_made:
  "NewDelayLine (\<lambda>s. s) (0 :: real) ex_fixture =
     Some \<lparr>dl_ring = replicate 4096 0, dl_mask = 4095, dl_pos = 0, dl_base = 2400, dl_jitter = 0, dl_cur = 2400,
           dl_resample = 24000, dl_noise = 0, dl_rng = 1\<rparr>"
proof -
  have "duration_samples 50000000 48000 = 2400" "duration_samples 0 48000 = 0" "duration_samples 500000000 48000 = 24000"
    by code_simp+
  moreover have "nextPow2 3361 = Some 4096"
    unfolding nextPow2_iff by (intro exI [of _ 12]) simp
  ultimately show ?thesis by (simp add: NewDelayLine_def ex_fixture_def)
qed

text \<open>The default chirp is not silent: its second sample is above zero.\<close>

lemma default_chirp_sounds:
  "\<exists>v \<in> set (chirp_of (rc_ChirpSamples DefaultConfig) (rc_Rate DefaultConfig) (rc_ChirpLowHz DefaultConfig)
     (rc_ChirpHighHz DefaultConfig)). v \<noteq> 0"
proof -
  let ?v = "chirp_sample 1920 48000 300 8000 1"
  have "cos (2 * (pi / 1919)) = 1 - 2 * (sin (pi / 1919))\<^sup>2" by (rule cos_double_sin)
  moreover have "0 < sin (pi / 1919)" by (rule sin_gt_zero) simp_all
  ultimately have "0 < 1 - cos (2 * pi / 1919)" by simp
  moreover have "0 < sin (2 * pi * (300 * (1 / 48000) + 192500 * (1 / 48000) * (1 / 48000) / 2))"
    by (rule sin_gt_zero) simp_all
  ultimately have "0 < ?v"
    by (simp add: chirp_sample_def Let_def)
  moreover have "?v \<in> set (chirp_of (rc_ChirpSamples DefaultConfig) (rc_Rate DefaultConfig)
      (rc_ChirpLowHz DefaultConfig) (rc_ChirpHighHz DefaultConfig))"
    by (simp add: chirp_of_def Chirp_def DefaultConfig_def)
  ultimately show ?thesis by (metis less_irrefl)
qed

theorem rig_reports_the_known_delay_witness:
  "\<exists>pass d'. Measure (Exchange (\<lambda>n g. (0, g)) (\<lambda>_ g v. (v, g)) 0) chirp_of correlate 0 DefaultConfig
       (the (NewDelayLine (\<lambda>s. s) 0 ex_fixture)) = Inr (pass, d') \<and>
     SampleCount pass = 300 \<and> P95Ms pass = Some 50 \<and> MaxMs pass = Some 50"
proof -
  have i: "intn_ok (\<lambda>n (g :: int). (0, g))" by (simp add: intn_ok_def)
  have m: "delay_ms 2400 48000 = 50" by code_simp
  have v: "Validate DefaultConfig = None" by (simp add: Validate_def DefaultConfig_def)
  have t: "rc_DetectionThreshold DefaultConfig \<le> 1"
  proof -
    have "go_float (3 / 10) \<le> 1" by code_simp
    then show ?thesis by (simp add: DefaultConfig_def)
  qed
  show ?thesis
    using rig_reports_the_known_delay [OF i ex_fixture_made _ _ _ _ v _ refl default_chirp_sounds _ _ t refl,
        of "\<lambda>_ g v. (v, g)"]
    unfolding ex_fixture_made by (auto simp: ex_fixture_def DefaultConfig_def m)
qed

end
