(* ===== verification/Bench_Command.thy ===== *)
theory Bench_Command
  imports Bench_Dsp
begin

text \<open>
  The command around the rig, \<^verbatim>\<open>bench/cmd/mouth-to-ear/main.go\<close>, with the report and the
  comparison of two passes of \<^verbatim>\<open>bench/bench.go\<close>.  What the flag package made of the arguments is
  an argument, \<open>None\<close> where it returned an error.  The outside world is a state of any type; \<open>emit\<close>
  writes one thing to it: a report to standard output or to a file, or a line to the error stream.  A report is
  written as JSON, which has no NaN and no infinity, so \<^verbatim>\<open>MarshalIndent\<close> refuses one that holds either.
\<close>

subsection \<open>Two passes compared\<close>

text \<open>The sentence of a comparison, by the figures it quotes.\<close>

datatype statement =
    InsideBound "rat option" "rat option" "rat option" rat
  | OutsideBound "rat option" "rat option" "rat option" rat

record Repeatability =
  rp_FirstP95Ms :: "rat option"
  rp_SecondP95Ms :: "rat option"
  rp_DeltaMs :: "rat option"
  rp_BoundMs :: rat
  rp_WithinBound :: bool
  rp_Statement :: statement

definition RepeatabilityBoundMs :: rat where "RepeatabilityBoundMs = 10"

definition CompareP95 :: "'q Pass \<Rightarrow> 'q Pass \<Rightarrow> Repeatability" where
  "CompareP95 first second =
     (let delta = (case (P95Ms first, P95Ms second) of
                     (Some a, Some b) \<Rightarrow> Some \<bar>go_float (a - b)\<bar> | _ \<Rightarrow> None);
          inside = (case delta of None \<Rightarrow> False | Some d \<Rightarrow> d \<le> RepeatabilityBoundMs)
      in \<lparr>rp_FirstP95Ms = P95Ms first, rp_SecondP95Ms = P95Ms second, rp_DeltaMs = delta,
          rp_BoundMs = RepeatabilityBoundMs, rp_WithinBound = inside,
          rp_Statement = (if inside then InsideBound (P95Ms first) (P95Ms second) delta RepeatabilityBoundMs
                          else OutsideBound (P95Ms first) (P95Ms second) delta RepeatabilityBoundMs)\<rparr>)"

subsection \<open>The report\<close>

definition PercentileMethod :: string where
  "PercentileMethod = ''nearest rank on the sorted sample, index = ceil(p/100 * n) - 1''"

text \<open>The name of the system under test is the three figures it quotes.\<close>

record 'q Rig_Report =
  rt_Schema :: string
  rt_System :: "duration \<times> duration \<times> rat"
  rt_Config :: Rig_Config
  rt_TrialPeriodMs :: rat
  rt_MaxMeasurableMs :: rat
  rt_PercentileMethod :: string
  rt_Shaping :: Shaping
  rt_Notes :: "string list"
  rt_First :: "'q Pass"
  rt_Second :: "'q Pass option"
  rt_Repeatability :: "Repeatability option"

definition encodable_pass :: "'q Pass \<Rightarrow> bool" where
  "encodable_pass p \<longleftrightarrow> WeakestAccepted p \<noteq> None \<and> P50Ms p \<noteq> None \<and> P95Ms p \<noteq> None \<and> P99Ms p \<noteq> None \<and>
     MinMs p \<noteq> None \<and> MaxMs p \<noteq> None"

definition encodable :: "'q Rig_Report \<Rightarrow> bool" where
  "encodable r \<longleftrightarrow> encodable_pass (rt_First r) \<and>
     (case rt_Second r of None \<Rightarrow> True | Some p \<Rightarrow> encodable_pass p) \<and>
     (case rt_Repeatability r of None \<Rightarrow> True
      | Some c \<Rightarrow> rp_FirstP95Ms c \<noteq> None \<and> rp_SecondP95Ms c \<noteq> None \<and> rp_DeltaMs c \<noteq> None)"

subsection \<open>The command\<close>

record Bench_Options =
  op_delay :: duration
  op_jitter :: duration
  op_noise :: rat
  op_seed :: int
  op_trials :: int
  op_minSamples :: int
  op_shaping :: string
  op_shapingCmd :: string
  op_out :: string
  op_raw :: bool
  op_repeat :: bool

definition default_options :: Bench_Options where
  "default_options = \<lparr>op_delay = 50 * 1000000, op_jitter = 0, op_noise = 0, op_seed = 1, op_trials = 0,
     op_minSamples = 300, op_shaping = ''none'', op_shapingCmd = [], op_out = [], op_raw = False, op_repeat = True\<rparr>"

datatype 'q bench_said =
    ReportToStdout "'q Rig_Report"
  | ReportToFile string "'q Rig_Report"
  | PassLine int int int int "rat option" "rat option" "rat option"
  | StatementLine statement

datatype 'e bench_error =
    FlagsRefused
  | BadConfig rig_fault
  | NotEncodable
  | WriteFailed 'e
  | TooFewDetected int int int
  | NotRepeatable statement

definition duration_ms :: "duration \<Rightarrow> rat" where
  "duration_ms d = go_float (go_float (of_int d) / go_float 1000000)"

definition bench_config :: "Bench_Options \<Rightarrow> Rig_Config" where
  "bench_config o' = (if op_trials o' > 0 then DefaultConfig\<lparr>rc_Trials := op_trials o'\<rparr> else DefaultConfig)"

definition fixture :: "(int \<Rightarrow> 'g) \<Rightarrow> 'a \<Rightarrow> Bench_Options \<Rightarrow> Rig_Config \<Rightarrow> int \<Rightarrow> ('a, 'g) DelayLine option" where
  "fixture seeded silence o' cfg s =
     NewDelayLine seeded silence
       \<lparr>dc_Rate = rc_Rate cfg, dc_Frame = rc_FrameSamples cfg, dc_Base = op_delay o', dc_Jitter = op_jitter o',
        dc_ResamplePeriod = TrialPeriod cfg, dc_Noise = op_noise o', dc_Seed = s\<rparr>"

definition bench_notes :: "string list" where
  "bench_notes =
    [''The system under test is the rig's own delay fixture. No implementation of bench.System reaches a real audio path in this tree, so nothing here measures this project's software or anybody else's.'',
     ''The shaping profile and the command under it are carried as declared. The rig neither applied them nor checked them, and it did not run the command.'',
     ''Delays at or above max_measurable_delay_ms are not reported as large; they are not reported correctly at all.'']"

definition bench_report :: "Bench_Options \<Rightarrow> Rig_Config \<Rightarrow> 'q Pass \<Rightarrow> 'q Pass option \<Rightarrow> 'q Rig_Report" where
  "bench_report o' cfg first second =
     (let strip = (\<lambda>p. if op_raw o' then p else p\<lparr>DelaysMs := []\<rparr>)
      in \<lparr>rt_Schema = ''stammtisch.mouth-to-ear.v1'', rt_System = (op_delay o', op_jitter o', op_noise o'),
          rt_Config = cfg, rt_TrialPeriodMs = duration_ms (TrialPeriod cfg),
          rt_MaxMeasurableMs = duration_ms (MaxMeasurableDelay cfg), rt_PercentileMethod = PercentileMethod,
          rt_Shaping = DeclaredShaping (op_shaping o') (op_shapingCmd o'),
          rt_Notes = bench_notes, rt_First = strip first, rt_Second = map_option strip second,
          rt_Repeatability = map_option (CompareP95 first) second\<rparr>)"

definition pass_line :: "int \<Rightarrow> 'q Pass \<Rightarrow> 'q bench_said" where
  "pass_line n p = PassLine n (SampleCount p) (TrialsAttempted p) (Misses p) (P50Ms p) (P95Ms p) (P99Ms p)"

definition too_few :: "Bench_Options \<Rightarrow> 'q Pass \<Rightarrow> 'q Pass option \<Rightarrow> 'e bench_error option" where
  "too_few o' first second =
     (if SampleCount first < op_minSamples o' then Some (TooFewDetected 1 (SampleCount first) (op_minSamples o'))
      else
        (case second of
           None \<Rightarrow> None
         | Some p \<Rightarrow>
             let c = CompareP95 first p in
             if SampleCount p < op_minSamples o' then Some (TooFewDetected 2 (SampleCount p) (op_minSamples o'))
             else if \<not> rp_WithinBound c then Some (NotRepeatable (rp_Statement c))
             else None))"

definition bench_finish ::
    "('q bench_said \<Rightarrow> 'w \<Rightarrow> 'e option \<times> 'w) \<Rightarrow> Bench_Options \<Rightarrow> Rig_Config \<Rightarrow> 'q Pass \<Rightarrow> 'q Pass option \<Rightarrow> 'w \<Rightarrow>
     'e bench_error option \<times> 'w" where
  "bench_finish emit o' cfg first second w =
     (let rep = bench_report o' cfg first second in
      if \<not> encodable rep then (Some NotEncodable, w)
      else
        (case write_until emit
                ((if op_out o' = [] then ReportToStdout rep else ReportToFile (op_out o') rep) # pass_line 1 first #
                 (case second of
                    None \<Rightarrow> []
                  | Some p \<Rightarrow> [pass_line 2 p, StatementLine (rp_Statement (CompareP95 first p))])) w of
           (Some err, w') \<Rightarrow> (Some (WriteFailed err), w')
         | (None, w') \<Rightarrow> (too_few o' first second, w')))"

text \<open>\<open>take_pass\<close> is \<^verbatim>\<open>bench.Measure\<close> on a fresh fixture; \<open>None\<close> is a fixture that is never made.\<close>

definition bench_run ::
    "(Bench_Options \<Rightarrow> Rig_Config \<Rightarrow> int \<Rightarrow> (rig_fault + 'q Pass) option) \<Rightarrow> ('q bench_said \<Rightarrow> 'w \<Rightarrow> 'e option \<times> 'w) \<Rightarrow>
     Bench_Options option \<Rightarrow> 'w \<Rightarrow> ('e bench_error option \<times> 'w) option" where
  "bench_run take_pass emit parsed w =
     (case parsed of
        None \<Rightarrow> Some (Some FlagsRefused, w)
      | Some o' \<Rightarrow>
          let cfg = bench_config o' in
          (case Validate cfg of
             Some e \<Rightarrow> Some (Some (BadConfig e), w)
           | None \<Rightarrow>
               (case take_pass o' cfg (op_seed o') of
                  None \<Rightarrow> None
                | Some (Inl e) \<Rightarrow> Some (Some (BadConfig e), w)
                | Some (Inr first) \<Rightarrow>
                    if op_repeat o'
                    then (case take_pass o' cfg (wrap64 (op_seed o' + 1)) of
                            None \<Rightarrow> None
                          | Some (Inl e) \<Rightarrow> Some (Some (BadConfig e), w)
                          | Some (Inr second) \<Rightarrow> Some (bench_finish emit o' cfg first (Some second) w))
                    else Some (bench_finish emit o' cfg first None w))))"

definition measure_fixture ::
    "(int \<Rightarrow> 'g) \<Rightarrow> (int \<Rightarrow> 'g \<Rightarrow> int \<times> 'g) \<Rightarrow> (rat \<Rightarrow> 'g \<Rightarrow> 'a \<Rightarrow> 'a \<times> 'g) \<Rightarrow> 'a \<Rightarrow>
     (int \<Rightarrow> int \<Rightarrow> rat \<Rightarrow> rat \<Rightarrow> 'a list) \<Rightarrow> ('a list \<Rightarrow> int \<Rightarrow> 'a list \<Rightarrow> int \<times> ('q :: linordered_field)) \<Rightarrow>
     Bench_Options \<Rightarrow> Rig_Config \<Rightarrow> int \<Rightarrow> (rig_fault + 'q Pass) option" where
  "measure_fixture seeded intn noisy silence chirper correlator o' cfg s =
     map_option (\<lambda>d. map_sum id fst (Measure (Exchange intn noisy silence) chirper correlator silence cfg d))
       (fixture seeded silence o' cfg s)"

subsection \<open>Fixtures and passes of a run\<close>

lemma bench_config_valid: "Validate (bench_config o') = None"
  by (simp add: bench_config_def Validate_def DefaultConfig_def)

lemma fixture_seed:
  assumes "fixture seeded silence o' cfg s = Some d"
  shows "fixture seeded silence o' cfg s' = Some (d\<lparr>dl_rng := seeded s'\<rparr>)"
  using assms by (auto simp: fixture_def NewDelayLine_def Let_def split: option.splits)

lemma undetected_not_encodable:
  assumes "pass = figures raw delays" and "SampleCount pass = 0"
  shows "\<not> encodable_pass pass"
proof -
  have "delays = []" using assms by (cases "delays = []") (simp_all add: figures_simps)
  then show ?thesis using assms(1) by (simp add: figures_def encodable_pass_def Let_def)
qed

lemma figures_attempted: "TrialsAttempted (figures raw delays) = TrialsAttempted raw"
proof (cases "delays = []")
  case False
  then show ?thesis by (simp add: figures_simps)
qed (simp add: figures_def Let_def)

lemma figures_count: "0 \<le> SampleCount (figures raw delays)"
proof (cases "delays = []")
  case False
  then show ?thesis by (simp add: figures_simps)
qed (simp add: figures_def Let_def)

lemma encodable_report:
  "encodable (bench_report o' cfg first second) \<longleftrightarrow> encodable_pass first \<and> (\<forall>p. second = Some p \<longrightarrow> encodable_pass p)"
  by (cases second) (auto simp: encodable_def bench_report_def encodable_pass_def CompareP95_def Let_def)

lemma WithinBound_close:
  "rp_WithinBound (CompareP95 first p) \<Longrightarrow>
     \<exists>a b. P95Ms first = Some a \<and> P95Ms p = Some b \<and> \<bar>go_float (a - b)\<bar> \<le> RepeatabilityBoundMs \<and>
       rp_Statement (CompareP95 first p) =
         InsideBound (Some a) (Some b) (Some \<bar>go_float (a - b)\<bar>) RepeatabilityBoundMs"
  by (auto simp: CompareP95_def Let_def split: option.splits)

text \<open>Everything in the list is written, in order, and no write of it fails.\<close>

fun wrote_all :: "('l \<Rightarrow> 'w \<Rightarrow> 'e option \<times> 'w) \<Rightarrow> 'l list \<Rightarrow> 'w \<Rightarrow> 'w \<Rightarrow> bool" where
  "wrote_all emit [] w w' \<longleftrightarrow> w' = w"
| "wrote_all emit (x # xs) w w' \<longleftrightarrow> fst (emit x w) = None \<and> wrote_all emit xs (snd (emit x w)) w'"

lemma write_until_wrote: "write_until emit xs w = (None, w') \<longleftrightarrow> wrote_all emit xs w w'"
  by (induction xs arbitrary: w) (auto split: prod.splits option.splits)

lemma bench_finish_done:
  fixes emit :: "'q bench_said \<Rightarrow> 'w \<Rightarrow> 'e option \<times> 'w"
  assumes "bench_finish emit o' cfg first second w = (None, w')"
  shows "encodable_pass first" and "op_minSamples o' \<le> SampleCount first"
    and "second = Some p \<Longrightarrow> encodable_pass p \<and> op_minSamples o' \<le> SampleCount p \<and> rp_WithinBound (CompareP95 first p)"
    and "wrote_all emit
      ((if op_out o' = [] then ReportToStdout else ReportToFile (op_out o')) (bench_report o' cfg first second) #
       pass_line 1 first #
       (case second of None \<Rightarrow> [] | Some p \<Rightarrow> [pass_line 2 p, StatementLine (rp_Statement (CompareP95 first p))])) w w'"
proof -
  let ?said = "(if op_out o' = [] then ReportToStdout (bench_report o' cfg first second)
      else ReportToFile (op_out o') (bench_report o' cfg first second)) # pass_line 1 first #
    (case second of None \<Rightarrow> [] | Some p \<Rightarrow> [pass_line 2 p, StatementLine (rp_Statement (CompareP95 first p))])"
  have e: "encodable (bench_report o' cfg first second)"
    using assms by (simp add: bench_finish_def Let_def split: if_splits)
  have body: "bench_finish emit o' cfg first second w =
      (case write_until emit ?said w of
         (Some err, w') \<Rightarrow> (Some (WriteFailed err), w')
       | (None, w') \<Rightarrow> (too_few o' first second, w'))"
    by (simp add: bench_finish_def Let_def e if_distrib del: write_until.simps)
  obtain err w1 where wr: "write_until emit ?said w = (err, w1)" by fastforce
  have fin: "err = None" "too_few o' first second = (None :: 'e bench_error option)" "w1 = w'"
    using assms unfolding body wr by (simp_all split: option.splits)
  show "encodable_pass first" using e by (simp add: encodable_report)
  show "op_minSamples o' \<le> SampleCount first" using fin(2) by (simp add: too_few_def split: if_splits)
  show "encodable_pass p \<and> op_minSamples o' \<le> SampleCount p \<and> rp_WithinBound (CompareP95 first p)" if "second = Some p"
    using e fin(2) that by (simp add: encodable_report too_few_def Let_def split: if_splits)
  show "wrote_all emit
      ((if op_out o' = [] then ReportToStdout else ReportToFile (op_out o')) (bench_report o' cfg first second) #
       pass_line 1 first #
       (case second of None \<Rightarrow> [] | Some p \<Rightarrow> [pass_line 2 p, StatementLine (rp_Statement (CompareP95 first p))])) w w'"
    using wr fin(1,3) write_until_wrote [of emit ?said w w'] by (simp split: if_splits)
qed

lemma measure_fixture_Inr:
  "measure_fixture seeded intn noisy silence chirper correlator o' cfg s = Some (Inr pass) \<longleftrightarrow>
     (\<exists>d d'. fixture seeded silence o' cfg s = Some d \<and>
        Measure (Exchange intn noisy silence) chirper correlator silence cfg d = Inr (pass, d'))"
proof (cases "fixture seeded silence o' cfg s")
  case (Some d)
  then show ?thesis
    by (cases "Measure (Exchange intn noisy silence) chirper correlator silence cfg d")
      (auto simp: measure_fixture_def)
qed (simp add: measure_fixture_def)

lemma fixture_pass_made:
  assumes "measure_fixture seeded intn noisy silence chirper correlator o' cfg s = Some (Inr pass)"
  shows "\<exists>p. measure_fixture seeded intn noisy silence chirper correlator o' cfg s' = Some (Inr p)"
proof -
  obtain d d' where d: "fixture seeded silence o' cfg s = Some d"
      "Measure (Exchange intn noisy silence) chirper correlator silence cfg d = Inr (pass, d')"
    using assms unfolding measure_fixture_Inr by blast
  then have "Validate cfg = None" by (auto simp: Measure_def split: option.splits)
  then obtain p d'' where "Measure (Exchange intn noisy silence) chirper correlator silence cfg
      (d\<lparr>dl_rng := seeded s'\<rparr>) = Inr (p, d'')"
    using Measure_valid [where exchange = "Exchange intn noisy silence" and chirp_of = chirper and
        correlator = correlator and silence = silence] by blast
  then show ?thesis using fixture_seed [OF d(1), of s'] by (simp add: measure_fixture_def)
qed

lemma encoded_fixture_pass:
  assumes "measure_fixture seeded intn noisy silence chirper correlator o' cfg s = Some (Inr pass)"
    and "encodable_pass pass"
  shows "0 < SampleCount pass"
proof -
  obtain d d' where "Measure (Exchange intn noisy silence) chirper correlator silence cfg d = Inr (pass, d')"
    using assms(1) unfolding measure_fixture_Inr by blast
  from Measure_raw [OF this] obtain raw delays where p: "pass = figures raw delays" by blast
  then have "SampleCount pass \<noteq> 0" using undetected_not_encodable assms(2) by blast
  moreover have "0 \<le> SampleCount pass" unfolding p by (rule figures_count)
  ultimately show ?thesis by simp
qed

subsection \<open>Properties\<close>

text \<open>
  C32: A run that succeeds measured something, twice where it was to, and said it: the first pass detected at
  least as many chirps as required, and at least one; where a second pass was asked for so did it, and the two
  95th percentiles are no further apart than the bound; and every write went through, the report of these very
  passes first, where it was asked for, then a line for each pass and the sentence that compares them.
\<close>

theorem bench_success_is_a_measurement:
  assumes "bench_run (measure_fixture seeded intn noisy silence chirper correlator) emit (Some o') w = Some (None, w')"
  shows "\<exists>first second said.
     measure_fixture seeded intn noisy silence chirper correlator o' (bench_config o') (op_seed o') = Some (Inr first) \<and>
     op_minSamples o' \<le> SampleCount first \<and> 0 < SampleCount first \<and>
     (if op_repeat o'
      then \<exists>p a b. second = Some p \<and>
        measure_fixture seeded intn noisy silence chirper correlator o' (bench_config o') (wrap64 (op_seed o' + 1)) =
          Some (Inr p) \<and>
        op_minSamples o' \<le> SampleCount p \<and> 0 < SampleCount p \<and>
        P95Ms first = Some a \<and> P95Ms p = Some b \<and> \<bar>go_float (a - b)\<bar> \<le> 10 \<and>
        said = [PassLine 2 (SampleCount p) (TrialsAttempted p) (Misses p) (P50Ms p) (P95Ms p) (P99Ms p),
                StatementLine (InsideBound (Some a) (Some b) (Some \<bar>go_float (a - b)\<bar>) 10)]
      else second = None \<and> said = []) \<and>
     wrote_all emit
       ((if op_out o' = [] then ReportToStdout else ReportToFile (op_out o')) (bench_report o' (bench_config o') first second) #
        PassLine 1 (SampleCount first) (TrialsAttempted first) (Misses first) (P50Ms first) (P95Ms first) (P99Ms first) #
        said) w w'"
proof -
  let ?m = "measure_fixture seeded intn noisy silence chirper correlator o' (bench_config o')"
  obtain first where first: "?m (op_seed o') = Some (Inr first)"
    using assms by (auto simp: bench_run_def Let_def bench_config_valid split: option.splits sum.splits)
  show ?thesis
  proof (cases "op_repeat o'")
    case True
    then obtain p where p: "?m (wrap64 (op_seed o' + 1)) = Some (Inr p)"
        "bench_finish emit o' (bench_config o') first (Some p) w = (None, w')"
      using assms first by (auto simp: bench_run_def Let_def bench_config_valid split: option.splits sum.splits)
    note d = bench_finish_done [OF p(2)]
    obtain a b where ab: "P95Ms first = Some a" "P95Ms p = Some b" "\<bar>go_float (a - b)\<bar> \<le> 10"
        "rp_Statement (CompareP95 first p) = InsideBound (Some a) (Some b) (Some \<bar>go_float (a - b)\<bar>) 10"
      using WithinBound_close [of first p] d(3) by (auto simp: RepeatabilityBoundMs_def)
    have "0 < SampleCount first" "0 < SampleCount p"
      using encoded_fixture_pass [OF first] encoded_fixture_pass [OF p(1)] d(1,3) by blast+
    then show ?thesis
      using True first p(1) ab d(2,3,4) by (intro exI [of _ first] exI [of _ "Some p"]) (simp add: pass_line_def)
  next
    case False
    then have "bench_finish emit o' (bench_config o') first None w = (None, w')"
      using assms first by (auto simp: bench_run_def Let_def bench_config_valid)
    note d = bench_finish_done [OF this]
    show ?thesis
      using False first encoded_fixture_pass [OF first d(1)] d(2,4)
      by (intro exI [of _ first] exI [of _ None]) (simp add: pass_line_def)
  qed
qed

text \<open>
  C33: A run with a pass that detects nothing, the first or the second, is never reported: whatever number of
  samples is required and whatever else the run measured, the command fails because the report cannot be encoded,
  so nothing at all is written and the check that would say how many chirps were detected is not reached.
\<close>

theorem undetected_pass_is_not_reported:
  assumes "s = op_seed o' \<or> op_repeat o' \<and> s = wrap64 (op_seed o' + 1)"
    and "measure_fixture seeded intn noisy silence chirper correlator o' (bench_config o') s = Some (Inr pass)"
    and "SampleCount pass = 0"
  shows "bench_run (measure_fixture seeded intn noisy silence chirper correlator) emit (Some o') w =
     Some (Some NotEncodable, w)"
proof -
  let ?m = "measure_fixture seeded intn noisy silence chirper correlator o' (bench_config o')"
  have "\<not> encodable_pass pass" using encoded_fixture_pass [OF assms(2)] assms(3) by auto
  then have fin: "bench_finish emit o' cfg first second w = (Some NotEncodable, w)" if "pass = first \<or> second = Some pass"
    for cfg first second
    using that by (auto simp: bench_finish_def Let_def encodable_report)
  obtain first where one: "?m (op_seed o') = Some (Inr first)" using fixture_pass_made [OF assms(2)] by blast
  obtain second where two: "?m (wrap64 (op_seed o' + 1)) = Some (Inr second)" using fixture_pass_made [OF assms(2)] by blast
  show ?thesis
  proof (cases "op_repeat o'")
    case True
    have "pass = first \<or> Some second = Some pass" using assms(1,2) one two by auto
    then show ?thesis using one two True by (simp add: bench_run_def Let_def bench_config_valid fin)
  next
    case False
    then have "pass = first" using assms(1,2) one by auto
    then show ?thesis using one False by (simp add: bench_run_def Let_def bench_config_valid fin)
  qed
qed

subsection \<open>Runs against a line without jitter and without noise\<close>

lemma detected_weakest:
  assumes "Measure exchange chirper correlator silence cfg s = Inr (pass, s')" and "0 < SampleCount pass"
  shows "WeakestAccepted pass \<noteq> None"
proof -
  obtain raw delays where p: "pass = figures raw delays"
      and a: "accounted (of_rat (rc_DetectionThreshold cfg)) (rc_Trials cfg) raw delays"
    using Measure_raw [OF assms(1)] by blast
  have "delays \<noteq> []" using assms(2) unfolding p by (cases "delays = []") (simp_all add: figures_def Let_def)
  then show ?thesis using a by (simp add: p figures_simps accounted_def)
qed

lemma default_threshold: "rc_DetectionThreshold DefaultConfig \<le> 1" "0 < rc_DetectionThreshold DefaultConfig"
proof -
  have "0 < go_float (3 / 10)" "go_float (3 / 10) \<le> 1" by code_simp+
  then show "rc_DetectionThreshold DefaultConfig \<le> 1" "0 < rc_DetectionThreshold DefaultConfig"
    by (simp_all add: DefaultConfig_def)
qed

lemma go_float_zero: "go_float 0 = 0"
  by code_simp

lemma write_until_said: "write_until (\<lambda>x w. (None, w @ [x])) xs w = (None, w @ xs)"
  by (induction xs arbitrary: w) simp_all

text \<open>A pass that detected every chirp at one delay.\<close>

definition steady_pass :: "int \<Rightarrow> rat \<Rightarrow> 'q Pass \<Rightarrow> bool" where
  "steady_pass n known p \<longleftrightarrow> SampleCount p = n \<and> TrialsAttempted p = n \<and> Misses p = 0 \<and>
     P50Ms p = Some known \<and> P95Ms p = Some known \<and> P99Ms p = Some known \<and> MinMs p = Some known \<and> MaxMs p = Some known"

lemma steady_fixture_pass:
  fixes d :: "(real, 'g) DelayLine"
  assumes "intn_ok intn" and "fixture seeded 0 o' (bench_config o') s = Some d" and "op_noise o' \<le> 0"
    and "0 \<le> dl_base d" and "dl_jitter d = 0" and "dl_base d \<le> 22080"
    and "known = delay_ms (dl_base d) 48000"
  shows "\<exists>pass. measure_fixture seeded intn noisy 0 chirp_of correlate o' (bench_config o') s = Some (Inr pass) \<and>
     encodable_pass pass \<and> steady_pass (rc_Trials (bench_config o')) known pass \<and>
     DelaysMs pass = replicate (nat (rc_Trials (bench_config o'))) known"
proof -
  let ?cfg = "bench_config o'"
  let ?chirp = "chirp_of 1920 48000 (rc_ChirpLowHz DefaultConfig) (rc_ChirpHighHz DefaultConfig)"
  let ?line = "\<lparr>dc_Rate = rc_Rate ?cfg, dc_Frame = rc_FrameSamples ?cfg, dc_Base = op_delay o', dc_Jitter = op_jitter o',
        dc_ResamplePeriod = TrialPeriod ?cfg, dc_Noise = op_noise o', dc_Seed = s\<rparr>"
  have cfg: "rc_Rate ?cfg = 48000" "rc_FrameSamples ?cfg = 960" "rc_ChirpSamples ?cfg = 1920"
      "rc_TrialPeriodSamples ?cfg = 24000" "rc_DetectionThreshold ?cfg = rc_DetectionThreshold DefaultConfig"
      "rc_ChirpLowHz ?cfg = rc_ChirpLowHz DefaultConfig" "rc_ChirpHighHz ?cfg = rc_ChirpHighHz DefaultConfig"
    by (simp_all add: bench_config_def DefaultConfig_def)
  have n: "0 < rc_Trials ?cfg" by (simp add: bench_config_def DefaultConfig_def)
  have line: "NewDelayLine seeded 0 ?line = Some d" using assms(2) by (simp add: fixture_def)
  have t: "(of_rat (rc_DetectionThreshold DefaultConfig) :: real) \<le> 1"
    using default_threshold by simp
  have sounds: "\<exists>v \<in> set ?chirp. v \<noteq> 0" using default_chirp_sounds by (simp add: DefaultConfig_def)
  have len: "length ?chirp = 1920" by (subst chirp_of_length) simp_all
  have "finds_exactly (correlate ?chirp 24000) ?chirp 0 (nat 24000) (of_rat (rc_DetectionThreshold DefaultConfig))"
    by (rule correlate_finds_exactly [OF sounds _ _ t]) (simp_all add: len)
  then have "\<exists>pass d'. Measure (Exchange intn noisy 0) chirp_of correlate 0 ?cfg d = Inr (pass, d') \<and>
     SampleCount pass = rc_Trials ?cfg \<and> Misses pass = 0 \<and>
     DelaysMs pass = replicate (nat (rc_Trials ?cfg)) known \<and>
     P50Ms pass = Some known \<and> P95Ms pass = Some known \<and> P99Ms pass = Some known \<and>
     MinMs pass = Some known \<and> MaxMs pass = Some known"
    using assms(3,6)
    by (intro measures_known_delay [OF assms(1) line _ assms(4,5) _ bench_config_valid _ refl]) (simp_all add: cfg len assms(7))
  then obtain pass d' where m: "Measure (Exchange intn noisy 0) chirp_of correlate 0 ?cfg d = Inr (pass, d')"
      and f: "SampleCount pass = rc_Trials ?cfg" "Misses pass = 0" "P95Ms pass = Some known" "MinMs pass = Some known"
        "MaxMs pass = Some known" "P50Ms pass = Some known" "P99Ms pass = Some known"
        "DelaysMs pass = replicate (nat (rc_Trials ?cfg)) known"
    by blast
  obtain raw delays where r: "pass = figures raw delays" "TrialsAttempted raw = rc_Trials ?cfg"
    using Measure_raw [OF m] by blast
  have "TrialsAttempted pass = rc_Trials ?cfg"
    using r by (simp add: figures_attempted)
  moreover have "WeakestAccepted pass \<noteq> None" by (rule detected_weakest [OF m]) (use f n in simp)
  ultimately show ?thesis
    using m f assms(2)
    by (intro exI [of _ pass]) (simp add: measure_fixture_def encodable_pass_def steady_pass_def)
qed

lemma CompareP95_same:
  "P95Ms first = Some v \<Longrightarrow> P95Ms p = Some v \<Longrightarrow> CompareP95 first p =
     \<lparr>rp_FirstP95Ms = Some v, rp_SecondP95Ms = Some v, rp_DeltaMs = Some 0, rp_BoundMs = 10, rp_WithinBound = True,
      rp_Statement = InsideBound (Some v) (Some v) (Some 0) 10\<rparr>"
  by (simp add: CompareP95_def Let_def go_float_zero RepeatabilityBoundMs_def)

lemma bench_finish_steady:
  assumes "encodable_pass first" and "encodable_pass second" and "steady_pass n known first"
    and "steady_pass n known second" and "op_minSamples o' \<le> n"
  shows "bench_finish (\<lambda>x w. (None, w @ [x])) o' cfg first (Some second) [] =
     (None, [(if op_out o' = [] then ReportToStdout (bench_report o' cfg first (Some second))
         else ReportToFile (op_out o') (bench_report o' cfg first (Some second))),
        PassLine 1 n n 0 (Some known) (Some known) (Some known),
        PassLine 2 n n 0 (Some known) (Some known) (Some known),
        StatementLine (InsideBound (Some known) (Some known) (Some 0) 10)])"
  using assms
  by (simp add: bench_finish_def Let_def encodable_report write_until_said too_few_def pass_line_def steady_pass_def
      CompareP95_same)

text \<open>
  C31: In exact arithmetic for the chirp and the correlator, and pointed at a line without jitter and without noise
  whose delay is at most 22080 samples, which is what the trial leaves room for, with writes that go through and
  two passes asked for, the command succeeds where the chirps per pass are as many as required.  It writes one
  report and then three lines: for each pass, every chirp detected, none missed and every percentile exactly the
  line's delay, and that the two passes are apart by nothing.  The report holds the configuration, both passes with
  the same figures, every single delay only where they were asked for, and that comparison.
\<close>

theorem steady_run_reports_the_delay:
  fixes d :: "(real, 'g) DelayLine"
  assumes "intn_ok intn" and "fixture seeded 0 o' (bench_config o') (op_seed o') = Some d" and "op_noise o' \<le> 0"
    and "0 \<le> dl_base d" and "dl_jitter d = 0" and "dl_base d \<le> 22080"
    and "op_minSamples o' \<le> rc_Trials (bench_config o')" and "op_repeat o'"
    and "known = delay_ms (dl_base d) 48000" and "n = rc_Trials (bench_config o')"
  shows "\<exists>rep second.
     bench_run (measure_fixture seeded intn noisy 0 chirp_of correlate) (\<lambda>x w. (None, w @ [x])) (Some o') [] =
       Some (None :: 'e bench_error option,
         [(if op_out o' = [] then ReportToStdout rep else ReportToFile (op_out o') rep),
          PassLine 1 n n 0 (Some known) (Some known) (Some known),
          PassLine 2 n n 0 (Some known) (Some known) (Some known),
          StatementLine (InsideBound (Some known) (Some known) (Some 0) 10)]) \<and>
     rt_Config rep = bench_config o' \<and> rt_System rep = (op_delay o', op_jitter o', op_noise o') \<and>
     rt_Second rep = Some second \<and>
     (\<forall>p \<in> {rt_First rep, second}. SampleCount p = n \<and> TrialsAttempted p = n \<and> Misses p = 0 \<and>
        P50Ms p = Some known \<and> P95Ms p = Some known \<and> P99Ms p = Some known \<and>
        MinMs p = Some known \<and> MaxMs p = Some known \<and>
        DelaysMs p = (if op_raw o' then replicate (nat n) known else [])) \<and>
     rt_Repeatability rep = Some
       \<lparr>rp_FirstP95Ms = Some known, rp_SecondP95Ms = Some known, rp_DeltaMs = Some 0, rp_BoundMs = 10,
        rp_WithinBound = True, rp_Statement = InsideBound (Some known) (Some known) (Some 0) 10\<rparr>"
proof -
  let ?m = "measure_fixture seeded intn noisy 0 chirp_of correlate o' (bench_config o')"
  note steady = steady_fixture_pass [OF assms(1) _ assms(3), where noisy = noisy and seeded = seeded]
  obtain first where one: "?m (op_seed o') = Some (Inr first)" "encodable_pass first" "steady_pass n known first"
      "DelaysMs first = replicate (nat n) known"
    using steady [OF assms(2,4-6,9)] assms(10) by blast
  obtain second where two: "?m (wrap64 (op_seed o' + 1)) = Some (Inr second)" "encodable_pass second"
      "steady_pass n known second" "DelaysMs second = replicate (nat n) known"
    using steady [OF fixture_seed [OF assms(2)]] assms(4-6,9,10) by fastforce
  let ?rep = "bench_report o' (bench_config o') first (Some second)"
  have run: "bench_run (measure_fixture seeded intn noisy 0 chirp_of correlate) (\<lambda>x w. (None, w @ [x])) (Some o') [] =
       Some (None :: 'e bench_error option,
         [(if op_out o' = [] then ReportToStdout ?rep else ReportToFile (op_out o') ?rep),
          PassLine 1 n n 0 (Some known) (Some known) (Some known),
          PassLine 2 n n 0 (Some known) (Some known) (Some known),
          StatementLine (InsideBound (Some known) (Some known) (Some 0) 10)])"
    using one(1) two(1) assms(8)
    by (simp add: bench_run_def Let_def bench_config_valid
        bench_finish_steady [OF one(2) two(2) one(3) two(3) assms(7)[folded assms(10)]])
  moreover have "rt_Repeatability ?rep = Some
       \<lparr>rp_FirstP95Ms = Some known, rp_SecondP95Ms = Some known, rp_DeltaMs = Some 0, rp_BoundMs = 10,
        rp_WithinBound = True, rp_Statement = InsideBound (Some known) (Some known) (Some 0) 10\<rparr>"
    using one(3) two(3) by (simp add: bench_report_def Let_def CompareP95_same steady_pass_def)
  moreover have "\<forall>p \<in> {rt_First ?rep, the (rt_Second ?rep)}. SampleCount p = n \<and> TrialsAttempted p = n \<and> Misses p = 0 \<and>
        P50Ms p = Some known \<and> P95Ms p = Some known \<and> P99Ms p = Some known \<and>
        MinMs p = Some known \<and> MaxMs p = Some known \<and>
        DelaysMs p = (if op_raw o' then replicate (nat n) known else [])"
    using one(3,4) two(3,4) by (simp add: bench_report_def Let_def steady_pass_def)
  ultimately show ?thesis
    by (intro exI [of _ ?rep] exI [of _ "the (rt_Second ?rep)"]) (simp add: bench_report_def Let_def)
qed

subsection \<open>Concrete runs\<close>

lemma default_fixture:
  "fixture (\<lambda>s. s) 0 default_options (bench_config default_options) (op_seed default_options) =
     NewDelayLine (\<lambda>s. s) (0 :: real) ex_fixture"
proof -
  have "TrialPeriod DefaultConfig = 500000000" by code_simp
  then show ?thesis
    by (simp add: fixture_def ex_fixture_def default_options_def bench_config_def) (simp add: DefaultConfig_def)
qed

lemma default_fixture_made:
  "fixture (\<lambda>s. s) 0 default_options (bench_config default_options) (op_seed default_options) =
     Some \<lparr>dl_ring = replicate 4096 (0 :: real), dl_mask = 4095, dl_pos = 0, dl_base = 2400, dl_jitter = 0, dl_cur = 2400,
           dl_resample = 24000, dl_noise = 0, dl_rng = 1\<rparr>"
  unfolding default_fixture ex_fixture_made by (rule refl)

lemma default_options_simps:
  "rc_Trials (bench_config default_options) = 300" "op_noise default_options = 0" "op_minSamples default_options = 300"
  "op_repeat default_options" "op_seed default_options = 1" "op_out default_options = []"
  by (simp_all add: default_options_def bench_config_def DefaultConfig_def)

lemma default_runs:
  "\<exists>said. bench_run (measure_fixture (\<lambda>s. s) (\<lambda>n g. (0, g)) (\<lambda>_ g v. (v, g)) (0 :: real) chirp_of correlate)
     (\<lambda>x w. (None, w @ [x])) (Some default_options) [] = Some (None :: 'e bench_error option, said)"
proof -
  let ?m = "measure_fixture (\<lambda>s. s) (\<lambda>n g. (0, g)) (\<lambda>_ g v. (v, g)) (0 :: real) chirp_of correlate default_options
    (bench_config default_options)"
  note f = default_fixture_made
  have i: "intn_ok (\<lambda>n (g :: int). (0, g))" by (simp add: intn_ok_def)
  note g = steady_fixture_pass [OF i _ _ _ _ _ refl, where noisy = "\<lambda>_ g v. (v, g)" and o' = default_options]
  obtain first where one: "?m (op_seed default_options) = Some (Inr first)" "encodable_pass first"
      "steady_pass 300 (delay_ms 2400 48000) first"
    using g [OF f] by (auto simp: default_options_simps)
  obtain second where two: "?m (wrap64 (op_seed default_options + 1)) = Some (Inr second)" "encodable_pass second"
      "steady_pass 300 (delay_ms 2400 48000) second"
    using g [OF fixture_seed [OF f]] by (auto simp: default_options_simps)
  show ?thesis
    using one(1) two(1)
    by (simp add: bench_run_def Let_def bench_config_valid default_options_simps
        bench_finish_steady [OF one(2) two(2) one(3) two(3)])
qed

theorem steady_run_reports_the_delay_witness:
  "\<exists>rep second.
     bench_run (measure_fixture (\<lambda>s. s) (\<lambda>n g. (0, g)) (\<lambda>_ g v. (v, g)) 0 chirp_of correlate) (\<lambda>x w. (None, w @ [x]))
       (Some default_options) [] = Some (None :: nat bench_error option,
         [ReportToStdout rep, PassLine 1 300 300 0 (Some 50) (Some 50) (Some 50),
          PassLine 2 300 300 0 (Some 50) (Some 50) (Some 50), StatementLine (InsideBound (Some 50) (Some 50) (Some 0) 10)]) \<and>
     rt_Second rep = Some second \<and> MinMs (rt_First rep) = Some 50 \<and> MaxMs second = Some 50"
proof -
  have i: "intn_ok (\<lambda>n (g :: int). (0, g))" by (simp add: intn_ok_def)
  have m: "50 = delay_ms 2400 48000" by code_simp
  have o': "op_noise default_options \<le> 0" "op_minSamples default_options \<le> rc_Trials (bench_config default_options)"
      "op_repeat default_options" "300 = rc_Trials (bench_config default_options)"
    by (simp_all add: default_options_simps)
  show ?thesis
    using steady_run_reports_the_delay [OF i default_fixture_made o'(1) _ _ _ o'(2,3) _ o'(4),
        of 50 "\<lambda>_ g v. (v, g)"] m default_options_simps(6)
    by auto
qed

theorem bench_success_is_a_measurement_witness:
  "\<exists>first. measure_fixture (\<lambda>s. s) (\<lambda>n g. (0, g)) (\<lambda>_ g v. (v, g)) (0 :: real) chirp_of correlate default_options
       (bench_config default_options) 1 = Some (Inr first) \<and> 300 \<le> SampleCount first"
proof -
  obtain said where r: "bench_run (measure_fixture (\<lambda>s. s) (\<lambda>n g. (0, g)) (\<lambda>_ g v. (v, g)) (0 :: real) chirp_of correlate)
     (\<lambda>x w. (None, w @ [x])) (Some default_options) [] = Some (None :: nat bench_error option, said)"
    using default_runs by blast
  from bench_success_is_a_measurement [OF r] show ?thesis by (auto simp: default_options_simps)
qed

lemma trials_undetected:
  assumes "\<And>window. snd (seek window) < of_rat (rc_DetectionThreshold cfg)"
  shows "\<exists>pass' s'. trials exchange seek chirp silence cfg n window s pass delays = (pass', delays, s')"
proof (induction n arbitrary: window s pass)
  case (Suc n)
  obtain window1 s1 where w: "trial_frames exchange chirp silence (nat (rc_FrameSamples cfg))
      [0..<nat (rc_TrialPeriodSamples cfg) div nat (rc_FrameSamples cfg)] window s = (window1, s1)"
    by fastforce
  obtain offset score where f: "seek window1 = (offset, score)" by fastforce
  then have "score < of_rat (rc_DetectionThreshold cfg)" using assms [of window1] by simp
  then show ?case using Suc.IH w f by (simp add: Let_def judge_def)
qed simp

lemma Measure_undetected:
  assumes "Validate cfg = None"
    and "\<And>chirp period window. snd (correlator chirp period window) < of_rat (rc_DetectionThreshold cfg)"
  shows "\<exists>pass s'. Measure exchange chirper correlator silence cfg s = Inr (pass, s') \<and> SampleCount pass = 0"
proof -
  let ?chirp = "chirper (rc_ChirpSamples cfg) (rc_Rate cfg) (rc_ChirpLowHz cfg) (rc_ChirpHighHz cfg)"
  let ?pass0 = "\<lparr>TrialsAttempted = rc_Trials cfg, SampleCount = 0, Misses = 0, WeakestAccepted = None,
     P50Ms = Some 0, P95Ms = Some 0, P99Ms = Some 0, MinMs = Some 0, MaxMs = Some 0, DelaysMs = []\<rparr>"
  have "\<exists>pass' s'. trials exchange (correlator ?chirp (rc_TrialPeriodSamples cfg)) ?chirp silence cfg (nat (rc_Trials cfg))
      (replicate (nat (rc_TrialPeriodSamples cfg)) silence) s ?pass0 [] = (pass', [], s')"
    by (rule trials_undetected) (rule assms(2))
  then obtain pass' s' where "trials exchange (correlator ?chirp (rc_TrialPeriodSamples cfg)) ?chirp silence cfg
      (nat (rc_Trials cfg)) (replicate (nat (rc_TrialPeriodSamples cfg)) silence) s ?pass0 [] = (pass', [], s')"
    by blast
  then show ?thesis by (simp add: Measure_def assms(1) figures_def Let_def)
qed

theorem undetected_pass_is_not_reported_witness:
  "bench_run (measure_fixture (\<lambda>s. s) (\<lambda>n g. (0, g)) (\<lambda>_ g v. (v, g)) (0 :: real) chirp_of (\<lambda>_ _ _. (0, 0 :: real)))
     (\<lambda>x w. (None :: nat option, w @ [x])) (Some default_options) [] = Some (Some NotEncodable, [])"
proof -
  let ?cfg = "bench_config default_options"
  have cfg: "rc_DetectionThreshold ?cfg = rc_DetectionThreshold DefaultConfig"
    by (simp add: bench_config_def DefaultConfig_def)
  have "\<exists>first d'. Measure (Exchange (\<lambda>n g. (0, g)) (\<lambda>_ g v. (v, g)) 0) chirp_of (\<lambda>_ _ _. (0, 0 :: real)) 0 ?cfg d =
      Inr (first, d') \<and> SampleCount first = 0" for d :: "(real, int) DelayLine"
    by (rule Measure_undetected [OF bench_config_valid]) (use default_threshold(2) in \<open>simp add: cfg\<close>)
  then obtain first d' where "Measure (Exchange (\<lambda>n g. (0, g)) (\<lambda>_ g v. (v, g)) 0) chirp_of (\<lambda>_ _ _. (0, 0 :: real)) 0 ?cfg
      (the (fixture (\<lambda>s. s) 0 default_options ?cfg (op_seed default_options))) = Inr (first, d')" "SampleCount first = 0"
    by blast
  then have "measure_fixture (\<lambda>s. s) (\<lambda>n g. (0, g)) (\<lambda>_ g v. (v, g)) (0 :: real) chirp_of (\<lambda>_ _ _. (0, 0 :: real))
      default_options ?cfg (op_seed default_options) = Some (Inr first)"
    using default_fixture_made by (simp add: measure_fixture_def)
  from undetected_pass_is_not_reported [OF _ this] \<open>SampleCount first = 0\<close> show ?thesis by simp
qed

end
