(* ===== verification/Spec2Isabelle.thy ===== *)
theory Spec2Isabelle
  imports Space_Machine Presence_Hub Resume_Register Resume_View Auth_Credentials Store_Agreement Store_Migrations Media_Fake
    Config_File Log_Record Transport Server_Entry Bench_Command
begin

text \<open>
  A model of the server of this repository, a self-hosted voice service written in Go, and of the rig that
  measures it, with the theorems that make their parts correct.

  \<^bold>\<open>The program.\<close>  \<^verbatim>\<open>main.go\<close> reads one configuration file
  (\<^verbatim>\<open>internal/config\<close>) and reports it.  A client arrives over a WebSocket
  (\<^verbatim>\<open>internal/transport\<close>), speaks framed messages and agrees on a version
  (\<^verbatim>\<open>internal/signalling\<close>), and authenticates with a token it got for its password
  (\<^verbatim>\<open>internal/auth\<close>).  \<^verbatim>\<open>internal/orchestration\<close> keeps who is where: spaces, channels,
  rooms and occupancies, the permissions, the presence projection, the hub that fans it out, and the register
  that lets a dropped client resume.  \<^verbatim>\<open>internal/store\<close> keeps what outlives the process, in memory
  or in SQLite; \<^verbatim>\<open>internal/media\<close> is the port to a media unit, with an in-memory one;
  \<^verbatim>\<open>internal/logging\<close> writes records that carry no text; \<^verbatim>\<open>bench\<close> is the
  mouth-to-ear rig.

  \<^bold>\<open>Theories and sources.\<close>
  \<^item> \<^verbatim>\<open>Go_Prelude\<close>, \<^verbatim>\<open>Go_Text\<close>, \<^verbatim>\<open>Go_Encoding\<close>,
    \<^verbatim>\<open>Go_Scan\<close>, \<^verbatim>\<open>Go_Numbers\<close>: what the source uses of Go and its standard library: maps,
    strings of bytes and their runes, hexadecimal and base64, SHA-256, \<^verbatim>\<open>Sscanf\<close>, decimals and
    durations, the rounding of \<^verbatim>\<open>float64\<close>.
  \<^item> \<^verbatim>\<open>Identifiers\<close> (\<^verbatim>\<open>id.go\<close>), \<^verbatim>\<open>Clocks\<close> (\<^verbatim>\<open>clock.go\<close>,
    \<^verbatim>\<open>grace.go\<close>), \<^verbatim>\<open>Permissions\<close> (\<^verbatim>\<open>permission.go\<close>).
  \<^item> \<^verbatim>\<open>Domain_Model\<close> (\<^verbatim>\<open>domain.go\<close>, \<^verbatim>\<open>always_on.go\<close>): operations on a heap
    of channels and rooms, which the code shares by pointer; \<^verbatim>\<open>Space_Machine\<close>: their step relation,
    the reachable spaces and their invariant.
  \<^item> \<^verbatim>\<open>Presence_Projection\<close> (\<^verbatim>\<open>presence.go\<close>), \<^verbatim>\<open>Presence_Hub\<close>
    (\<^verbatim>\<open>presence_hub.go\<close>), \<^verbatim>\<open>Resume_Register\<close> (\<^verbatim>\<open>resume.go\<close>): convergence of the
    projection under reordering and repetition, convergence of a client's view, disclosure, and what a resumption
    answers, over arbitrary histories; \<^verbatim>\<open>Resume_View\<close>: the hub and the register side by side, which
    of a server's calls on the two make the answer to a resumption complete, and whom a flush tells what.
  \<^item> \<^verbatim>\<open>Wire_Frame\<close> (\<^verbatim>\<open>frame.go\<close>), \<^verbatim>\<open>Wire_Negotiation\<close>
    (\<^verbatim>\<open>negotiation.go\<close>), \<^verbatim>\<open>Wire_Conn\<close> (\<^verbatim>\<open>conn.go\<close>, \<^verbatim>\<open>Negotiate\<close>):
    round trips, bounds and the gate.
  \<^item> \<^verbatim>\<open>Auth_Sessions\<close> (\<^verbatim>\<open>session.go\<close>, \<^verbatim>\<open>Admit\<close>),
    \<^verbatim>\<open>Auth_Credentials\<close> (\<^verbatim>\<open>credential.go\<close>, \<^verbatim>\<open>Authenticate\<close>): tokens, their
    lifetime, stored credentials, and what an unknown name learns and costs.
  \<^item> \<^verbatim>\<open>Store_Port\<close> (\<^verbatim>\<open>store.go\<close>, the contract as a locale), \<^verbatim>\<open>Store_Memory\<close>
    (\<^verbatim>\<open>memory.go\<close>), \<^verbatim>\<open>Store_Sqlite\<close> (\<^verbatim>\<open>sqlite.go\<close>),
    \<^verbatim>\<open>Store_Migrations\<close> (\<^verbatim>\<open>migrate.go\<close>), \<^verbatim>\<open>Store_Agreement\<close>: the two stores
    answer every sequence of calls alike.
  \<^item> \<^verbatim>\<open>Media_Port\<close> (\<^verbatim>\<open>port.go\<close>), \<^verbatim>\<open>Media_Fake\<close> (\<^verbatim>\<open>fake.go\<close>).
  \<^item> \<^verbatim>\<open>Config_File\<close> (\<^verbatim>\<open>config.go\<close>), \<^verbatim>\<open>Log_Record\<close>
    (\<^verbatim>\<open>logging.go\<close>), \<^verbatim>\<open>Transport\<close> (\<^verbatim>\<open>confidentiality.go\<close>,
    \<^verbatim>\<open>websocket.go\<close>), \<^verbatim>\<open>Server_Entry\<close> (\<^verbatim>\<open>main.go\<close>).
  \<^item> \<^verbatim>\<open>Bench_Rig\<close> (\<^verbatim>\<open>bench.go\<close>, \<^verbatim>\<open>stats.go\<close>, \<^verbatim>\<open>system.go\<close>),
    \<^verbatim>\<open>Bench_Measure\<close> (\<^verbatim>\<open>Measure\<close>): the delay fixture, the interface of a system as a
    locale that the fixture interprets, and a pass over such a system.
  \<^item> \<^verbatim>\<open>Bench_Fft\<close>, \<^verbatim>\<open>Bench_Dsp\<close> (\<^verbatim>\<open>dsp.go\<close>): the transform is the discrete Fourier
    transform, the correlator finds a clean copy where it is, and the rig with both reports a known delay exactly;
    \<^verbatim>\<open>Bench_Command\<close> (\<^verbatim>\<open>cmd/mouth-to-ear/main.go\<close>): the command, its two passes and its report.

  \<^bold>\<open>Conventions.\<close>  A Go map is an association list read with \<open>map_of\<close>; an operation that can fail
  returns a sum with a datatype of errors that carries what the message quotes; a pointer shared by the code is an
  address in a heap; a clock reading and a random draw are arguments.  A mutex makes an operation one step, so
  interleavings are sequences of operations.  A revision is a 64 bit word and wire lengths are 32 and 16 bit words;
  other integers are \<open>int\<close> where the code's own checks keep them far from their bounds.  The search for a power
  of two may run forever in the code and is a \<^verbatim>\<open>partial_function\<close>; every other loop is a total
  function, so no fuel is used.  Sample counts, ranks and delays are rationals with every rounding of
  \<^verbatim>\<open>float64\<close> written out; the chirp, the transform and the correlator are over the real and complex
  numbers, so what is shown of them is exact arithmetic and says nothing of the rounding.

  \<^bold>\<open>Outside code, as arguments.\<close>  The argon2 key derivation (\<open>argon_ok\<close>), the SQL engine
  (\<open>engine_ok\<close>, \<open>transactions_ok\<close>), the WebSocket handshake, the Unicode print table above
  Latin-1, the pseudo-random generator (\<open>intn_ok\<close>), file contents and output streams.  Each hypothesis on
  them is met by a concrete function in a witness.

  \<^bold>\<open>Not modelled.\<close>  The texts of error messages, of the rig's JSON and of its printed lines beyond the
  values they carry; the rounding of the rig's signal processing;
  allocations larger than the machine can hold; parsing of command line flags; contexts and
  cancellation; closing a socket after its handler returns; package documentation files
  (\<^verbatim>\<open>doc.go\<close>), which hold no code.  The server that would call the parts is not in the
  tree: how it orders its calls is an arbitrary history, and what it tells the register of a flush is an argument
  (\<open>moved\<close>), with \<open>tells_all\<close> as the hypothesis that it leaves out no channel that moved.
\<close>

section \<open>What the parts do together\<close>

subsection \<open>From a password to an admitted connection\<close>

text \<open>The frame a client authenticates with.\<close>

definition auth_frame :: "string \<Rightarrow> Frame" where
  "auth_frame token = \<lparr>frame_kind = KindAuthenticate, frame_payload = string_bytes token\<rparr>"

lemma auth_frame_ok: "length token \<le> MaxPayloadSize \<Longrightarrow> frame_ok (auth_frame token)"
  by (simp add: auth_frame_def frame_ok_def string_bytes_def KindAuthenticate_def KindReserved_def)

lemma token_fits: "length (token_of raw) \<le> MaxPayloadSize"
proof -
  have "length (token_of raw) \<le> 2 * length (take tokenBytes raw)"
    unfolding token_of_def by (rule length_b64_encode)
  also have "\<dots> \<le> 64" by (simp add: tokenBytes_def)
  finally show ?thesis by (simp add: MaxPayloadSize_def)
qed

lemma Admit_fresh:
  assumes "Lookup now token s = Inr session" and "length token \<le> MaxPayloadSize"
  shows "Admit now s (NewConn (stream\<lparr>st_in := frame_bytes (auth_frame token) @ rest\<rparr>)) =
     (Inr session, MarkAuthenticated (NewConn (stream\<lparr>st_in := rest\<rparr>)))"
proof -
  have "ReadFrame (NewConn (stream\<lparr>st_in := frame_bytes (auth_frame token) @ rest\<rparr>)) =
      (Inr (auth_frame token), NewConn (stream\<lparr>st_in := rest\<rparr>))"
    using Decode_frame_bytes [OF auth_frame_ok [OF assms(2)], of rest stream]
    by (simp add: ReadFrame_def NewConn_def auth_frame_def Known_def Let_def)
  then show ?thesis using assms(1) by (simp add: Admit_def auth_frame_def)
qed

text \<open>
  C12: A password becomes an admitted connection.  Against the stored form of a password, whatever
  the salt, authentication with the password opens a session; and a request that arrives
  confidentially within the session's lifetime and whose stream starts with its token is served with
  the session and an authenticated connection that has everything after the token still to read,
  whatever other sessions were opened and revoked in between, short of this one being revoked or another
  being opened under the same digest.
\<close>

theorem password_becomes_an_admitted_connection:
  assumes "argon_ok ar" and "length salt = saltLen" and "Store ar (Some salt) password = Inr stored"
    and "accounts name = Held stored" and "name \<noteq> []"
    and "session = session_of t0 raw name" and "token = token_of raw"
    and "list_all (leaves token session) later" and "now < t0 + TokenLifetime"
    and "confidential transit (overTLS r)"
    and "accept r = Some (stream\<lparr>st_in := frame_bytes (auth_frame token) @ rest\<rparr>)"
  shows "\<exists>s1. Authenticate ar accounts t0 (Some raw) (ses_run past NewSessions) name password =
        Inr (session, token, s1) \<and>
     Handler (Admit now (ses_run later s1)) transit overTLS accept r =
        Served (Inr session, MarkAuthenticated (NewConn (stream\<lparr>st_in := rest\<rparr>)))"
proof -
  let ?s = "ses_run past NewSessions"
  let ?s1 = "?s\<lparr>ss_held := AList.update (digest token) session (ss_held ?s)\<rparr>"
  have "Matches ar stored password = Inr True" using Matches_Store [OF assms(1-3)] by simp
  then have auth: "Authenticate ar accounts t0 (Some raw) ?s name password = Inr (session, token, ?s1)"
    using assms(4-7) by (simp add: Authenticate_eq Open_eq)
  have "map_of (ss_held (ses_run later ?s1)) (digest token) = Some session"
    by (rule leaves_run [OF _ _ assms(8)]) (use gm_ok_history in simp_all)
  then have "Lookup now token (ses_run later ?s1) = Inr session"
    using assms(6,9) by (simp add: Lookup_def)
  then have "Admit now (ses_run later ?s1) (NewConn (stream\<lparr>st_in := frame_bytes (auth_frame token) @ rest\<rparr>)) =
      (Inr session, MarkAuthenticated (NewConn (stream\<lparr>st_in := rest\<rparr>)))"
    by (rule Admit_fresh) (simp add: assms(7) token_fits)
  then have "Handler (Admit now (ses_run later ?s1)) transit overTLS accept r =
      Served (Inr session, MarkAuthenticated (NewConn (stream\<lparr>st_in := rest\<rparr>)))"
    unfolding Handler_Served
    by (intro conjI exI [of _ "stream\<lparr>st_in := frame_bytes (auth_frame token) @ rest\<rparr>"] assms(10,11)) (rule sym)
  with auth show ?thesis by blast
qed

theorem password_becomes_an_admitted_connection_witness:
  "\<exists>s1. Handler (Admit Second s1) TLSTerminatedAhead (\<lambda>_. False)
      (\<lambda>_. Some (ex_stream\<lparr>st_in := frame_bytes (auth_frame (token_of ex_raw)) @ [1, 2]\<rparr>)) () =
     Served (Inr (session_of 0 ex_raw ''ada''), MarkAuthenticated (NewConn (ex_stream\<lparr>st_in := [1, 2]\<rparr>)))"
proof -
  have a: "ex_accounts ''ada'' = Held ex_stored" "''ada'' \<noteq> []" by (simp_all add: ex_accounts_def)
  have l: "list_all (leaves (token_of ex_raw) (session_of 0 ex_raw ''ada'')) []" by simp
  have t: "Second < 0 + TokenLifetime" by (simp add: TokenLifetime_def Second_def)
  have c: "confidential TLSTerminatedAhead ((\<lambda>_. False) ())" by (simp add: confidential_def)
  show ?thesis
    using password_becomes_an_admitted_connection
      [where r = "()" and overTLS = "\<lambda>_. False" and past = "[]" and later = "[]" and
        accounts = ex_accounts and raw = ex_raw and name = "''ada''" and stream = ex_stream and rest = "[1, 2]" and
        accept = "\<lambda>_. Some (ex_stream\<lparr>st_in := frame_bytes (auth_frame (token_of ex_raw)) @ [1, 2]\<rparr>)",
       OF ex_argon_ok ex_salt_length ex_Store a refl refl l t c refl] by auto
qed

subsection \<open>Presence over the durable store\<close>

text \<open>
  C14: Presence is disclosed by stored grants alone.  With the SQLite store answering the permission
  questions, whatever a flush sends a client about a channel, the table of grants holds the row that
  gives the client's viewer the permission to see that channel of the hub's space.
\<close>

theorem presence_is_disclosed_by_stored_grants:
  assumes "engine_ok eng view" and "view db = Some t" and "finite (tab_grant t)"
    and "hub_reachable h" and "Flush (Some (Sqlite_Granted eng db)) h = Some (out, h')" and "d \<in> set out"
    and "map_of (hub_clients h) (dl_client d) = Some c" and "channel \<in> told_of (dl_message d)"
  shows "(ID_String (principal_id (cl_viewer c)), ID_String (hub_space h), ID_String channel, ''see-channel'')
     \<in> tab_grant t"
proof -
  note inv = hub_reachable_inv [OF assms(4)]
  have "d = delivery_for (Some (Sqlite_Granted eng db)) h (dl_client d)"
    using delivered [OF inv assms(5,6)] by (rule conjunct1)
  then have told: "channel \<in> told_of (dl_message (delivery_for (Some (Sqlite_Granted eng db)) h (dl_client d)))"
    using assms(8) by simp
  have "visible (Some (Sqlite_Granted eng db)) h c channel"
    by (rule told_of_visible [OF inv assms(7) told])
  then have "may (Sqlite_Granted eng db) (cl_viewer c) SeeChannel (ChannelSubject (hub_space h) channel)"
    by (simp add: visible_def Allow_iff_may split: if_splits)
  then have "has (Sqlite_Granted eng db (cl_viewer c) (ChannelSubject (hub_space h) channel)) SeeChannel"
      "\<not> IsZero channel"
    by (auto simp: may_def)
  then show ?thesis
    unfolding Granted_reads [OF assms(1-3)]
    by (simp add: subjectChannel_def Subject_Channel_def Permission_String_def)
qed

definition ex_tables :: tables where
  "ex_tables = empty_tables\<lparr>tab_grant := {(ID_String alice, ID_String home, ID_String lobby, ''see-channel'')}\<rparr>"

lemma ex_tables_see: "Allow (Some (Sqlite_Granted table_engine ex_tables)) (Person alice) SeeChannel (ChannelSubject home lobby)"
proof -
  have f: "finite (tab_grant ex_tables)" by (simp add: ex_tables_def)
  show ?thesis
    unfolding Allow_SeeChannel_iff Granted_reads [OF table_engine_ok refl f]
    by (simp add: ex_tables_def subjectChannel_def Subject_Channel_def Permission_String_def declared_range)
qed

theorem presence_is_disclosed_by_stored_grants_witness:
  "(ID_String alice, ID_String home, ID_String lobby, ''see-channel'') \<in> tab_grant ex_tables"
proof -
  have f: "finite (tab_grant ex_tables)" by (simp add: ex_tables_def)
  have c: "map_of (hub_clients ex_busy) (dl_client ex_delivery) = Some \<lparr>cl_viewer = Person alice, cl_subscribed = []\<rparr>"
    by (simp add: ex_busy_eq ex_attached_def ex_hub_def ex_delivery_def)
  have t: "lobby \<in> told_of (dl_message ex_delivery)" by (simp add: told_of_def ex_delivery_def)
  have "hub_space ex_busy = home" by (simp add: ex_busy_eq ex_attached_def ex_hub_def)
  with presence_is_disclosed_by_stored_grants [OF table_engine_ok refl f ex_busy_reachable
      ex_busy_flush_any [OF ex_tables_see] _ c t]
  show ?thesis by simp
qed

subsection \<open>From a hello to an admitted connection\<close>

text \<open>
  C13: The opening exchange, in the order the comments on \<^verbatim>\<open>Negotiate\<close> put it.  A peer whose
  bytes are a hello for the version spoken here, with any unknown fields around it, and behind it the token of a
  live session, is first answered with one frame, from which it reads the agreed version, and is then admitted:
  the gate opens for that session, nothing more is written, and everything behind the token is still to read.
\<close>

theorem hello_and_token_are_admitted:
  assumes "list_all field_ok (pre @ post)" and "fieldProposedVersion \<notin> fld_id ` set pre"
    and "frame_ok (hello_with pre 1 post)"
    and "st_in stream = frame_bytes (hello_with pre 1 post) @ frame_bytes (auth_frame token) @ rest"
    and "1000 \<le> st_room stream"
    and "Lookup now token s = Inr session" and "length token \<le> MaxPayloadSize"
  shows "\<exists>c1 c2 reply. Negotiate (NewConn stream) = (Inr 1, c1) \<and> \<not> Authenticated c1 \<and>
     Admit now s c1 = (Inr session, c2) \<and> Authenticated c2 \<and> st_in (conn_stream c2) = rest \<and>
     st_out (conn_stream c2) = st_out stream @ frame_bytes reply \<and> AgreedVersion reply = Inr 1"
proof -
  let ?token = "frame_bytes (auth_frame token) @ rest"
  let ?s = "snd (Write (frame_bytes (answer 1)) (stream\<lparr>st_in := ?token\<rparr>))"
  obtain fds where fds: "decodeFields (frame_payload (hello_with pre 1 post)) = Inr fds"
      "versionField fds fieldProposedVersion = Inr 1"
    using hello_fields [OF assms(1,2)] by blast
  have room: "headerSize + length (frame_payload (answer 1)) \<le> st_room stream"
    using assms(5) by (simp add: answer_def agreement_def headerSize_def MinSupportedVersion_def MaxSupportedVersion_def)
  have one: "Negotiate (NewConn stream) = (Inr 1, NewConn ?s)"
    using Negotiate_hello [OF _ fds assms(3), of "NewConn stream" ?token] assms(4) room
    by (simp add: NewConn_def hello_with_def MinSupportedVersion_def MaxSupportedVersion_def)
  have s: "?s = ?s\<lparr>st_in := ?token\<rparr>" "st_out ?s = st_out stream @ frame_bytes (answer 1)"
    using room by (simp_all add: Write_def)
  have two: "Admit now s (NewConn ?s) = (Inr session, MarkAuthenticated (NewConn (?s\<lparr>st_in := rest\<rparr>)))"
    by (subst s(1)) (rule Admit_fresh [OF assms(6,7)])
  have "AgreedVersion (answer 1) = Inr 1"
    by (simp add: answer_def MinSupportedVersion_def MaxSupportedVersion_def)
  with one two s(2) show ?thesis
    by (intro exI [of _ "NewConn ?s"] exI [of _ "MarkAuthenticated (NewConn (?s\<lparr>st_in := rest\<rparr>))"] exI [of _ "answer 1"])
      (simp add: Authenticated_def MarkAuthenticated_def NewConn_def)
qed

theorem hello_and_token_are_admitted_witness:
  "\<exists>c1 c2. Negotiate (NewConn (ex_stream\<lparr>st_in :=
        frame_bytes (hello_with [] 1 []) @ frame_bytes (auth_frame (token_of ex_raw)) @ [7]\<rparr>)) = (Inr 1, c1) \<and>
     Admit Second ex_opened c1 = (Inr (session_of 0 ex_raw ''ada''), c2) \<and> st_in (conn_stream c2) = [7]"
proof -
  have f: "list_all field_ok ([] @ [])" "fieldProposedVersion \<notin> fld_id ` set []" "frame_ok (hello_with [] 1 [])"
    by (simp_all flip: Hello_hello_with)
  have t: "Lookup Second (token_of ex_raw) ex_opened = Inr (session_of 0 ex_raw ''ada'')"
    by (simp add: ex_opened_def Lookup_def Open_eq session_of_def TokenLifetime_def Second_def)
  have "1000 \<le> st_room ex_stream" by (simp add: ex_stream_def)
  then show ?thesis
    using hello_and_token_are_admitted [OF f _ _ t token_fits, of "ex_stream\<lparr>st_in :=
        frame_bytes (hello_with [] 1 []) @ frame_bytes (auth_frame (token_of ex_raw)) @ [7]\<rparr>" "[7]"] by auto
qed

subsection \<open>A configuration the register accepts\<close>

text \<open>
  The configuration and the register agree.  Every configuration that is accepted gives a window
  and a breadth the resume register accepts, and where the file named none they are the register's own
  documented window and breadth, so an operator who says nothing gets what the register promises.
\<close>

theorem accepted_configurations_start_the_register:
  assumes "Parse txt = Inr c"
  shows "NewResumptions True (cfg_ResumeWindow c) (cfg_ResumeBreadth c) =
       Inr \<lparr>rs_window = cfg_ResumeWindow c, rs_breadth = cfg_ResumeBreadth c, rs_revision = 0, rs_held = [],
            rs_order = []\<rparr> \<and>
     (''resume-window'' \<in> set (cfg_Defaulted c) \<longrightarrow> cfg_ResumeWindow c = ResumeWindow) \<and>
     (''resume-breadth'' \<in> set (cfg_Defaulted c) \<longrightarrow> cfg_ResumeBreadth c = ResumeMissedChannels)"
proof -
  obtain col where col: "apply_settings (col_values col) settings zero_Config = Inr c" "nonempty_values col"
    using assms by (rule Parse_Inr)
  have "config_ok c"
    by (rule apply_settings_ok [OF col(1)]) (use col(2) in \<open>auto simp: nonempty_values_def\<close>)
  then have "0 < cfg_ResumeWindow c" "0 < cfg_ResumeBreadth c" by (simp_all add: config_ok_def)
  moreover have "cfg_Defaulted c = filter (\<lambda>k. map_of (col_values col) k = None) declaredNames"
    using apply_settings_Defaulted [OF col(1)] by (simp add: declaredNames_def zero_Config_def)
  ultimately show ?thesis
    using apply_settings_resume_defaults [OF col(1)]
    by (auto simp: NewResumptions_def ResumeWindow_def ResumeMissedChannels_def)
qed

theorem accepted_configurations_start_the_register_witness:
  "cfg_ResumeWindow ex_config = ResumeWindow"
  using accepted_configurations_start_the_register [OF ex_Parse] by (simp add: ex_config_def)

end
